(* ===== verification/Prelude.thy ===== *)
theory Prelude
  imports Main "HOL-Library.Code_Target_Nat" "HOL-Library.Char_ord" "HOL-Library.List_Lexorder" "HOL-Library.Sublist"
begin

text \<open>
  Shared vocabulary of the development. Rust's \<open>String\<close>, \<open>OsString\<close> and
  \<open>PathBuf\<close> on a POSIX target are byte sequences, modelled as \<open>string\<close> (a
  \<open>char\<close> is one byte). \<open>Result<T, E>\<close> is \<open>'e + 't\<close> with \<open>Inl\<close> for the
  error, and the \<open>?\<close> operator is \<open>and_then\<close>. The theory holds the
  string operations of the standard library the sources use (\<open>split\<close>,
  \<open>strip_prefix\<close>, \<open>split_once\<close>, ASCII case folding) and loops with an early return.
\<close>

named_theorems result_simps \<open>unfolding a chain of fallible steps\<close>
named_theorems text_simps \<open>evaluating text operations on literals\<close>

type_synonym ('e, 'a) rust_result = "'e + 'a"

section \<open>Fallible computations\<close>

definition and_then :: "('e, 'a) rust_result \<Rightarrow> ('a \<Rightarrow> ('e, 'b) rust_result) \<Rightarrow> ('e, 'b) rust_result" where
  "and_then r f = (case r of Inl e \<Rightarrow> Inl e | Inr x \<Rightarrow> f x)"

definition map_err :: "('e \<Rightarrow> 'f) \<Rightarrow> ('e, 'a) rust_result \<Rightarrow> ('f, 'a) rust_result" where
  "map_err h r = (case r of Inl e \<Rightarrow> Inl (h e) | Inr x \<Rightarrow> Inr x)"

definition is_ok :: "('e, 'a) rust_result \<Rightarrow> bool" where
  "is_ok r = (case r of Inl _ \<Rightarrow> False | Inr _ \<Rightarrow> True)"

lemma and_then_simps [simp]:
  "and_then (Inl e) f = Inl e"
  "and_then (Inr x) f = f x"
  by (simp_all add: and_then_def)

lemma map_err_simps [simp]:
  "map_err h (Inl e) = Inl (h e)"
  "map_err h (Inr x) = Inr x"
  by (simp_all add: map_err_def)

lemma is_ok_simps [simp]:
  "\<not> is_ok (Inl e)"
  "is_ok (Inr x)"
  by (simp_all add: is_ok_def)

lemma and_then_eq_Inr [result_simps]:
  "and_then r f = Inr y \<longleftrightarrow> (\<exists>x. r = Inr x \<and> f x = Inr y)"
  by (cases r) auto

lemma map_err_eq_Inr [result_simps]: "map_err h r = Inr y \<longleftrightarrow> r = Inr y"
  by (cases r) auto

lemma is_ok_iff: "is_ok r \<longleftrightarrow> (\<exists>x. r = Inr x)"
  by (cases r) auto

lemma and_then_Inr_right [simp]: "and_then r Inr = r"
  by (cases r) auto

text \<open>A loop over a list whose body may return early with an error.\<close>

fun try_fold :: "('s \<Rightarrow> 'a \<Rightarrow> ('e, 's) rust_result) \<Rightarrow> 's \<Rightarrow> 'a list \<Rightarrow> ('e, 's) rust_result" where
  "try_fold f s [] = Inr s"
| "try_fold f s (x # xs) = and_then (f s x) (\<lambda>s'. try_fold f s' xs)"

fun try_map :: "('a \<Rightarrow> ('e, 'b) rust_result) \<Rightarrow> 'a list \<Rightarrow> ('e, 'b list) rust_result" where
  "try_map f [] = Inr []"
| "try_map f (x # xs) = and_then (f x) (\<lambda>y. and_then (try_map f xs) (\<lambda>ys. Inr (y # ys)))"

lemma try_fold_invariant:
  assumes "try_fold f s xs = Inr t" and "P s"
    and "\<And>s x s'. x \<in> set xs \<Longrightarrow> P s \<Longrightarrow> f s x = Inr s' \<Longrightarrow> P s'"
  shows "P t"
  using assms
proof (induction xs arbitrary: s)
  case (Cons x xs)
  from Cons.prems(1) obtain s' where s': "f s x = Inr s'" and rest: "try_fold f s' xs = Inr t"
    by (auto simp: and_then_eq_Inr)
  from s' Cons.prems(2,3) have "P s'" by auto
  then show ?case using Cons.IH [OF rest] Cons.prems(3) by auto
qed simp

lemma guard_eq_Inr: "(if b then Inl e else r) = Inr y \<longleftrightarrow> \<not> b \<and> r = Inr y"
  by simp

lemma try_fold_seen:
  assumes "try_fold f s xs = Inr t" and "P [] s"
    and step: "\<And>seen s x s'. P seen s \<Longrightarrow> f s x = Inr s' \<Longrightarrow> P (seen @ [x]) s'"
  shows "P xs t"
proof -
  have "P (seen @ xs) t" if "try_fold f s xs = Inr t" and "P seen s" for seen s
    using that
  proof (induction xs arbitrary: seen s)
    case (Cons x xs)
    then obtain s' where s': "f s x = Inr s'" and rest: "try_fold f s' xs = Inr t" by (auto simp: and_then_eq_Inr)
    from Cons.IH [OF rest step [OF Cons.prems(2) s']] show ?case by simp
  qed simp
  from this [of s "[]"] assms(1,2) show ?thesis by simp
qed

lemma try_fold_same_success:
  assumes "\<And>s x s'. f s x = Inr s' \<longleftrightarrow> g s x = Inr s'"
  shows "try_fold f s xs = Inr t \<longleftrightarrow> try_fold g s xs = Inr t"
  by (induction xs arbitrary: s) (auto simp: and_then_eq_Inr assms)

lemma try_map_Inr: "try_map f xs = Inr ys \<longleftrightarrow> list_all2 (\<lambda>x y. f x = Inr y) xs ys"
  by (induction xs arbitrary: ys) (auto simp: and_then_eq_Inr list_all2_Cons1)

text \<open>Reading one field off a loop over the state.\<close>

lemma foldl_flag:
  assumes "\<And>r x. flag (step r x) \<longleftrightarrow> flag r \<or> P x"
  shows "flag (foldl step r xs) \<longleftrightarrow> flag r \<or> list_ex P xs"
  by (induction xs arbitrary: r) (auto simp: assms)

lemma foldl_keeps:
  assumes "\<And>r x. field (step r x) = field r"
  shows "field (foldl step r xs) = field r"
  by (induction xs arbitrary: r) (simp_all add: assms)

section \<open>Text\<close>

definition starts_with :: "string \<Rightarrow> string \<Rightarrow> bool" where
  "starts_with pre s \<longleftrightarrow> take (length pre) s = pre"

definition strip_prefix :: "string \<Rightarrow> string \<Rightarrow> string option" where
  "strip_prefix pre s = (if starts_with pre s then Some (drop (length pre) s) else None)"

lemma starts_with_prefix: "starts_with pre s \<longleftrightarrow> prefix pre s"
  by (metis append_eq_conv_conj append_take_drop_id prefix_def starts_with_def)

lemma strip_prefix_Some: "strip_prefix pre s = Some r \<longleftrightarrow> s = pre @ r"
  by (auto simp: strip_prefix_def starts_with_def) (metis append_take_drop_id)

text \<open>\<open>str::split\<close> on a one-byte separator: \<open>n\<close> separators give \<open>n + 1\<close> parts.\<close>

fun split_on :: "char \<Rightarrow> string \<Rightarrow> string list" where
  "split_on c [] = [[]]"
| "split_on c (x # xs) =
     (if x = c then [] # split_on c xs
      else case split_on c xs of [] \<Rightarrow> [[x]] | p # ps \<Rightarrow> (x # p) # ps)"

declare split_on.simps(2) [simp del]

lemma split_on_nonempty [simp]: "split_on c s \<noteq> []"
  by (cases s) (auto simp: split_on.simps(2) split: list.splits)

lemma split_on_Cons [simp]:
  "split_on c (x # xs) =
     (if x = c then [] # split_on c xs else (x # hd (split_on c xs)) # tl (split_on c xs))"
  by (cases "split_on c xs") (auto simp: split_on.simps(2))

lemma split_on_parts: "p \<in> set (split_on c s) \<Longrightarrow> c \<notin> set p"
proof (induction s arbitrary: p)
  case (Cons x xs)
  have "hd (split_on c xs) \<in> set (split_on c xs)" by simp
  moreover have "set (tl (split_on c xs)) \<subseteq> set (split_on c xs)" by (simp add: list.set_sel(2) subsetI)
  ultimately show ?case using Cons by (auto split: if_splits)
qed simp

lemma split_on_no_sep: "c \<notin> set s \<Longrightarrow> split_on c s = [s]"
  by (induction s) auto

lemma split_on_append: "split_on c (a @ c # b) = split_on c a @ split_on c b"
  by (induction a) auto

lemma split_on_append_no_sep: "c \<notin> set a \<Longrightarrow> split_on c (a @ c # b) = a # split_on c b"
  by (simp add: split_on_append split_on_no_sep)

text \<open>\<open>str::split_once\<close> with a text separator.\<close>

fun split_once :: "string \<Rightarrow> string \<Rightarrow> (string \<times> string) option" where
  "split_once d [] = (if d = [] then Some ([], []) else None)"
| "split_once d (x # xs) =
     (if starts_with d (x # xs) then Some ([], drop (length d) (x # xs))
      else map_option (\<lambda>(a, b). (x # a, b)) (split_once d xs))"

lemma split_once_Some: "split_once d s = Some (a, b) \<Longrightarrow> s = a @ d @ b"
proof (induction s arbitrary: a)
  case (Cons x xs)
  then show ?case
    by (auto simp: starts_with_def split: if_splits) (metis append_take_drop_id)
qed (auto split: if_splits)

lemma split_once_None_iff: "split_once d s = None \<longleftrightarrow> \<not> sublist d s"
proof (induction s)
  case (Cons x xs)
  then show ?case
    by (auto simp: starts_with_prefix sublist_Cons_right)
qed auto

text \<open>ASCII classes and case folding on bytes.\<close>

abbreviation byte :: "char \<Rightarrow> nat" where
  "byte c \<equiv> of_char c"

definition is_ascii :: "char \<Rightarrow> bool" where
  "is_ascii c \<longleftrightarrow> byte c < 128"

definition is_ascii_alphabetic :: "char \<Rightarrow> bool" where
  "is_ascii_alphabetic c \<longleftrightarrow> (65 \<le> byte c \<and> byte c \<le> 90) \<or> (97 \<le> byte c \<and> byte c \<le> 122)"

definition is_ascii_digit :: "char \<Rightarrow> bool" where
  "is_ascii_digit c \<longleftrightarrow> 48 \<le> byte c \<and> byte c \<le> 57"

definition to_ascii_lowercase :: "char \<Rightarrow> char" where
  "to_ascii_lowercase c = (if 65 \<le> byte c \<and> byte c \<le> 90 then char_of (byte c + 32) else c)"

definition ascii_lower :: "string \<Rightarrow> string" where
  "ascii_lower s = map to_ascii_lowercase s"

definition eq_ignore_ascii_case :: "string \<Rightarrow> string \<Rightarrow> bool" where
  "eq_ignore_ascii_case a b \<longleftrightarrow> ascii_lower a = ascii_lower b"

lemmas ascii_defs [text_simps] =
  is_ascii_def is_ascii_alphabetic_def is_ascii_digit_def to_ascii_lowercase_def
  ascii_lower_def eq_ignore_ascii_case_def

lemma to_ascii_lowercase_idem [simp]: "to_ascii_lowercase (to_ascii_lowercase c) = to_ascii_lowercase c"
  by (auto simp: to_ascii_lowercase_def)

lemma ascii_lower_idem [simp]: "ascii_lower (ascii_lower s) = ascii_lower s"
  by (simp add: ascii_lower_def)

lemma ascii_lower_append: "ascii_lower (a @ b) = ascii_lower a @ ascii_lower b"
  by (simp add: ascii_lower_def)

lemma length_ascii_lower [simp]: "length (ascii_lower s) = length s"
  by (simp add: ascii_lower_def)

text \<open>A byte outside the ASCII capitals is a lower-case image of itself only.\<close>

lemma to_ascii_lowercase_eq_iff:
  assumes "\<not> is_ascii_alphabetic c"
  shows "to_ascii_lowercase x = c \<longleftrightarrow> x = c"
proof
  assume "to_ascii_lowercase x = c"
  then show "x = c"
  proof (cases "65 \<le> byte x \<and> byte x \<le> 90")
    case True
    with \<open>to_ascii_lowercase x = c\<close> have "byte c = byte x + 32"
      by (auto simp: to_ascii_lowercase_def)
    with True assms show ?thesis by (simp add: is_ascii_alphabetic_def)
  qed (simp add: to_ascii_lowercase_def)
next
  assume "x = c"
  with assms show "to_ascii_lowercase x = c"
    by (auto simp: to_ascii_lowercase_def is_ascii_alphabetic_def)
qed

end
