(* ===== verification/Collections.thy ===== *)
theory Collections
  imports Prelude "HOL-Library.AList"
begin

text \<open>
  The collection loops the crates share, with the contracts their clients rely on.
  \<open>push_unique\<close> is the \<open>HashSet::insert\<close> guard in front of \<open>Vec::push\<close>;
  \<open>push_absent\<close> is the linear \<open>any\<close> test in front of \<open>Vec::push\<close>; \<open>collapse\<close>
  is the loop of every \<open>normalized\<close> method, which merges a rule into the entry at the
  position a \<open>HashMap\<close> records for its key. \<open>bt_insert\<close> and \<open>bt_remove\<close> are
  \<open>BTreeMap::insert\<close> and \<open>BTreeMap::remove\<close> on the ascending list of entries. The locales state
  what a caller provides (an identity that is a key equality, a merge that keeps the key, a
  measure the merge respects) and prove the consequences once.
\<close>

section \<open>Lists without duplicates\<close>

definition push_unique :: "('a \<Rightarrow> 'k) \<Rightarrow> 'k set \<times> 'a list \<Rightarrow> 'a \<Rightarrow> 'k set \<times> 'a list" where
  "push_unique key p x =
     (case p of (ks, xs) \<Rightarrow> if key x \<in> ks then (ks, xs) else (insert (key x) ks, xs @ [x]))"

definition push_absent :: "('a \<Rightarrow> 'a \<Rightarrow> bool) \<Rightarrow> 'a list \<Rightarrow> 'a \<Rightarrow> 'a list" where
  "push_absent same xs x = (if list_ex (\<lambda>y. same y x) xs then xs else xs @ [x])"

definition keyed_list :: "('a \<Rightarrow> 'k) \<Rightarrow> 'k set \<times> 'a list \<Rightarrow> bool" where
  "keyed_list key p \<longleftrightarrow> fst p = set (map key (snd p)) \<and> distinct (map key (snd p))"

lemma keyed_list_Nil [simp]: "keyed_list key ({}, [])"
  by (simp add: keyed_list_def)

lemma keyed_list_push_unique: "keyed_list key p \<Longrightarrow> keyed_list key (push_unique key p x)"
  by (cases p) (auto simp: keyed_list_def push_unique_def)

lemma set_push_absent: "set xs \<subseteq> set (push_absent same xs x)" "set (push_absent same xs x) \<subseteq> insert x (set xs)"
  by (auto simp: push_absent_def)

text \<open>An identity test that agrees with equality of keys.\<close>

locale keyed_identity =
  fixes same :: "'a \<Rightarrow> 'a \<Rightarrow> bool"
    and key :: "'a \<Rightarrow> 'k"
  assumes same_iff: "same a b \<longleftrightarrow> key a = key b"
begin

lemma same_refl: "same a a"
  by (simp add: same_iff)

lemma same_sym: "same a b \<Longrightarrow> same b a"
  by (simp add: same_iff)

lemma same_trans: "same a b \<Longrightarrow> same b c \<Longrightarrow> same a c"
  by (simp add: same_iff)

lemma push_absent_distinct: "distinct (map key xs) \<Longrightarrow> distinct (map key (push_absent same xs x))"
  by (auto simp: push_absent_def list_ex_iff same_iff)

lemma push_absent_member: "list_ex (same x) (push_absent same xs y) \<longleftrightarrow> list_ex (same x) xs \<or> same x y"
  by (auto simp: push_absent_def list_ex_iff same_iff) metis

lemma foldl_push_absent_distinct:
  "distinct (map key xs) \<Longrightarrow> distinct (map key (foldl (push_absent same) xs ys))"
  by (induction ys arbitrary: xs) (auto simp: push_absent_distinct)

lemma foldl_push_absent_member:
  "list_ex (same x) (foldl (push_absent same) xs ys) \<longleftrightarrow> list_ex (same x) xs \<or> list_ex (same x) ys"
  by (induction ys arbitrary: xs) (auto simp: push_absent_member)

text \<open>Guarding with the key set and guarding with the linear test build the same list.\<close>

lemma push_unique_absent:
  "keyed_list key (ks, xs) \<Longrightarrow> snd (push_unique key (ks, xs) x) = push_absent same xs x"
  by (auto simp: keyed_list_def push_unique_def push_absent_def list_ex_iff same_iff image_iff)

end

section \<open>Merging entries with equal keys\<close>

definition collapse_step ::
  "('r \<Rightarrow> 'k) \<Rightarrow> ('r \<Rightarrow> 'r \<Rightarrow> 'r) \<Rightarrow> 'r list \<times> ('k \<rightharpoonup> nat) \<Rightarrow> 'r \<Rightarrow> 'r list \<times> ('k \<rightharpoonup> nat)" where
  "collapse_step key merge p r =
     (case p of (entries, positions) \<Rightarrow>
       (case positions (key r) of
          Some index \<Rightarrow> (entries[index := merge (entries ! index) r], positions)
        | None \<Rightarrow> (entries @ [r], positions(key r \<mapsto> length entries))))"

definition collapse_state :: "('r \<Rightarrow> 'k) \<Rightarrow> ('r \<Rightarrow> 'r \<Rightarrow> 'r) \<Rightarrow> 'r list \<Rightarrow> 'r list \<times> ('k \<rightharpoonup> nat)" where
  "collapse_state key merge rs = foldl (collapse_step key merge) ([], \<lambda>_. None) rs"

definition collapse :: "('r \<Rightarrow> 'k) \<Rightarrow> ('r \<Rightarrow> 'r \<Rightarrow> 'r) \<Rightarrow> 'r list \<Rightarrow> 'r list" where
  "collapse key merge rs = fst (collapse_state key merge rs)"

lemma collapse_state_snoc:
  "collapse_state key merge (rs @ [r]) = collapse_step key merge (collapse_state key merge rs) r"
  by (simp add: collapse_state_def)

lemma collapse_Nil [simp]: "collapse key merge [] = []"
  by (simp add: collapse_def collapse_state_def)

lemma filter_update_other: "\<not> P (xs ! i) \<Longrightarrow> \<not> P x \<Longrightarrow> filter P (xs[i := x]) = filter P xs"
  by (induction xs arbitrary: i) (auto split: nat.splits)

lemma filter_key_unique:
  "distinct (map key xs) \<Longrightarrow> i < length xs \<Longrightarrow> filter (\<lambda>e. key e = key (xs ! i)) xs = [xs ! i]"
proof (induction xs arbitrary: i)
  case (Cons x xs)
  show ?case
  proof (cases i)
    case 0
    with Cons.prems show ?thesis by (auto simp: filter_empty_conv image_iff)
  next
    case (Suc j)
    with Cons have "key x \<noteq> key (xs ! j)" by (auto simp: image_iff)
    with Cons Suc show ?thesis by simp
  qed
qed simp

lemma sum_list_update_add:
  fixes f :: "'r \<Rightarrow> 'v :: comm_monoid_add"
  assumes "i < length xs" and "f x = f (xs ! i) + y"
  shows "sum_list (map f (xs[i := x])) = sum_list (map f xs) + y"
  using assms
proof (induction xs arbitrary: i)
  case (Cons z zs)
  then show ?case by (cases i) (auto simp: ac_simps)
qed simp

text \<open>The rules with one key, merged in declaration order.\<close>

definition merged_at :: "('r \<Rightarrow> 'k) \<Rightarrow> ('r \<Rightarrow> 'r \<Rightarrow> 'r) \<Rightarrow> 'k \<Rightarrow> 'r list \<Rightarrow> 'r list" where
  "merged_at key merge k rs =
     (case filter (\<lambda>r. key r = k) rs of [] \<Rightarrow> [] | r # rest \<Rightarrow> [foldl merge r rest])"

lemma merged_at_snoc_other: "key r \<noteq> k \<Longrightarrow> merged_at key merge k (rs @ [r]) = merged_at key merge k rs"
  by (simp add: merged_at_def)

lemma merged_at_snoc_same:
  "merged_at key merge (key r) (rs @ [r]) =
     (case merged_at key merge (key r) rs of [] \<Rightarrow> [r] | e # _ \<Rightarrow> [merge e r])"
  by (simp add: merged_at_def split: list.splits)

locale keyed_merge =
  fixes key :: "'r \<Rightarrow> 'k"
    and merge :: "'r \<Rightarrow> 'r \<Rightarrow> 'r"
  assumes key_merge: "key a = key b \<Longrightarrow> key (merge a b) = key a"
begin

definition collapsed :: "'r list \<times> ('k \<rightharpoonup> nat) \<Rightarrow> bool" where
  "collapsed p \<longleftrightarrow> distinct (map key (fst p)) \<and>
     (\<forall>k i. snd p k = Some i \<longleftrightarrow> i < length (fst p) \<and> key (fst p ! i) = k)"

lemma collapsed_step:
  assumes "collapsed p"
  shows "collapsed (collapse_step key merge p r)"
proof (cases p)
  case (Pair es ps)
  show ?thesis
  proof (cases "ps (key r)")
    case None
    with assms Pair have new: "key (es ! i) \<noteq> key r" if "i < length es" for i
      using that by (auto simp: collapsed_def) (metis option.distinct(1))
    then have "key r \<notin> key ` set es" by (metis image_iff in_set_conv_nth)
    with assms Pair None new show ?thesis
      by (auto simp: collapsed_def collapse_step_def nth_append less_Suc_eq)
  next
    case (Some i)
    with assms Pair have i: "i < length es" "key (es ! i) = key r" by (auto simp: collapsed_def)
    then have "map key (es[i := merge (es ! i) r]) = map key es"
      by (metis key_merge list_update_id map_update)
    moreover from this i have "key (es[i := merge (es ! i) r] ! j) = key (es ! j)" if "j < length es" for j
      using that by (metis length_list_update nth_map)
    moreover have "collapse_step key merge p r = (es[i := merge (es ! i) r], ps)"
      using Pair Some by (simp add: collapse_step_def)
    ultimately show ?thesis
      using assms Pair by (auto simp: collapsed_def)
  qed
qed

lemma collapsed_state: "collapsed (collapse_state key merge rs)"
proof (induction rs rule: rev_induct)
  case Nil
  then show ?case by (simp add: collapse_state_def collapsed_def)
next
  case (snoc r rs)
  then show ?case by (simp add: collapse_state_snoc collapsed_step)
qed

lemma distinct_collapse: "distinct (map key (collapse key merge rs))"
  using collapsed_state [of rs] by (simp add: collapse_def collapsed_def)

lemma merged_step:
  assumes "collapsed p" and "filter (\<lambda>e. key e = k) (fst p) = merged_at key merge k rs"
    and "filter (\<lambda>e. key e = key r) (fst p) = merged_at key merge (key r) rs"
  shows "filter (\<lambda>e. key e = k) (fst (collapse_step key merge p r)) = merged_at key merge k (rs @ [r])"
proof (cases p)
  case (Pair es ps)
  show ?thesis
  proof (cases "ps (key r)")
    case None
    then have "\<forall>e \<in> set es. key e \<noteq> key r"
      using assms(1) Pair by (auto simp: collapsed_def in_set_conv_nth) (metis option.distinct(1))
    then have "merged_at key merge (key r) rs = []"
      using assms(3) Pair by (simp add: filter_empty_conv)
    with assms(2) Pair None show ?thesis
      by (auto simp: collapse_step_def merged_at_snoc_same merged_at_snoc_other)
  next
    case (Some i)
    with assms(1) Pair have i: "i < length es" "key (es ! i) = key r" "distinct (map key es)"
      by (auto simp: collapsed_def)
    let ?es = "es[i := merge (es ! i) r]"
    have same: "merged_at key merge (key r) rs = [es ! i]"
      using assms(3) Pair i filter_key_unique [of key es i] by simp
    have km: "key (merge (es ! i) r) = key r" using i key_merge by simp
    have "distinct (map key ?es)"
      using i km by (metis list_update_id map_update)
    then have "filter (\<lambda>e. key e = key r) ?es = [merge (es ! i) r]"
      using filter_key_unique [of key ?es i] i km by simp
    with assms(2) Pair Some same i km show ?thesis
      by (cases "k = key r")
        (auto simp: collapse_step_def merged_at_snoc_same merged_at_snoc_other filter_update_other)
  qed
qed

text \<open>Every key keeps exactly one entry, its rules merged in declaration order.\<close>

lemma filter_collapse: "filter (\<lambda>e. key e = k) (collapse key merge rs) = merged_at key merge k rs"
proof (induction rs arbitrary: k rule: rev_induct)
  case Nil
  then show ?case by (simp add: collapse_def collapse_state_def merged_at_def)
next
  case (snoc r rs)
  then show ?case
    using merged_step [OF collapsed_state, of k rs rs r] by (simp add: collapse_def collapse_state_snoc)
qed

lemma key_foldl_merge: "\<forall>r \<in> set rest. key r = key e \<Longrightarrow> key (foldl merge e rest) = key e"
  by (induction rest arbitrary: e) (auto simp: key_merge)

lemma keys_collapse: "key ` set (collapse key merge rs) = key ` set rs"
proof -
  have "k \<in> key ` set (collapse key merge rs) \<longleftrightarrow> k \<in> key ` set rs" for k
  proof -
    have "k \<in> key ` set (collapse key merge rs) \<longleftrightarrow> filter (\<lambda>e. key e = k) (collapse key merge rs) \<noteq> []"
      by (auto simp: filter_empty_conv)
    also have "\<dots> \<longleftrightarrow> filter (\<lambda>e. key e = k) rs \<noteq> []"
      by (simp add: filter_collapse merged_at_def split: list.splits)
    also have "\<dots> \<longleftrightarrow> k \<in> key ` set rs" by (auto simp: filter_empty_conv)
    finally show ?thesis .
  qed
  then show ?thesis by blast
qed

lemma collapse_member:
  assumes "e \<in> set (collapse key merge rs)"
  obtains r rest where "filter (\<lambda>r. key r = key e) rs = r # rest" and "e = foldl merge r rest"
proof -
  have "e \<in> set (filter (\<lambda>x. key x = key e) (collapse key merge rs))" using assms by simp
  then have "e \<in> set (merged_at key merge (key e) rs)" by (simp only: filter_collapse)
  then show ?thesis
    by (cases "filter (\<lambda>r. key r = key e) rs") (auto simp: merged_at_def intro: that)
qed

text \<open>A list that already has distinct keys is left alone.\<close>

lemma collapse_distinct_id: "distinct (map key rs) \<Longrightarrow> collapse key merge rs = rs"
proof (induction rs rule: rev_induct)
  case Nil
  then show ?case by (simp add: collapse_def collapse_state_def)
next
  case (snoc r rs)
  obtain es ps where st: "collapse_state key merge rs = (es, ps)" by (rule prod.exhaust)
  with snoc have es: "es = rs" by (simp add: collapse_def)
  have "ps (key r) = None"
    using snoc.prems collapsed_state [of rs] st es
    by (auto simp: collapsed_def) (metis image_eqI nth_mem not_Some_eq)
  with st es show ?case by (simp add: collapse_def collapse_state_snoc collapse_step_def)
qed

lemma collapse_idem: "collapse key merge (collapse key merge rs) = collapse key merge rs"
  by (rule collapse_distinct_id [OF distinct_collapse])

lemma collapse_invariant:
  assumes "\<forall>r \<in> set rs. P r" and "\<And>a b. P a \<Longrightarrow> P b \<Longrightarrow> key a = key b \<Longrightarrow> P (merge a b)"
    and "e \<in> set (collapse key merge rs)"
  shows "P e"
proof -
  from assms(3) obtain r rest where f: "filter (\<lambda>r. key r = key e) rs = r # rest"
    and e: "e = foldl merge r rest" by (rule collapse_member)
  have "set (r # rest) \<subseteq> set rs" and keys: "\<forall>x \<in> set (r # rest). key x = key e"
    unfolding f [symmetric] by auto
  then have "P r" and "\<forall>x \<in> set rest. P x" and "\<forall>x \<in> set rest. key x = key r"
    using assms(1) by auto
  then have "P (foldl merge r rest) \<and> key (foldl merge r rest) = key r"
    by (induction rest arbitrary: r) (auto simp: assms(2) key_merge)
  with e show ?thesis by simp
qed

end

text \<open>A measure of one rule that the merge turns into a sum.\<close>

locale keyed_measure = keyed_merge key merge
  for key :: "'r \<Rightarrow> 'k" and merge :: "'r \<Rightarrow> 'r \<Rightarrow> 'r" +
  fixes f :: "'r \<Rightarrow> 'v :: comm_monoid_add"
    and ok :: "'r \<Rightarrow> bool"
  assumes f_merge: "key a = key b \<Longrightarrow> ok a \<Longrightarrow> ok b \<Longrightarrow> f (merge a b) = f a + f b"
    and ok_merge: "key a = key b \<Longrightarrow> ok a \<Longrightarrow> ok b \<Longrightarrow> ok (merge a b)"
begin

lemma sum_collapse:
  assumes "\<forall>r \<in> set rs. ok r"
  shows "sum_list (map f (collapse key merge rs)) = sum_list (map f rs)"
  using assms
proof (induction rs rule: rev_induct)
  case Nil
  then show ?case by (simp add: collapse_def collapse_state_def)
next
  case (snoc r rs)
  obtain es ps where st: "collapse_state key merge rs = (es, ps)" by (rule prod.exhaust)
  then have es: "es = collapse key merge rs" by (simp add: collapse_def)
  show ?case
  proof (cases "ps (key r)")
    case None
    with st have "collapse key merge (rs @ [r]) = es @ [r]"
      by (simp add: collapse_def collapse_state_snoc collapse_step_def)
    with es snoc show ?thesis by simp
  next
    case (Some i)
    with collapsed_state [of rs] st have i: "i < length es" "key (es ! i) = key r"
      by (auto simp: collapsed_def)
    have "ok (es ! i)"
      using collapse_invariant [of rs ok "es ! i"] snoc.prems ok_merge i es by auto
    with i snoc.prems have "f (merge (es ! i) r) = f (es ! i) + f r" by (simp add: f_merge)
    note sum = sum_list_update_add [where f = f, OF i(1) this]
    from st Some have "collapse key merge (rs @ [r]) = es[i := merge (es ! i) r]"
      by (simp add: collapse_def collapse_state_snoc collapse_step_def)
    with es snoc sum show ?thesis by simp
  qed
qed

end

section \<open>Ordered and hashed maps\<close>

text \<open>
  \<open>BTreeMap\<close> as the list of its entries in ascending key order; \<open>key\<close> is what the \<open>Ord\<close> instance
  of the key type compares. Inserting under an equal key keeps the old key and replaces the value.
\<close>

fun bt_insert :: "('a \<Rightarrow> 'k :: linorder) \<Rightarrow> 'a \<Rightarrow> 'v \<Rightarrow> ('a \<times> 'v) list \<Rightarrow> ('a \<times> 'v) list" where
  "bt_insert key k v [] = [(k, v)]"
| "bt_insert key k v ((k', v') # m) =
     (if key k < key k' then (k, v) # (k', v') # m
      else if key k = key k' then (k', v) # m
      else (k', v') # bt_insert key k v m)"

definition bt_remove :: "('a \<Rightarrow> 'k :: linorder) \<Rightarrow> 'a \<Rightarrow> ('a \<times> 'v) list \<Rightarrow> ('a \<times> 'v) list" where
  "bt_remove key k m = filter (\<lambda>e. key (fst e) \<noteq> key k) m"

definition bt_get :: "('a \<Rightarrow> 'k :: linorder) \<Rightarrow> ('a \<times> 'v) list \<Rightarrow> 'a \<Rightarrow> 'v option" where
  "bt_get key m k = map_of (map (\<lambda>(a, v). (key a, v)) m) (key k)"

definition bt_sorted :: "('a \<Rightarrow> 'k :: linorder) \<Rightarrow> ('a \<times> 'v) list \<Rightarrow> bool" where
  "bt_sorted key m \<longleftrightarrow> sorted_wrt (<) (map (\<lambda>e. key (fst e)) m)"

lemma bt_sorted_Nil [simp]: "bt_sorted key []"
  by (simp add: bt_sorted_def)

lemma bt_sorted_distinct: "bt_sorted key m \<Longrightarrow> distinct (map (\<lambda>e. key (fst e)) m)"
  by (simp add: bt_sorted_def strict_sorted_iff)

lemma bt_sorted_filter: "bt_sorted key m \<Longrightarrow> bt_sorted key (filter P m)"
  by (simp add: bt_sorted_def sorted_wrt_map sorted_wrt_filter)

lemma bt_sorted_remove: "bt_sorted key m \<Longrightarrow> bt_sorted key (bt_remove key k m)"
  by (simp add: bt_remove_def bt_sorted_filter)

lemma keys_bt_insert: "(\<lambda>e. key (fst e)) ` set (bt_insert key k v m) = insert (key k) ((\<lambda>e. key (fst e)) ` set m)"
  by (induction key k v m rule: bt_insert.induct) (simp_all add: insert_commute)

lemma bt_sorted_insert: "bt_sorted key m \<Longrightarrow> bt_sorted key (bt_insert key k v m)"
proof (induction m)
  case (Cons e m)
  obtain k' v' where e: "e = (k', v')" by (rule prod.exhaust)
  have "\<forall>x \<in> set (bt_insert key k v m). key k' < key (fst x)" if "key k' < key k"
  proof
    fix x
    assume "x \<in> set (bt_insert key k v m)"
    then have "key (fst x) \<in> insert (key k) ((\<lambda>e. key (fst e)) ` set m)"
      using keys_bt_insert [of key k v m] by blast
    with that Cons.prems e show "key k' < key (fst x)" by (auto simp: bt_sorted_def)
  qed
  with Cons e show ?case by (auto simp: bt_sorted_def)
qed (simp add: bt_sorted_def)

text \<open>Inserting a key that is not present adds exactly its entry.\<close>

lemma set_bt_insert_new:
  "\<forall>e \<in> set m. key (fst e) \<noteq> key k \<Longrightarrow> set (bt_insert key k v m) = insert (k, v) (set m)"
  by (induction key k v m rule: bt_insert.induct) (auto split: if_splits)

lemma set_bt_remove: "set (bt_remove key k m) = {e \<in> set m. key (fst e) \<noteq> key k}"
  by (auto simp: bt_remove_def)

lemma bt_get_iff:
  "bt_sorted key m \<Longrightarrow> bt_get key m k = Some v \<longleftrightarrow> (\<exists>a. (a, v) \<in> set m \<and> key a = key k)"
proof -
  assume "bt_sorted key m"
  then have "distinct (map fst (map (\<lambda>(a, v). (key a, v)) m))"
    using bt_sorted_distinct by (fastforce simp: comp_def case_prod_beta)
  then show ?thesis by (force simp: bt_get_def)
qed

text \<open>The contract of a map type, and its two instances in the sources.\<close>

locale finite_map =
  fixes get :: "'m \<Rightarrow> 'k \<Rightarrow> 'v option"
    and put :: "'k \<Rightarrow> 'v \<Rightarrow> 'm \<Rightarrow> 'm"
    and del :: "'k \<Rightarrow> 'm \<Rightarrow> 'm"
    and inv :: "'m \<Rightarrow> bool"
  assumes get_put: "inv m \<Longrightarrow> get (put k v m) = (get m)(k \<mapsto> v)"
    and get_del: "inv m \<Longrightarrow> get (del k m) = (get m)(k := None)"
    and inv_put: "inv m \<Longrightarrow> inv (put k v m)"
    and inv_del: "inv m \<Longrightarrow> inv (del k m)"
begin

lemma get_put_put: "inv m \<Longrightarrow> get (put k v (put k w m)) = get (put k v m)"
  by (simp add: get_put inv_put)

lemma get_put_del: "inv m \<Longrightarrow> get (put k v (del k m)) = get (put k v m)"
  by (simp add: get_put get_del inv_del)

lemma get_put_commute: "inv m \<Longrightarrow> k \<noteq> l \<Longrightarrow> get (put k v (put l w m)) = get (put l w (put k v m))"
  by (auto simp: get_put inv_put)

end

lemma bt_insert_lookup:
  fixes m :: "('k :: linorder \<times> 'v) list"
  assumes "bt_sorted id m"
  shows "map_of (bt_insert id k v m) = (map_of m)(k \<mapsto> v)"
  using assms
proof (induction m)
  case (Cons e m)
  then show ?case by (cases e) (auto simp: bt_sorted_def)
qed simp

interpretation btree: finite_map map_of "bt_insert id" "bt_remove id" "bt_sorted id"
proof
  fix m :: "('k :: linorder \<times> 'v) list" and k v
  assume m: "bt_sorted id m"
  show "map_of (bt_insert id k v m) = (map_of m)(k \<mapsto> v)" by (rule bt_insert_lookup [OF m])
  show "map_of (bt_remove id k m) = (map_of m)(k := None)"
    by (induction m) (auto simp: bt_remove_def)
qed (simp_all add: bt_sorted_insert bt_sorted_remove)

interpretation hash_map: finite_map map_of AList.update AList.delete "\<lambda>m. distinct (map fst m)"
  by unfold_locales (auto simp: update_conv' delete_conv' distinct_update distinct_delete)

end
