(* ===== verification/Utf8.thy ===== *)
theory Utf8
  imports Prelude
begin

text \<open>
  UTF-8 as the Rust standard library reads it: \<open>utf8_chunks\<close> is the decoding loop behind
  \<open>String::from_utf8_lossy\<close>, \<open>OsStr::to_string_lossy\<close>, \<open>OsStr::to_str\<close> and
  \<open>str::chars\<close>; each step consumes one code point or one maximal invalid sequence.
  \<open>char::is_whitespace\<close> and \<open>char::is_control\<close> are given by their Unicode
  code-point ranges. The Unicode tables for letters are large, so their non-ASCII part
  (\<open>char::to_lowercase\<close>, \<open>str::to_lowercase\<close>, \<open>char::is_alphanumeric\<close>) is a
  parameter of the model, a \<open>unicode_data\<close> record; the ASCII part is written out.
\<close>

section \<open>Decoding\<close>

definition byte_at :: "string \<Rightarrow> nat \<Rightarrow> nat" where
  "byte_at bs i = (if i < length bs then byte (bs ! i) else 0)"

definition cont_at :: "string \<Rightarrow> nat \<Rightarrow> bool" where
  "cont_at bs i \<longleftrightarrow> 128 \<le> byte_at bs i \<and> byte_at bs i < 192"

definition second_of_three :: "nat \<Rightarrow> nat \<Rightarrow> bool" where
  "second_of_three b n \<longleftrightarrow>
     (b = 0xE0 \<and> 0xA0 \<le> n \<and> n \<le> 0xBF) \<or> (0xE1 \<le> b \<and> b \<le> 0xEC \<and> 0x80 \<le> n \<and> n \<le> 0xBF) \<or>
     (b = 0xED \<and> 0x80 \<le> n \<and> n \<le> 0x9F) \<or> (0xEE \<le> b \<and> b \<le> 0xEF \<and> 0x80 \<le> n \<and> n \<le> 0xBF)"

definition second_of_four :: "nat \<Rightarrow> nat \<Rightarrow> bool" where
  "second_of_four b n \<longleftrightarrow>
     (b = 0xF0 \<and> 0x90 \<le> n \<and> n \<le> 0xBF) \<or> (0xF1 \<le> b \<and> b \<le> 0xF3 \<and> 0x80 \<le> n \<and> n \<le> 0xBF) \<or>
     (b = 0xF4 \<and> 0x80 \<le> n \<and> n \<le> 0x8F)"

text \<open>The code point at the front (\<open>None\<close> for an invalid sequence) and the bytes it takes.\<close>

definition utf8_first :: "string \<Rightarrow> nat option \<times> nat" where
  "utf8_first bs =
     (let b = byte_at bs 0; c1 = byte_at bs 1 - 128; c2 = byte_at bs 2 - 128; c3 = byte_at bs 3 - 128
      in if b < 128 then (Some b, 1)
         else if 0xC2 \<le> b \<and> b \<le> 0xDF then
           (if cont_at bs 1 then (Some ((b - 0xC0) * 64 + c1), 2) else (None, 1))
         else if 0xE0 \<le> b \<and> b \<le> 0xEF then
           (if \<not> second_of_three b (byte_at bs 1) then (None, 1)
            else if \<not> cont_at bs 2 then (None, 2)
            else (Some ((b - 0xE0) * 4096 + c1 * 64 + c2), 3))
         else if 0xF0 \<le> b \<and> b \<le> 0xF4 then
           (if \<not> second_of_four b (byte_at bs 1) then (None, 1)
            else if \<not> cont_at bs 2 then (None, 2)
            else if \<not> cont_at bs 3 then (None, 3)
            else (Some ((b - 0xF0) * 262144 + c1 * 4096 + c2 * 64 + c3), 4))
         else (None, 1))"

lemma utf8_first_pos [simp]: "0 < snd (utf8_first bs)"
  by (simp add: utf8_first_def Let_def)

function utf8_chunks :: "string \<Rightarrow> (nat option \<times> string) list" where
  "utf8_chunks [] = []"
| "utf8_chunks (b # bs) =
     (let (c, n) = utf8_first (b # bs) in (c, take n (b # bs)) # utf8_chunks (drop n (b # bs)))"
  by pat_completeness auto
termination
proof (relation "measure length", simp)
  fix b :: char and bs :: string and x :: "nat option \<times> nat" and c n
  assume "x = utf8_first (b # bs)" and "(c, n) = x"
  then have "0 < n" by (metis snd_conv utf8_first_pos)
  then show "(drop n (b # bs), b # bs) \<in> measure length" by (cases n) auto
qed

declare utf8_chunks.simps(2) [simp del]

lemma utf8_chunks_Cons:
  "utf8_chunks (b # bs) =
     (fst (utf8_first (b # bs)), take (snd (utf8_first (b # bs))) (b # bs)) #
       utf8_chunks (drop (snd (utf8_first (b # bs))) (b # bs))"
  by (simp add: utf8_chunks.simps(2) split: prod.splits)

lemma concat_utf8_chunks: "concat (map snd (utf8_chunks bs)) = bs"
proof (induction bs rule: utf8_chunks.induct)
  case (2 b bs)
  let ?n = "snd (utf8_first (b # bs))"
  have "concat (map snd (utf8_chunks (drop ?n (b # bs)))) = drop ?n (b # bs)"
    by (rule 2 [OF refl, of "fst (utf8_first (b # bs))"]) simp
  then show ?case
    unfolding utf8_chunks_Cons list.map concat.simps snd_conv by (metis append_take_drop_id)
qed simp

lemma utf8_first_ascii: "is_ascii b \<Longrightarrow> utf8_first (b # bs) = (Some (byte b), 1)"
  by (simp add: utf8_first_def byte_at_def is_ascii_def Let_def)

lemma utf8_chunks_ascii_Cons:
  "is_ascii b \<Longrightarrow> utf8_chunks (b # bs) = (Some (byte b), [b]) # utf8_chunks bs"
  by (simp add: utf8_chunks_Cons utf8_first_ascii)

lemma utf8_chunks_ascii:
  "list_all is_ascii bs \<Longrightarrow> utf8_chunks bs = map (\<lambda>c. (Some (byte c), [c])) bs"
  by (induction bs) (auto simp: utf8_chunks_ascii_Cons)

text \<open>No byte of an invalid sequence is ASCII.\<close>

lemma utf8_first_invalid:
  assumes "utf8_first bs = (None, n)" and "c \<in> set (take n bs)"
  shows "\<not> is_ascii c"
proof -
  from assms(2) obtain i where i: "i < n" "i < length bs" "c = bs ! i"
    by (auto simp: in_set_conv_nth)
  then have c: "byte c = byte_at bs i" by (simp add: byte_at_def)
  have snds: "second_of_three b m \<Longrightarrow> 128 \<le> m" "second_of_four b m \<Longrightarrow> 128 \<le> m" for b m
    by (auto simp: second_of_three_def second_of_four_def)
  have n: "i = 0 \<or> i = 1 \<or> i = 2"
    using assms(1) i(1) by (auto simp: utf8_first_def Let_def split: if_splits)
  have "128 \<le> byte_at bs i"
    using n
  proof (elim disjE)
    assume "i = 0"
    with assms(1) show ?thesis by (auto simp: utf8_first_def Let_def split: if_splits)
  next
    assume "i = 1"
    with assms(1) i(1) snds show ?thesis by (auto simp: utf8_first_def Let_def split: if_splits)
  next
    assume "i = 2"
    with assms(1) i(1) show ?thesis
      by (auto simp: utf8_first_def Let_def cont_at_def split: if_splits)
  qed
  with c show ?thesis by (simp add: is_ascii_def)
qed

lemma utf8_chunks_invalid: "(None, w) \<in> set (utf8_chunks bs) \<Longrightarrow> c \<in> set w \<Longrightarrow> \<not> is_ascii c"
proof (induction bs rule: utf8_chunks.induct)
  case (2 b bs)
  obtain d n where dn: "utf8_first (b # bs) = (d, n)" by (rule prod.exhaust)
  from 2(2) consider "d = None" "w = take n (b # bs)" | "(None, w) \<in> set (utf8_chunks (drop n (b # bs)))"
    unfolding utf8_chunks_Cons dn by auto
  then show ?case
  proof cases
    case 1
    with dn utf8_first_invalid [of "b # bs" n c] 2(3) show ?thesis by simp
  next
    case 2
    show ?thesis by (rule "2.IH" [OF refl _ 2 "2.prems"(2)]) (simp add: dn)
  qed
qed simp

section \<open>Strings of the standard library\<close>

definition is_utf8 :: "string \<Rightarrow> bool" where
  "is_utf8 bs \<longleftrightarrow> list_all (\<lambda>(c, _). c \<noteq> None) (utf8_chunks bs)"

definition to_str :: "string \<Rightarrow> string option" where
  "to_str bs = (if is_utf8 bs then Some bs else None)"

definition replacement :: string where
  "replacement = [CHR 0xEF, CHR 0xBF, CHR 0xBD]"

definition to_string_lossy :: "string \<Rightarrow> string" where
  "to_string_lossy bs =
     concat (map (\<lambda>(c, w). if c = None then replacement else w) (utf8_chunks bs))"

definition str_chars :: "string \<Rightarrow> nat list" where
  "str_chars s = map (\<lambda>(c, _). case c of None \<Rightarrow> 0xFFFD | Some x \<Rightarrow> x) (utf8_chunks s)"

lemma to_string_lossy_valid: "is_utf8 bs \<Longrightarrow> to_string_lossy bs = bs"
proof -
  assume "is_utf8 bs"
  then have "map (\<lambda>(c, w). if c = None then replacement else w) (utf8_chunks bs)
      = map snd (utf8_chunks bs)"
    by (auto simp: is_utf8_def list_all_iff)
  then show ?thesis unfolding to_string_lossy_def by (metis concat_utf8_chunks)
qed

lemma is_utf8_ascii: "list_all is_ascii bs \<Longrightarrow> is_utf8 bs"
  by (simp add: is_utf8_def utf8_chunks_ascii list_all_iff)

text \<open>Lossy conversion neither adds nor drops an ASCII byte.\<close>

lemma ascii_in_lossy: "is_ascii c \<Longrightarrow> c \<in> set (to_string_lossy bs) \<longleftrightarrow> c \<in> set bs"
proof -
  assume c: "is_ascii c"
  then have rep: "c \<notin> set replacement" by (auto simp: replacement_def is_ascii_def)
  have "(c \<in> set (if fst p = None then replacement else snd p)) = (c \<in> set (snd p))"
    if "p \<in> set (utf8_chunks bs)" for p
    using that rep c utf8_chunks_invalid [of "snd p" bs c] by (metis prod.collapse)
  then have "c \<in> set (to_string_lossy bs) \<longleftrightarrow> c \<in> set (concat (map snd (utf8_chunks bs)))"
    by (simp only: to_string_lossy_def case_prod_beta set_concat set_map image_image UN_iff cong: bex_cong)
  then show ?thesis by (simp only: concat_utf8_chunks)
qed

text \<open>A valid text splits at an ASCII byte into two valid texts.\<close>

lemma utf8_first_cont:
  assumes "utf8_first bs = (Some d, n)" and "0 < i" and "i < n"
  shows "128 \<le> byte_at bs i"
proof -
  have snds: "second_of_three b m \<Longrightarrow> 128 \<le> m" "second_of_four b m \<Longrightarrow> 128 \<le> m" for b m
    by (auto simp: second_of_three_def second_of_four_def)
  have "n \<le> 4" using assms(1) by (auto simp: utf8_first_def Let_def split: if_splits)
  with assms(2,3) consider "i = 1" | "i = 2" | "i = 3" by linarith
  then show ?thesis
    using assms(1,3) snds
    by cases (auto simp: utf8_first_def Let_def cont_at_def split: if_splits)
qed

lemma utf8_first_prefix:
  assumes "utf8_first bs = (Some d, n)" and "\<And>i. i < n \<Longrightarrow> byte_at bs' i = byte_at bs i"
  shows "utf8_first bs' = (Some d, n)"
proof -
  have "0 < n" using assms(1) utf8_first_pos [of bs] by simp
  then have b: "byte_at bs' 0 = byte_at bs 0" by (rule assms(2))
  from assms(1) consider "n = 1" | "n = 2" | "n = 3" | "n = 4"
    by (auto simp: utf8_first_def Let_def split: if_splits)
  then show ?thesis
  proof cases
    case 1
    with assms(1) b show ?thesis by (auto simp: utf8_first_def Let_def split: if_splits)
  next
    case 2
    with assms(2) have "byte_at bs' 1 = byte_at bs 1" by simp
    with 2 assms(1) b show ?thesis
      by (auto simp: utf8_first_def Let_def cont_at_def split: if_splits)
  next
    case 3
    with assms(2) have "byte_at bs' 1 = byte_at bs 1" "byte_at bs' 2 = byte_at bs 2" by simp_all
    with 3 assms(1) b show ?thesis
      by (auto simp: utf8_first_def Let_def cont_at_def split: if_splits)
  next
    case 4
    with assms(2) have "byte_at bs' 1 = byte_at bs 1" "byte_at bs' 2 = byte_at bs 2"
      "byte_at bs' 3 = byte_at bs 3" by simp_all
    with 4 assms(1) b show ?thesis
      by (auto simp: utf8_first_def Let_def cont_at_def split: if_splits)
  qed
qed

lemma is_utf8_Cons:
  "is_utf8 (b # bs) \<longleftrightarrow> fst (utf8_first (b # bs)) \<noteq> None \<and> is_utf8 (drop (snd (utf8_first (b # bs))) (b # bs))"
  unfolding is_utf8_def utf8_chunks_Cons by simp

lemma is_utf8_split:
  assumes "is_ascii c"
  shows "is_utf8 (a @ c # b) \<Longrightarrow> is_utf8 a \<and> is_utf8 b"
proof (induction "length a" arbitrary: a rule: less_induct)
  case less
  show ?case
  proof (cases a)
    case Nil
    with less.prems assms show ?thesis
      by (simp add: is_utf8_def utf8_chunks_ascii_Cons)
  next
    case (Cons x xs)
    let ?s = "a @ c # b"
    obtain d n where first: "utf8_first ?s = (Some d, n)" and rest: "is_utf8 (drop n ?s)"
      using less.prems is_utf8_Cons [of x "xs @ c # b"] Cons by (cases "utf8_first ?s") auto
    have pos: "0 < n" using first utf8_first_pos [of ?s] by simp
    have n: "n \<le> length a"
    proof (rule ccontr)
      assume "\<not> n \<le> length a"
      then have "128 \<le> byte_at ?s (length a)"
        using Cons by (intro utf8_first_cont [OF first]) auto
      with assms show False by (simp add: byte_at_def is_ascii_def)
    qed
    have "utf8_first a = (Some d, n)"
      by (rule utf8_first_prefix [OF first]) (use n in \<open>auto simp: byte_at_def nth_append\<close>)
    then have "is_utf8 a \<longleftrightarrow> is_utf8 (drop n a)" using is_utf8_Cons [of x xs] Cons by simp
    moreover have "drop n ?s = drop n a @ c # b" using n by simp
    with rest have "is_utf8 (drop n a @ c # b)" by simp
    then have "is_utf8 (drop n a) \<and> is_utf8 b"
      using pos Cons by (intro less.hyps) auto
    ultimately show ?thesis by simp
  qed
qed

lemma is_utf8_split_on: "is_ascii c \<Longrightarrow> is_utf8 s \<Longrightarrow> p \<in> set (split_on c s) \<Longrightarrow> is_utf8 p"
proof (induction "length s" arbitrary: s rule: less_induct)
  case less
  show ?case
  proof (cases "c \<in> set s")
    case True
    then obtain a b where s: "s = a @ c # b" and "c \<notin> set a" by (meson split_list_first)
    with less.prems is_utf8_split [OF less.prems(1), of a b] have "is_utf8 a" "is_utf8 b"
      and "p = a \<or> p \<in> set (split_on c b)"
      by (auto simp: split_on_append_no_sep)
    with less.hyps [of b] less.prems(1) s show ?thesis by auto
  next
    case False
    with less show ?thesis by (simp add: split_on_no_sep)
  qed
qed

lemma str_chars_ascii: "list_all is_ascii s \<Longrightarrow> str_chars s = map byte s"
  by (simp add: str_chars_def utf8_chunks_ascii)

text \<open>Decoding splits at every ASCII byte.\<close>

lemma utf8_first_append:
  assumes "is_ascii c" and "a \<noteq> []"
  shows "utf8_first (a @ c # b) = utf8_first a"
proof -
  let ?s = "a @ c # b"
  have in_a: "byte_at ?s i = byte_at a i" if "i < length a" for i
    using that by (simp add: byte_at_def nth_append)
  have at_end: "byte_at ?s (length a) < 128" using assms(1) by (simp add: byte_at_def is_ascii_def)
  have out: "byte_at a i = 0" if "length a \<le> i" for i using that by (simp add: byte_at_def)
  have snds: "n < 128 \<Longrightarrow> \<not> second_of_three x n" "n < 128 \<Longrightarrow> \<not> second_of_four x n" for x n
    by (auto simp: second_of_three_def second_of_four_def)
  have "0 < length a" using assms(2) by simp
  then consider "length a = 1" | "length a = 2" | "length a = 3" | "4 \<le> length a" by linarith
  then show "utf8_first ?s = utf8_first a"
  proof cases
    case 1
    with in_a [of 0] have b: "byte_at ?s 0 = byte_at a 0" by simp
    have c: "cont_at ?s 1 = cont_at a 1" using 1 at_end out [of 1] by (simp add: cont_at_def)
    have "\<not> second_of_three x (byte_at ?s 1)" "\<not> second_of_four x (byte_at ?s 1)"
      "\<not> second_of_three x (byte_at a 1)" "\<not> second_of_four x (byte_at a 1)" for x
      using 1 at_end out [of 1] snds by simp_all
    moreover have "\<not> cont_at ?s 1" using 1 at_end by (simp add: cont_at_def)
    ultimately show ?thesis using b c unfolding utf8_first_def Let_def by simp
  next
    case 2
    with in_a have b: "byte_at ?s 0 = byte_at a 0" "byte_at ?s 1 = byte_at a 1" "cont_at ?s 1 = cont_at a 1"
      by (simp_all add: cont_at_def)
    have "\<not> cont_at ?s 2" "\<not> cont_at a 2" using 2 at_end out [of 2] by (simp_all add: cont_at_def)
    with b show ?thesis unfolding utf8_first_def Let_def by simp
  next
    case 3
    with in_a have b: "byte_at ?s 0 = byte_at a 0" "byte_at ?s 1 = byte_at a 1" "byte_at ?s 2 = byte_at a 2"
      "cont_at ?s 1 = cont_at a 1" "cont_at ?s 2 = cont_at a 2"
      by (simp_all add: cont_at_def)
    have "\<not> cont_at ?s 3" "\<not> cont_at a 3" using 3 at_end out [of 3] by (simp_all add: cont_at_def)
    with b show ?thesis unfolding utf8_first_def Let_def by simp
  next
    case 4
    with in_a assms(2) have b: "byte_at ?s 0 = byte_at a 0" "byte_at ?s 1 = byte_at a 1" "byte_at ?s 2 = byte_at a 2"
      "byte_at ?s 3 = byte_at a 3" "cont_at ?s 1 = cont_at a 1" "cont_at ?s 2 = cont_at a 2" "cont_at ?s 3 = cont_at a 3"
      by (simp_all add: cont_at_def)
    then show ?thesis unfolding utf8_first_def Let_def by simp
  qed
qed

lemma if_le: "(c \<Longrightarrow> x \<le> n) \<Longrightarrow> (\<not> c \<Longrightarrow> y \<le> n) \<Longrightarrow> (if c then x else y) \<le> (n :: nat)"
  by simp

lemma utf8_first_length: "a \<noteq> [] \<Longrightarrow> snd (utf8_first a) \<le> length a"
proof -
  assume "a \<noteq> []"
  then have pos: "1 \<le> length a" by (simp add: Suc_leI)
  have cont: "\<not> cont_at a 1 \<or> 2 \<le> length a"  "\<not> cont_at a 2 \<or> 3 \<le> length a"  "\<not> cont_at a 3 \<or> 4 \<le> length a" 
    by (auto simp: cont_at_def byte_at_def split: if_splits)
  have snds: "\<not> second_of_three b (byte_at a 1) \<or> 2 \<le> length a" "\<not> second_of_four b (byte_at a 1) \<or> 2 \<le> length a" for b
    by (auto simp: second_of_three_def second_of_four_def byte_at_def split: if_splits)
  show ?thesis
    unfolding utf8_first_def Let_def if_distrib [of snd] snd_conv
    using pos cont snds [of "byte_at a 0"] by (intro if_le) argo+
qed

lemma utf8_chunks_step:
  "s \<noteq> [] \<Longrightarrow>
     utf8_chunks s = (fst (utf8_first s), take (snd (utf8_first s)) s) # utf8_chunks (drop (snd (utf8_first s)) s)"
  by (cases s) (simp_all add: utf8_chunks_Cons)

lemma utf8_chunks_append:
  assumes "is_ascii c"
  shows "utf8_chunks (a @ c # b) = utf8_chunks a @ utf8_chunks (c # b)"
proof (induction "length a" arbitrary: a rule: less_induct)
  case less
  show ?case
  proof (cases "a = []")
    case False
    let ?n = "snd (utf8_first a)"
    have first: "utf8_first (a @ c # b) = utf8_first a" "?n \<le> length a"
      using utf8_first_append [OF assms False] utf8_first_length [OF False] by auto
    have "utf8_chunks (drop ?n a @ c # b) = utf8_chunks (drop ?n a) @ utf8_chunks (c # b)"
      using False utf8_first_pos [of a] by (intro less) (simp del: utf8_first_pos)
    with first utf8_chunks_step [OF False] utf8_chunks_step [of "a @ c # b"] show ?thesis by simp
  qed simp
qed

lemma str_chars_append:
  "is_ascii c \<Longrightarrow> str_chars (a @ c # b) = str_chars a @ byte c # str_chars b"
  by (simp add: str_chars_def utf8_chunks_append utf8_chunks_ascii_Cons)

lemma ascii_in_str_chars: "is_ascii c \<Longrightarrow> c \<in> set s \<Longrightarrow> byte c \<in> set (str_chars s)"
  by (metis in_set_conv_decomp str_chars_append)

lemma list_all_str_chars_split:
  assumes "is_ascii c" and "P (byte c)" and "\<forall>p \<in> set (split_on c s). list_all P (str_chars p)"
  shows "list_all P (str_chars s)"
  using assms(3)
proof (induction "length s" arbitrary: s rule: less_induct)
  case less
  show ?case
  proof (cases "c \<in> set s")
    case True
    then obtain a b where s: "s = a @ c # b" and "c \<notin> set a" by (meson split_list_first)
    with less assms show ?thesis by (simp add: split_on_append_no_sep str_chars_append)
  next
    case False
    with less show ?thesis by (simp add: split_on_no_sep)
  qed
qed

text \<open>\<open>char::is_whitespace\<close> (the White\_Space property) and \<open>char::is_control\<close>.\<close>

definition char_is_whitespace :: "nat \<Rightarrow> bool" where
  "char_is_whitespace c \<longleftrightarrow>
     (9 \<le> c \<and> c \<le> 13) \<or> c = 0x20 \<or> c = 0x85 \<or> c = 0xA0 \<or> c = 0x1680 \<or>
     (0x2000 \<le> c \<and> c \<le> 0x200A) \<or> c = 0x2028 \<or> c = 0x2029 \<or> c = 0x202F \<or> c = 0x205F \<or> c = 0x3000"

definition char_is_control :: "nat \<Rightarrow> bool" where
  "char_is_control c \<longleftrightarrow> c < 32 \<or> (0x7F \<le> c \<and> c \<le> 0x9F)"

definition chunk_is_whitespace :: "nat option \<times> string \<Rightarrow> bool" where
  "chunk_is_whitespace p = (case fst p of None \<Rightarrow> False | Some c \<Rightarrow> char_is_whitespace c)"

definition str_trim :: "string \<Rightarrow> string" where
  "str_trim s =
     concat (map snd (rev (dropWhile chunk_is_whitespace
       (rev (dropWhile chunk_is_whitespace (utf8_chunks s))))))"

lemma set_str_trim: "set (str_trim s) \<subseteq> set s"
proof -
  have drop: "set (dropWhile P xs) \<subseteq> set xs" for P and xs :: "'b list"
    by (auto dest: set_dropWhileD)
  have sub: "set (rev (dropWhile P (rev (dropWhile P xs)))) \<subseteq> set xs" for P and xs :: "'b list"
    using drop [of P "rev (dropWhile P xs)"] drop [of P xs] by auto
  have "set (str_trim s) \<subseteq> set (concat (map snd (utf8_chunks s)))"
    unfolding str_trim_def set_concat set_map
    by (rule Union_mono) (intro image_mono sub)
  then show ?thesis unfolding concat_utf8_chunks .
qed

lemma str_trim_id:
  assumes "list_all (\<lambda>p. \<not> chunk_is_whitespace p) (utf8_chunks s)"
  shows "str_trim s = s"
proof -
  have id: "dropWhile P xs = xs" if "list_all (\<lambda>p. \<not> P p) xs" for P and xs :: "'b list"
    using that by (cases xs) auto
  have "list_all (\<lambda>p. \<not> chunk_is_whitespace p) (rev (utf8_chunks s))"
    using assms by (simp add: list_all_iff)
  with assms show ?thesis
    unfolding str_trim_def by (simp add: id concat_utf8_chunks)
qed

lemma str_trim_no_whitespace: "list_all (\<lambda>c. \<not> char_is_whitespace c) (str_chars s) \<Longrightarrow> str_trim s = s"
  by (rule str_trim_id) (auto simp: str_chars_def chunk_is_whitespace_def list_all_iff split: option.splits)

section \<open>Unicode letter tables\<close>

record unicode_data =
  uc_lower :: "nat \<Rightarrow> nat list"
  uc_alphanumeric :: "nat \<Rightarrow> bool"
  uc_str_lower :: "string \<Rightarrow> string"

definition char_to_lowercase :: "unicode_data \<Rightarrow> nat \<Rightarrow> nat list" where
  "char_to_lowercase U c =
     (if c < 128 then [if 65 \<le> c \<and> c \<le> 90 then c + 32 else c] else uc_lower U c)"

definition char_is_alphanumeric :: "unicode_data \<Rightarrow> nat \<Rightarrow> bool" where
  "char_is_alphanumeric U c =
     (if c < 128 then (48 \<le> c \<and> c \<le> 57) \<or> (65 \<le> c \<and> c \<le> 90) \<or> (97 \<le> c \<and> c \<le> 122)
      else uc_alphanumeric U c)"

definition str_to_lowercase :: "unicode_data \<Rightarrow> string \<Rightarrow> string" where
  "str_to_lowercase U s = (if list_all is_ascii s then ascii_lower s else uc_str_lower U s)"

text \<open>Tables with no letters beyond ASCII, for evaluating examples.\<close>

definition ascii_tables :: unicode_data where
  "ascii_tables =
     \<lparr>uc_lower = (\<lambda>c. [c]), uc_alphanumeric = (\<lambda>_. False), uc_str_lower = (\<lambda>s. s)\<rparr>"

end
