(* ===== verification/Std_Net.thy ===== *)
theory Std_Net
  imports Utf8 "HOL-Library.Word"
begin

unbundle bit_operations_syntax

text \<open>
  \<open>std::net\<close> as far as the sources use it: addresses and socket addresses, the
  classification methods of \<open>Ipv4Addr\<close> and \<open>Ipv6Addr\<close>, and the parser behind
  \<open>str::parse::<IpAddr>\<close> (decimal octets without a leading zero, hexadecimal groups of at
  most four digits, an embedded IPv4 tail, one \<open>::\<close>). An IPv4 address is a 32-bit word in
  network order, an IPv6 address its eight 16-bit segments. The last section relates masks
  on words to intervals of numbers.
\<close>

section \<open>Addresses\<close>

type_synonym u16 = "16 word"

type_synonym ipv4_addr = "32 word"

datatype ipv6_addr = Ipv6 u16 u16 u16 u16 u16 u16 u16 u16

datatype ip_addr = V4 ipv4_addr | V6 ipv6_addr

datatype socket_addr =
    SocketAddrV4 ipv4_addr u16
  | SocketAddrV6 ipv6_addr u16 "32 word" "32 word"

fun socket_ip :: "socket_addr \<Rightarrow> ip_addr" where
  "socket_ip (SocketAddrV4 a _) = V4 a"
| "socket_ip (SocketAddrV6 a _ _ _) = V6 a"

fun socket_port :: "socket_addr \<Rightarrow> u16" where
  "socket_port (SocketAddrV4 _ p) = p"
| "socket_port (SocketAddrV6 _ p _ _) = p"

definition ipv4_of_octets :: "nat \<Rightarrow> nat \<Rightarrow> nat \<Rightarrow> nat \<Rightarrow> ipv4_addr" where
  "ipv4_of_octets a b c d = of_nat (((a * 256 + b) * 256 + c) * 256 + d)"

definition octet :: "nat \<Rightarrow> ipv4_addr \<Rightarrow> nat" where
  "octet i a = (unat a div 2 ^ (24 - 8 * i)) mod 256"

definition ipv4_is_loopback :: "ipv4_addr \<Rightarrow> bool" where
  "ipv4_is_loopback a \<longleftrightarrow> octet 0 a = 127"

definition ipv4_is_private :: "ipv4_addr \<Rightarrow> bool" where
  "ipv4_is_private a \<longleftrightarrow>
     octet 0 a = 10 \<or> (octet 0 a = 172 \<and> 16 \<le> octet 1 a \<and> octet 1 a \<le> 31) \<or>
     (octet 0 a = 192 \<and> octet 1 a = 168)"

definition ipv4_is_link_local :: "ipv4_addr \<Rightarrow> bool" where
  "ipv4_is_link_local a \<longleftrightarrow> octet 0 a = 169 \<and> octet 1 a = 254"

definition ipv4_is_multicast :: "ipv4_addr \<Rightarrow> bool" where
  "ipv4_is_multicast a \<longleftrightarrow> 224 \<le> octet 0 a \<and> octet 0 a \<le> 239"

definition ipv4_is_broadcast :: "ipv4_addr \<Rightarrow> bool" where
  "ipv4_is_broadcast a \<longleftrightarrow> a = 0xFFFFFFFF"

definition ipv4_is_unspecified :: "ipv4_addr \<Rightarrow> bool" where
  "ipv4_is_unspecified a \<longleftrightarrow> a = 0"

definition ipv6_is_loopback :: "ipv6_addr \<Rightarrow> bool" where
  "ipv6_is_loopback a \<longleftrightarrow> a = Ipv6 0 0 0 0 0 0 0 1"

definition ipv6_is_unspecified :: "ipv6_addr \<Rightarrow> bool" where
  "ipv6_is_unspecified a \<longleftrightarrow> a = Ipv6 0 0 0 0 0 0 0 0"

fun segment0 :: "ipv6_addr \<Rightarrow> u16" where
  "segment0 (Ipv6 s0 _ _ _ _ _ _ _) = s0"

definition ipv6_is_multicast :: "ipv6_addr \<Rightarrow> bool" where
  "ipv6_is_multicast a \<longleftrightarrow> drop_bit 8 (segment0 a) = 0xFF"

definition ipv6_is_unique_local :: "ipv6_addr \<Rightarrow> bool" where
  "ipv6_is_unique_local a \<longleftrightarrow> segment0 a AND 0xFE00 = 0xFC00"

definition ipv6_is_unicast_link_local :: "ipv6_addr \<Rightarrow> bool" where
  "ipv6_is_unicast_link_local a \<longleftrightarrow> segment0 a AND 0xFFC0 = 0xFE80"

definition ipv4_of_segments :: "u16 \<Rightarrow> u16 \<Rightarrow> ipv4_addr" where
  "ipv4_of_segments hi lo = of_nat (unat hi * 65536 + unat lo)"

text \<open>\<open>Ipv6Addr::to_ipv4\<close>: IPv4-compatible and IPv4-mapped addresses.\<close>

fun ipv6_to_ipv4 :: "ipv6_addr \<Rightarrow> ipv4_addr option" where
  "ipv6_to_ipv4 (Ipv6 s0 s1 s2 s3 s4 s5 hi lo) =
     (if s0 = 0 \<and> s1 = 0 \<and> s2 = 0 \<and> s3 = 0 \<and> s4 = 0 \<and> (s5 = 0 \<or> s5 = 0xFFFF)
      then Some (ipv4_of_segments hi lo) else None)"

fun ip_is_loopback :: "ip_addr \<Rightarrow> bool" where
  "ip_is_loopback (V4 a) = ipv4_is_loopback a"
| "ip_is_loopback (V6 a) = ipv6_is_loopback a"

section \<open>Parsing\<close>

definition to_digit :: "nat \<Rightarrow> char \<Rightarrow> nat option" where
  "to_digit radix c =
     (let b = byte c;
          d = (if 48 \<le> b \<and> b \<le> 57 then b - 48
               else if 97 \<le> b \<and> b \<le> 122 then b - 87
               else if 65 \<le> b \<and> b \<le> 90 then b - 55
               else radix)
      in if d < radix then Some d else None)"

fun read_digits :: "nat \<Rightarrow> nat \<Rightarrow> nat \<Rightarrow> nat \<Rightarrow> string \<Rightarrow> (nat \<times> nat \<times> string) option" where
  "read_digits radix max_digits result count [] = Some (result, count, [])"
| "read_digits radix max_digits result count (c # cs) =
     (case to_digit radix c of
        None \<Rightarrow> Some (result, count, c # cs)
      | Some d \<Rightarrow> if count + 1 > max_digits then None
                  else read_digits radix max_digits (result * radix + d) (count + 1) cs)"

definition read_number :: "nat \<Rightarrow> nat \<Rightarrow> bool \<Rightarrow> nat \<Rightarrow> string \<Rightarrow> (nat \<times> string) option" where
  "read_number radix max_digits allow_zero_prefix bound s =
     (case read_digits radix max_digits 0 0 s of
        None \<Rightarrow> None
      | Some (n, count, rest) \<Rightarrow>
          if count = 0 then None
          else if \<not> allow_zero_prefix \<and> starts_with ''0'' s \<and> count > 1 then None
          else if n < bound then Some (n, rest) else None)"

definition read_given_char :: "char \<Rightarrow> string \<Rightarrow> string option" where
  "read_given_char c s = (case s of [] \<Rightarrow> None | x # xs \<Rightarrow> if x = c then Some xs else None)"

definition read_separator :: "char \<Rightarrow> nat \<Rightarrow> (string \<Rightarrow> ('a \<times> string) option) \<Rightarrow> string \<Rightarrow> ('a \<times> string) option" where
  "read_separator sep i inner s =
     (if i > 0 then (case read_given_char sep s of None \<Rightarrow> None | Some r \<Rightarrow> inner r) else inner s)"

fun read_octets :: "nat \<Rightarrow> nat \<Rightarrow> string \<Rightarrow> (nat list \<times> string) option" where
  "read_octets 0 i s = Some ([], s)"
| "read_octets (Suc n) i s =
     (case read_separator (CHR ''.'') i (read_number 10 3 False 256) s of
        None \<Rightarrow> None
      | Some (o1, r) \<Rightarrow>
          (case read_octets n (Suc i) r of None \<Rightarrow> None | Some (os, r') \<Rightarrow> Some (o1 # os, r')))"

definition read_ipv4_addr :: "string \<Rightarrow> (ipv4_addr \<times> string) option" where
  "read_ipv4_addr s =
     (case read_octets 4 0 s of
        Some ([a, b, c, d], r) \<Rightarrow> Some (ipv4_of_octets a b c d, r)
      | _ \<Rightarrow> None)"

text \<open>\<open>read_groups\<close>: \<open>left\<close> slots remain, \<open>i\<close> groups have been read.\<close>

fun read_groups :: "nat \<Rightarrow> nat \<Rightarrow> string \<Rightarrow> u16 list \<times> bool \<times> string" where
  "read_groups 0 i s = ([], False, s)"
| "read_groups (Suc left) i s =
     (case (if left > 0 then read_separator (CHR '':'') i read_ipv4_addr s else None) of
        Some (v4, r) \<Rightarrow> ([of_nat (unat v4 div 65536), of_nat (unat v4 mod 65536)], True, r)
      | None \<Rightarrow>
          (case read_separator (CHR '':'') i (read_number 16 4 True 65536) s of
             None \<Rightarrow> ([], False, s)
           | Some (g, r) \<Rightarrow>
               (case read_groups left (Suc i) r of (gs, v4, r') \<Rightarrow> (of_nat g # gs, v4, r'))))"

definition ipv6_of_segments :: "u16 list \<Rightarrow> ipv6_addr" where
  "ipv6_of_segments g = Ipv6 (g ! 0) (g ! 1) (g ! 2) (g ! 3) (g ! 4) (g ! 5) (g ! 6) (g ! 7)"

definition read_ipv6_addr :: "string \<Rightarrow> (ipv6_addr \<times> string) option" where
  "read_ipv6_addr s =
     (case read_groups 8 0 s of (head, head_ipv4, r) \<Rightarrow>
        if length head = 8 then Some (ipv6_of_segments head, r)
        else if head_ipv4 then None
        else (case read_given_char (CHR '':'') r of
            None \<Rightarrow> None
          | Some r1 \<Rightarrow>
              (case read_given_char (CHR '':'') r1 of
                 None \<Rightarrow> None
               | Some r2 \<Rightarrow>
                   (case read_groups (8 - (length head + 1)) 0 r2 of (tail, _, r3) \<Rightarrow>
                      Some (ipv6_of_segments (head @ replicate (8 - length head - length tail) 0 @ tail), r3)))))"

definition parse_ip_addr :: "string \<Rightarrow> ip_addr option" where
  "parse_ip_addr s =
     (case (case read_ipv4_addr s of
              Some (a, r) \<Rightarrow> Some (V4 a, r)
            | None \<Rightarrow> (case read_ipv6_addr s of Some (a, r) \<Rightarrow> Some (V6 a, r) | None \<Rightarrow> None)) of
        Some (ip, []) \<Rightarrow> Some ip
      | _ \<Rightarrow> None)"

text \<open>\<open>str::parse::<u16>\<close> on digits: an empty text or a value above 65535 is an error.\<close>

definition decimal_value :: "string \<Rightarrow> nat" where
  "decimal_value s = foldl (\<lambda>n c. n * 10 + (byte c - 48)) 0 s"

definition parse_u16 :: "string \<Rightarrow> u16 option" where
  "parse_u16 s =
     (let ds = (case s of [] \<Rightarrow> [] | c # cs \<Rightarrow> if c = CHR ''+'' then cs else c # cs)
      in if ds = [] \<or> \<not> list_all is_ascii_digit ds \<or> decimal_value ds > 65535 then None
         else Some (of_nat (decimal_value ds)))"

section \<open>Which bytes an address is written with\<close>

definition ip_char :: "char \<Rightarrow> bool" where
  "ip_char c \<longleftrightarrow> to_digit 16 c \<noteq> None \<or> c = CHR ''.'' \<or> c = CHR '':''"

lemma to_digit_mono: "to_digit 10 c \<noteq> None \<Longrightarrow> to_digit 16 c \<noteq> None"
  by (auto simp: to_digit_def Let_def split: if_splits)

lemma read_digits_suffix:
  "read_digits radix m n k s = Some (n', k', r) \<Longrightarrow>
     \<exists>w. s = w @ r \<and> (\<forall>c \<in> set w. to_digit radix c \<noteq> None)"
proof (induction s arbitrary: n k)
  case (Cons c cs)
  show ?case
  proof (cases "to_digit radix c")
    case (Some d)
    with Cons.prems obtain w where "cs = w @ r" "\<forall>x \<in> set w. to_digit radix x \<noteq> None"
      using Cons.IH [of "n * radix + d" "k + 1"] by (auto split: if_splits)
    with Some show ?thesis by (intro exI [of _ "c # w"]) auto
  qed (use Cons.prems in auto)
qed simp

lemma read_number_suffix:
  "read_number radix m z b s = Some (n, r) \<Longrightarrow> \<exists>w. s = w @ r \<and> (\<forall>c \<in> set w. to_digit radix c \<noteq> None)"
  by (auto simp: read_number_def dest: read_digits_suffix split: option.splits if_splits)

definition consumes :: "(string \<Rightarrow> ('a \<times> string) option) \<Rightarrow> bool" where
  "consumes p \<longleftrightarrow> (\<forall>s x r. p s = Some (x, r) \<longrightarrow> (\<exists>w. s = w @ r \<and> (\<forall>c \<in> set w. ip_char c)))"

lemma consumesD: "consumes p \<Longrightarrow> p s = Some (x, r) \<Longrightarrow> \<exists>w. s = w @ r \<and> (\<forall>c \<in> set w. ip_char c)"
  by (simp add: consumes_def)

lemma consumes_number: "consumes (read_number 10 m z b)" "consumes (read_number 16 m z b)"
  using read_number_suffix to_digit_mono unfolding consumes_def ip_char_def by blast+

lemma read_given_char_Some [simp]: "read_given_char c s = Some r \<longleftrightarrow> s = c # r"
  by (cases s) (auto simp: read_given_char_def)

lemma consumes_separator: "consumes p \<Longrightarrow> ip_char sep \<Longrightarrow> consumes (read_separator sep i p)"
  unfolding consumes_def read_separator_def
  by (auto split: if_splits option.splits) (metis append_Cons set_ConsD)

lemma ip_char_separators [simp]: "ip_char (CHR ''.'')" "ip_char (CHR '':'')"
  by (simp_all add: ip_char_def)

lemma consumes_octets: "consumes (read_octets n i)"
proof (induction n arbitrary: i)
  case 0
  then show ?case by (simp add: consumes_def)
next
  case (Suc n)
  have one: "consumes (read_separator (CHR ''.'') i (read_number 10 3 False 256))"
    by (intro consumes_separator consumes_number ip_char_separators)
  show ?case
    unfolding consumes_def
  proof (intro allI impI)
    fix s x r
    assume "read_octets (Suc n) i s = Some (x, r)"
    then obtain o1 r1 os where
      "read_separator (CHR ''.'') i (read_number 10 3 False 256) s = Some (o1, r1)"
      and "read_octets n (Suc i) r1 = Some (os, r)"
      by (auto split: option.splits)
    with consumesD [OF one] consumesD [OF Suc.IH [of "Suc i"]]
    obtain w w' where "s = w @ r1" "\<forall>c \<in> set w. ip_char c" "r1 = w' @ r" "\<forall>c \<in> set w'. ip_char c"
      by metis
    then show "\<exists>w. s = w @ r \<and> (\<forall>c \<in> set w. ip_char c)"
      by (intro exI [of _ "w @ w'"]) auto
  qed
qed

lemma consumes_ipv4: "consumes read_ipv4_addr"
  using consumes_octets [of 4 0] unfolding consumes_def read_ipv4_addr_def
  by (auto split: option.splits list.splits)

lemma read_groups_suffix:
  "read_groups left i s = (gs, v4, r) \<Longrightarrow> \<exists>w. s = w @ r \<and> (\<forall>c \<in> set w. ip_char c)"
proof (induction left arbitrary: i s gs v4 r)
  case (Suc left)
  have v4sep: "consumes (read_separator (CHR '':'') i read_ipv4_addr)"
    by (intro consumes_separator consumes_ipv4 ip_char_separators)
  have gsep: "consumes (read_separator (CHR '':'') i (read_number 16 4 True 65536))"
    by (intro consumes_separator consumes_number ip_char_separators)
  show ?case
  proof (cases "if left > 0 then read_separator (CHR '':'') i read_ipv4_addr s else None")
    case (Some p)
    with Suc.prems consumesD [OF v4sep, of s] show ?thesis by (auto split: if_splits prod.splits)
  next
    case no_v4: None
    show ?thesis
    proof (cases "read_separator (CHR '':'') i (read_number 16 4 True 65536) s")
      case None
      with no_v4 Suc.prems show ?thesis by simp
    next
      case (Some gr)
      obtain g r1 where gr: "gr = (g, r1)" by (rule prod.exhaust)
      obtain gs' v4' r' where rest: "read_groups left (Suc i) r1 = (gs', v4', r')"
        by (rule prod_cases3)
      with Suc.prems no_v4 Some gr have "r' = r" by simp
      with Suc.IH [OF rest] consumesD [OF gsep, of s g r1] Some gr
      obtain w w' where "s = w @ r1" "\<forall>c \<in> set w. ip_char c" "r1 = w' @ r" "\<forall>c \<in> set w'. ip_char c"
        by auto
      then show ?thesis by (intro exI [of _ "w @ w'"]) auto
    qed
  qed
qed simp

lemma consumes_ipv6: "consumes read_ipv6_addr"
  unfolding consumes_def
proof (intro allI impI)
  fix s x r
  assume read: "read_ipv6_addr s = Some (x, r)"
  obtain h b r1 where h: "read_groups 8 0 s = (h, b, r1)" by (rule prod_cases3)
  from read_groups_suffix [OF h] obtain w where w: "s = w @ r1" "\<forall>c \<in> set w. ip_char c" by blast
  show "\<exists>w. s = w @ r \<and> (\<forall>c \<in> set w. ip_char c)"
  proof (cases "length h = 8")
    case True
    with read h w show ?thesis by (auto simp: read_ipv6_addr_def)
  next
    case False
    with read h obtain r2 t b' where colons: "r1 = CHR '':'' # CHR '':'' # r2"
      and t: "read_groups (8 - (length h + 1)) 0 r2 = (t, b', r)"
      by (auto simp: read_ipv6_addr_def split: if_splits option.splits prod.splits)
    from read_groups_suffix [OF t] obtain w' where "r2 = w' @ r" "\<forall>c \<in> set w'. ip_char c" by blast
    with w colons show ?thesis by (intro exI [of _ "w @ CHR '':'' # CHR '':'' # w'"]) auto
  qed
qed

lemma parse_ip_addr_chars: "parse_ip_addr s = Some ip \<Longrightarrow> \<forall>c \<in> set s. ip_char c"
  using consumesD [OF consumes_ipv4, of s] consumesD [OF consumes_ipv6, of s]
  by (fastforce simp: parse_ip_addr_def split: option.splits prod.splits list.splits)

text \<open>No address is written with exactly one colon.\<close>

definition colon_count :: "string \<Rightarrow> nat" where
  "colon_count s = length (filter (\<lambda>b. b = CHR '':'') s)"

lemma colon_count_simps [simp]:
  "colon_count [] = 0" "colon_count (c # s) = (if c = CHR '':'' then Suc (colon_count s) else colon_count s)" "colon_count (a @ b) = colon_count a + colon_count b"
  by (simp_all add: colon_count_def)

lemma colon_count_0: "colon_count s = 0 \<longleftrightarrow> CHR '':'' \<notin> set s"
  by (induction s) auto

lemma number_without_colon: 
  "read_number radix m z b s = Some (n, r) \<Longrightarrow> radix \<le> 16 \<Longrightarrow> \<exists>w. s = w @ r \<and> colon_count w = 0"
proof -
  assume "read_number radix m z b s = Some (n, r)" and "radix \<le> 16"
  then obtain w where w: "s = w @ r" "\<forall>c \<in> set w. to_digit radix c \<noteq> None"
    using read_number_suffix by blast
  have "to_digit radix CHR '':'' = None" by (simp add: to_digit_def Let_def)
  with w show ?thesis by (metis colon_count_0)
qed

lemma octets_without_colon: "read_octets n i s = Some (os, r) \<Longrightarrow> \<exists>w. s = w @ r \<and> colon_count w = 0"
proof (induction n arbitrary: i s os)
  case (Suc n)
  then obtain o1 r1 os' where one: "read_separator (CHR ''.'') i (read_number 10 3 False 256) s = Some (o1, r1)"
    and rest: "read_octets n (Suc i) r1 = Some (os', r)"
    by (auto split: option.splits)
  from one have "\<exists>w. s = w @ r1 \<and> colon_count w = 0"
    by (auto simp: read_separator_def split: if_splits option.splits dest!: number_without_colon)
  with Suc.IH [OF rest] show ?case by (metis append.assoc add_0 colon_count_simps(3))
qed simp

lemma ipv4_without_colon: "read_ipv4_addr s = Some (a, r) \<Longrightarrow> \<exists>w. s = w @ r \<and> colon_count w = 0"
  by (auto simp: read_ipv4_addr_def split: option.splits list.splits dest!: octets_without_colon)

lemma separator_colon:
  assumes "read_separator (CHR '':'') i p s = Some (x, r)"
    and "\<And>s x r. p s = Some (x, r) \<Longrightarrow> \<exists>w. s = w @ r \<and> colon_count w = 0"
  shows "\<exists>w. s = w @ r \<and> colon_count w = (if i = 0 then 0 else 1)"
proof (cases "i = 0")
  case False
  with assms(1) obtain s' where "s = CHR '':'' # s'" "p s' = Some (x, r)"
    by (auto simp: read_separator_def split: option.splits)
  with assms(2) [of s'] obtain w where "s = (CHR '':'' # w) @ r" "colon_count w = 0" by auto
  with False show ?thesis by (intro exI [of _ "CHR '':'' # w"]) simp
qed (use assms in \<open>auto simp: read_separator_def\<close>)

lemma groups_colon_count:
  "read_groups left i s = (gs, v4, r) \<Longrightarrow>
     \<exists>w. s = w @ r \<and> length gs \<le> colon_count w + (if i = 0 then 2 else 1)"
proof (induction left arbitrary: i s gs v4 r)
  case (Suc left)
  show ?case
  proof (cases "if left > 0 then read_separator (CHR '':'') i read_ipv4_addr s else None")
    case (Some p)
    with Suc.prems have "left > 0" "length gs = 2" "read_separator (CHR '':'') i read_ipv4_addr s = Some (fst p, r)"
      by (auto split: if_splits prod.splits)
    with separator_colon [of i read_ipv4_addr s "fst p" r] ipv4_without_colon show ?thesis by fastforce
  next
    case no_v4: None
    show ?thesis
    proof (cases "read_separator (CHR '':'') i (read_number 16 4 True 65536) s")
      case None
      with no_v4 Suc.prems show ?thesis by simp
    next
      case (Some gr)
      obtain g r1 where gr: "gr = (g, r1)" by (rule prod.exhaust)
      obtain gs' v4' r' where rest: "read_groups left (Suc i) r1 = (gs', v4', r')" by (rule prod_cases3)
      with Suc.prems no_v4 Some gr have r: "r' = r" "length gs = Suc (length gs')" by auto
      have "\<exists>w. s = w @ r1 \<and> colon_count w = (if i = 0 then 0 else 1)"
        using separator_colon [of i "read_number 16 4 True 65536" s g r1] Some gr number_without_colon by simp
      then obtain w where w: "s = w @ r1" "colon_count w = (if i = 0 then 0 else 1)" by blast
      from Suc.IH [OF rest] obtain w' where "r1 = w' @ r" "length gs' \<le> colon_count w' + 1"
        unfolding r by auto
      with w r show ?thesis by (intro exI [of _ "w @ w'"]) (auto split: if_splits)
    qed
  qed
qed simp

lemma ipv6_two_colons: "read_ipv6_addr s = Some (a, []) \<Longrightarrow> 2 \<le> colon_count s"
proof -
  assume read: "read_ipv6_addr s = Some (a, [])"
  obtain h b r1 where h: "read_groups 8 0 s = (h, b, r1)" by (rule prod_cases3)
  from groups_colon_count [OF h] obtain w where w: "s = w @ r1" "length h \<le> colon_count w + 2" by auto
  show ?thesis
  proof (cases "length h = 8")
    case False
    with read h obtain r2 where "r1 = CHR '':'' # CHR '':'' # r2"
      by (auto simp: read_ipv6_addr_def split: if_splits option.splits prod.splits)
    with w show ?thesis by simp
  qed (use w in simp)
qed

lemma parse_ip_addr_colons: "parse_ip_addr s = Some ip \<Longrightarrow> colon_count s \<noteq> 1"
proof -
  assume "parse_ip_addr s = Some ip"
  then consider a where "read_ipv4_addr s = Some (a, [])" | a where "read_ipv6_addr s = Some (a, [])"
    by (auto simp: parse_ip_addr_def split: option.splits prod.splits list.splits)
  then show ?thesis by cases (auto dest: ipv4_without_colon ipv6_two_colons)
qed
section \<open>Masks and intervals\<close>

text \<open>Comparing the high bits of a word is comparing a quotient.\<close>

lemma mask_high_bits:
  fixes a :: "'a :: len word"
  assumes "n \<le> LENGTH('a)"
  shows "a AND push_bit n (mask (LENGTH('a) - n)) = push_bit n (drop_bit n a)"
  by (rule bit_word_eqI) (use assms in \<open>auto simp: bit_simps\<close>)

lemma masked_eq_iff_div:
  fixes a k :: "'a :: len word"
  assumes "n \<le> LENGTH('a)" and "unat k < 2 ^ (LENGTH('a) - n)"
  shows "a AND push_bit n (mask (LENGTH('a) - n)) = push_bit n k \<longleftrightarrow> unat a div 2 ^ n = unat k"
proof -
  have div: "unat (drop_bit n a) = unat a div 2 ^ n"
    by (subst unat_drop_bit_eq) (rule drop_bit_eq_div)
  have "drop_bit n (push_bit n x) = x" if "unat x < 2 ^ (LENGTH('a) - n)" for x :: "'a word"
  proof (rule bit_word_eqI)
    fix i
    assume i: "i < LENGTH('a)"
    have "\<not> bit x i" if le: "LENGTH('a) - n \<le> i"
    proof -
      have "unat x < 2 ^ i"
        using \<open>unat x < _\<close> le by (meson less_le_trans one_le_numeral power_increasing)
      then have "\<not> bit (unat x) i" by (simp add: bit_iff_odd)
      then show ?thesis using i by (simp add: bit_unsigned_iff)
    qed
    then show "bit (drop_bit n (push_bit n x)) i \<longleftrightarrow> bit x i"
      using i assms(1) by (cases "LENGTH('a) - n \<le> i") (auto simp: bit_simps)
  qed
  moreover have "unat (drop_bit n a) < 2 ^ (LENGTH('a) - n)"
    unfolding div using assms(1) unsigned_less [of a]
    by (simp add: less_mult_imp_div_less flip: power_add)
  ultimately have "push_bit n (drop_bit n a) = push_bit n k \<longleftrightarrow> drop_bit n a = k"
    using assms(2) by metis
  then show ?thesis
    using mask_high_bits [OF assms(1), of a] by (simp add: word_eq_iff_unsigned [where ?'a = nat] div)
qed

end
