(* ===== verification/Access.thy ===== *)
theory Access
  imports Collections Std_Net
begin

text \<open>
  Access modes and decisions (\<open>cageforge-policy/src/access.rs\<close>) and the error type of the
  policy crate (\<open>error.rs\<close>). The locale \<open>narrowing\<close> is the contract of every operation that
  combines two conflicting grants: an associative, commutative and idempotent meet. Its lemmas
  give the order the meet induces and that folding a list of grants depends only on the set of
  grants. \<open>most_restrictive\<close> is the first instance.
\<close>

section \<open>Combining grants\<close>

locale narrowing =
  fixes meet :: "'a \<Rightarrow> 'a \<Rightarrow> 'a"
  assumes meet_assoc: "meet (meet a b) c = meet a (meet b c)"
    and meet_comm: "meet a b = meet b a"
    and meet_idem: "meet a a = a"
begin

definition below :: "'a \<Rightarrow> 'a \<Rightarrow> bool" where
  "below a b \<longleftrightarrow> meet a b = a"

lemma below_refl: "below a a"
  by (simp add: below_def meet_idem)

lemma below_trans: "below a b \<Longrightarrow> below b c \<Longrightarrow> below a c"
  unfolding below_def by (metis meet_assoc)

lemma below_antisym: "below a b \<Longrightarrow> below b a \<Longrightarrow> a = b"
  unfolding below_def by (metis meet_comm)

lemma meet_below: "below (meet a b) a" "below (meet a b) b"
  unfolding below_def by (metis meet_assoc meet_comm meet_idem)+

lemma meet_greatest: "below c a \<Longrightarrow> below c b \<Longrightarrow> below c (meet a b)"
  unfolding below_def by (metis meet_assoc)

lemma foldl_meet_below: "below (foldl meet a xs) a" "x \<in> set xs \<Longrightarrow> below (foldl meet a xs) x"
proof -
  have "below (foldl meet a xs) a \<and> (\<forall>x \<in> set xs. below (foldl meet a xs) x)"
  proof (induction xs arbitrary: a)
    case (Cons y ys)
    from Cons [of "meet a y"] show ?case using below_trans meet_below by auto
  qed (simp add: below_refl)
  then show "below (foldl meet a xs) a" "x \<in> set xs \<Longrightarrow> below (foldl meet a xs) x" by auto
qed

lemma foldl_meet_greatest: "below c a \<Longrightarrow> \<forall>x \<in> set xs. below c x \<Longrightarrow> below c (foldl meet a xs)"
  by (induction xs arbitrary: a) (auto intro: meet_greatest)

lemma foldl_meet_cong: "insert a (set xs) = insert b (set ys) \<Longrightarrow> foldl meet a xs = foldl meet b ys"
proof (rule below_antisym)
  assume eq: "insert a (set xs) = insert b (set ys)"
  have "\<forall>x \<in> insert b (set ys). below (foldl meet a xs) x"
    unfolding eq [symmetric] using foldl_meet_below by auto
  then show "below (foldl meet a xs) (foldl meet b ys)" by (intro foldl_meet_greatest) auto
  have "\<forall>x \<in> insert a (set xs). below (foldl meet b ys) x"
    unfolding eq using foldl_meet_below by auto
  then show "below (foldl meet b ys) (foldl meet a xs)" by (intro foldl_meet_greatest) auto
qed

end

section \<open>Access modes (access.rs)\<close>

datatype access_mode = Read | Write | Deny

datatype filesystem_decision = FsRead | FsWrite | FsDeny | FsExternallyEnforced

fun can_read :: "access_mode \<Rightarrow> bool" where
  "can_read Read = True"
| "can_read Write = True"
| "can_read Deny = False"

fun can_write :: "access_mode \<Rightarrow> bool" where
  "can_write Write = True"
| "can_write _ = False"

fun most_restrictive :: "access_mode \<Rightarrow> access_mode \<Rightarrow> access_mode" where
  "most_restrictive Deny _ = Deny"
| "most_restrictive _ Deny = Deny"
| "most_restrictive Read _ = Read"
| "most_restrictive _ Read = Read"
| "most_restrictive Write Write = Write"

fun permits :: "access_mode \<Rightarrow> access_mode \<Rightarrow> bool" where
  "permits Write Read = True"
| "permits Write Write = True"
| "permits Read Read = True"
| "permits Deny Deny = True"
| "permits _ _ = False"

fun as_access_mode :: "filesystem_decision \<Rightarrow> access_mode option" where
  "as_access_mode FsRead = Some Read"
| "as_access_mode FsWrite = Some Write"
| "as_access_mode FsDeny = Some Deny"
| "as_access_mode FsExternallyEnforced = None"

fun fs_is_externally_enforced :: "filesystem_decision \<Rightarrow> bool" where
  "fs_is_externally_enforced FsExternallyEnforced = True"
| "fs_is_externally_enforced _ = False"

fun decision_of_access :: "access_mode \<Rightarrow> filesystem_decision" where
  "decision_of_access Read = FsRead"
| "decision_of_access Write = FsWrite"
| "decision_of_access Deny = FsDeny"

interpretation restrictive: narrowing most_restrictive
proof
  show "most_restrictive (most_restrictive a b) c = most_restrictive a (most_restrictive b c)" for a b c
    by (cases a; cases b; cases c) simp_all
  show "most_restrictive a b = most_restrictive b a" for a b
    by (cases a; cases b) simp_all
  show "most_restrictive a a = a" for a by (cases a) simp_all
qed

lemma most_restrictive_iff [simp]:
  "most_restrictive a b = Deny \<longleftrightarrow> a = Deny \<or> b = Deny"
  "most_restrictive a b = Write \<longleftrightarrow> a = Write \<and> b = Write"
  by (cases a; cases b; simp)+

lemma can_most_restrictive:
  "can_read (most_restrictive a b) \<longleftrightarrow> can_read a \<and> can_read b"
  "can_write (most_restrictive a b) \<longleftrightarrow> can_write a \<and> can_write b"
  by (cases a; cases b; simp)+

lemma decision_of_access_inj [simp]: "decision_of_access a = decision_of_access b \<longleftrightarrow> a = b"
  by (cases a; cases b) auto

lemma decision_of_access_simps [simp]:
  "decision_of_access a = FsDeny \<longleftrightarrow> a = Deny"
  "decision_of_access a = FsWrite \<longleftrightarrow> a = Write"
  "decision_of_access a = FsRead \<longleftrightarrow> a = Read"
  "decision_of_access a \<noteq> FsExternallyEnforced"
  by (cases a; simp)+

section \<open>Errors (error.rs)\<close>

datatype policy_error =
    EmptyPath
  | ExpectedAbsolute string
  | ExpectedRelative string
  | PathContainsNul string
  | ParentTraversalError string
  | InvalidDomainPattern string
  | ResolvedAddressMismatch string socket_addr
  | InvalidGlobPattern string string
  | UnsupportedGlobAccess access_mode
  | InvalidProtectedPath string string
  | InvalidContext string
  | InvalidRule string
  | InvalidLocalIpcEndpoint string string

end
