(* ===== verification/Std_Path.thy ===== *)
theory Std_Path
  imports Utf8
begin

text \<open>
  \<open>std::path\<close> on a POSIX target, as far as the sources use it. A path is its bytes;
  \<open>components\<close> is the component iterator (a leading slash gives \<open>RootDir\<close>, a leading
  \<open>.\<close> gives \<open>CurDir\<close>, other empty and \<open>.\<close> parts are skipped), \<open>path_push\<close>
  is \<open>PathBuf::push\<close> and \<open>collect_path\<close> is \<open>collect::<PathBuf>\<close>. The main lemma,
  \<open>lexc_collect\<close>, is that collecting a component list and iterating over the result
  gives the list back. \<open>lexc\<close> abbreviates the recurring iterator
  \<open>path.components().filter(|c| *c != Component::CurDir)\<close>.
\<close>

datatype component = Prefix string | RootDir | CurDir | ParentDir | Normal string

abbreviation slash :: char where
  "slash \<equiv> CHR ''/''"

definition is_absolute :: "string \<Rightarrow> bool" where
  "is_absolute p \<longleftrightarrow> starts_with ''/'' p"

definition part_component :: "string \<Rightarrow> component option" where
  "part_component s =
     (if s = [] \<or> s = ''.'' then None else if s = ''..'' then Some ParentDir else Some (Normal s))"

definition parts :: "string \<Rightarrow> component list" where
  "parts p = List.map_filter part_component (split_on slash p)"

definition components :: "string \<Rightarrow> component list" where
  "components p =
     (if is_absolute p then [RootDir] else if hd (split_on slash p) = ''.'' then [CurDir] else [])
       @ parts p"

definition lexc :: "string \<Rightarrow> component list" where
  "lexc p = filter (\<lambda>c. c \<noteq> CurDir) (components p)"

definition path_push :: "string \<Rightarrow> string \<Rightarrow> string" where
  "path_push buf p =
     (if is_absolute p then p
      else if buf \<noteq> [] \<and> last buf \<noteq> slash then buf @ slash # p
      else buf @ p)"

abbreviation path_join :: "string \<Rightarrow> string \<Rightarrow> string" where
  "path_join \<equiv> path_push"

fun component_str :: "component \<Rightarrow> string" where
  "component_str (Prefix s) = s"
| "component_str RootDir = ''/''"
| "component_str CurDir = ''.''"
| "component_str ParentDir = ''..''"
| "component_str (Normal s) = s"

definition collect_path :: "component list \<Rightarrow> string" where
  "collect_path cs = foldl path_push [] (map component_str cs)"

text \<open>\<open>Path\<close> equality compares components, not bytes.\<close>

definition path_eq :: "string \<Rightarrow> string \<Rightarrow> bool" where
  "path_eq a b \<longleftrightarrow> components a = components b"

section \<open>The component iterator\<close>

lemma is_absolute_simps [simp]:
  "\<not> is_absolute []"
  "is_absolute (c # s) \<longleftrightarrow> c = slash"
  by (simp_all add: is_absolute_def starts_with_def)

lemma is_absolute_iff: "is_absolute p \<longleftrightarrow> (\<exists>s. p = slash # s)"
  by (cases p) auto

lemma is_absolute_append: "is_absolute (a @ b) \<longleftrightarrow> is_absolute a \<or> (a = [] \<and> is_absolute b)"
  by (cases a) auto

lemma map_filter_append [simp]: "List.map_filter f (xs @ ys) = List.map_filter f xs @ List.map_filter f ys"
  by (simp add: List.map_filter_def)

lemma map_filter_Cons: "List.map_filter f (x # xs) = (case f x of None \<Rightarrow> [] | Some y \<Rightarrow> [y]) @ List.map_filter f xs"
  by (simp add: List.map_filter_def split: option.splits)

lemma map_filter_Nil [simp]: "List.map_filter f [] = []"
  by (simp add: List.map_filter_def)

lemma part_component_trivial [simp]:
  "part_component [] = None" "part_component ''.'' = None" "part_component ''..'' = Some ParentDir"
  by (simp_all add: part_component_def)

lemma parts_Nil [simp]: "parts [] = []"
  by (simp add: parts_def map_filter_Cons)

lemma parts_slash: "parts (a @ slash # b) = parts a @ parts b"
  by (simp add: parts_def split_on_append)

lemma parts_slash_Cons [simp]: "parts (slash # b) = parts b"
  using parts_slash [of "[]" b] by simp

lemma parts_single: "slash \<notin> set s \<Longrightarrow> parts s = (case part_component s of None \<Rightarrow> [] | Some c \<Rightarrow> [c])"
  by (simp add: parts_def split_on_no_sep map_filter_Cons split: option.splits)

definition wf_part :: "component \<Rightarrow> bool" where
  "wf_part c = (case c of ParentDir \<Rightarrow> True
     | Normal s \<Rightarrow> s \<noteq> [] \<and> s \<noteq> ''.'' \<and> s \<noteq> ''..'' \<and> slash \<notin> set s
     | _ \<Rightarrow> False)"

lemma wf_part_simps [simp]:
  "wf_part ParentDir" "\<not> wf_part RootDir" "\<not> wf_part CurDir" "\<not> wf_part (Prefix s)"
  "wf_part (Normal s) \<longleftrightarrow> s \<noteq> [] \<and> s \<noteq> ''.'' \<and> s \<noteq> ''..'' \<and> slash \<notin> set s"
  by (simp_all add: wf_part_def)

lemma wf_parts: "c \<in> set (parts p) \<Longrightarrow> wf_part c"
  by (auto simp: parts_def List.map_filter_def part_component_def dest: split_on_parts split: if_splits)

lemma parts_of_wf_part: "wf_part c \<Longrightarrow> parts (component_str c) = [c]"
  by (cases c) (auto simp: parts_single part_component_def)

lemma relative_wf_part: "wf_part c \<Longrightarrow> \<not> is_absolute (component_str c)"
  by (cases c) (auto simp: is_absolute_iff)

lemma parts_no_special: "CurDir \<notin> set (parts p)" "RootDir \<notin> set (parts p)" "Prefix s \<notin> set (parts p)"
  using wf_parts [of CurDir p] wf_parts [of RootDir p] wf_parts [of "Prefix s" p] by auto

lemma lexc_eq: "lexc p = (if is_absolute p then [RootDir] else []) @ parts p"
proof -
  have "filter (\<lambda>c. c \<noteq> CurDir) (parts p) = parts p"
    using parts_no_special(1) by (metis (mono_tags, lifting) filter_True)
  then show ?thesis by (simp add: lexc_def components_def)
qed

lemma ParentDir_components: "ParentDir \<in> set (components p) \<longleftrightarrow> ParentDir \<in> set (parts p)"
  by (auto simp: components_def)

lemma lexc_Nil [simp]: "lexc [] = []"
  by (simp add: lexc_eq)

lemma hd_lexc: "lexc p \<noteq> [] \<Longrightarrow> hd (lexc p) = RootDir \<longleftrightarrow> is_absolute p"
  using parts_no_special(2) [of p] by (cases "parts p") (auto simp: lexc_eq)

lemma RootDir_lexc: "RootDir \<in> set (lexc p) \<longleftrightarrow> is_absolute p"
  using parts_no_special(2) by (auto simp: lexc_eq)

lemma lexc_absolute_nonempty: "is_absolute p \<Longrightarrow> lexc p \<noteq> []"
  by (simp add: lexc_eq)

section \<open>Joining and collecting\<close>

lemma lexc_push: "lexc (path_push buf p) = (if is_absolute p then lexc p else lexc buf @ parts p)"
proof (cases "is_absolute p \<or> buf = []")
  case True
  then show ?thesis by (auto simp: path_push_def lexc_eq)
next
  case False
  then have rel: "\<not> is_absolute p" and ne: "buf \<noteq> []" by auto
  show ?thesis
  proof (cases "last buf = slash")
    case True
    with ne obtain b where b: "buf = b @ [slash]" by (metis append_butlast_last_id)
    have "parts buf = parts b" using parts_slash [of b "[]"] by (simp add: b)
    moreover have "parts (buf @ p) = parts b @ parts p" using parts_slash [of b p] by (simp add: b)
    ultimately show ?thesis using rel ne True by (simp add: path_push_def lexc_eq is_absolute_append)
  next
    case False
    with rel ne show ?thesis by (simp add: path_push_def lexc_eq is_absolute_append parts_slash)
  qed
qed

lemma lexc_foldl_push:
  "list_all wf_part cs \<Longrightarrow> lexc (foldl path_push buf (map component_str cs)) = lexc buf @ cs"
  by (induction cs arbitrary: buf) (auto simp: lexc_push relative_wf_part parts_of_wf_part)

lemma lexc_collect:
  assumes "list_all wf_part cs"
  shows "lexc (collect_path cs) = cs" and "lexc (collect_path (RootDir # cs)) = RootDir # cs"
proof -
  show "lexc (collect_path cs) = cs"
    using lexc_foldl_push [OF assms, of "[]"] by (simp add: collect_path_def lexc_eq)
  have "path_push [] ''/'' = ''/''" by (simp add: path_push_def)
  moreover have "lexc ''/'' = [RootDir]" by (simp add: lexc_eq)
  ultimately show "lexc (collect_path (RootDir # cs)) = RootDir # cs"
    using lexc_foldl_push [OF assms, of "''/''"] by (simp add: collect_path_def)
qed

lemma lexc_collect_lexc [simp]: "lexc (collect_path (lexc p)) = lexc p"
proof -
  have "list_all wf_part (parts p)" by (simp add: list_all_iff wf_parts)
  from lexc_collect [OF this] show ?thesis by (simp add: lexc_eq [of p])
qed

lemma absolute_collect_lexc [simp]: "is_absolute (collect_path (lexc p)) \<longleftrightarrow> is_absolute p"
  using RootDir_lexc [of "collect_path (lexc p)"] RootDir_lexc [of p] by simp

lemma lexc_cong:
  assumes "lexc a = lexc b"
  shows "is_absolute a = is_absolute b" and "parts a = parts b"
proof -
  show abs: "is_absolute a = is_absolute b"
    using assms RootDir_lexc [of a] RootDir_lexc [of b] by simp
  show "parts a = parts b"
    using assms unfolding lexc_eq abs by simp
qed

lemma parts_collect_lexc [simp]: "parts (collect_path (lexc p)) = parts p"
  by (rule lexc_cong(2)) simp

lemma hd_split_push_dot:
  assumes "hd (split_on slash p) = ''.''"
  shows "\<not> is_absolute p"
  using assms by (auto simp: is_absolute_iff)

end
