(* ===== verification/Lexical_Path.thy ===== *)
theory Lexical_Path
  imports Std_Path
begin

text \<open>
  The crate \<open>cageforge-path\<close>: lexical path identity. Both halves of the crate are
  modelled on the POSIX target: the native keys (\<open>NativePathKey\<close>, \<open>paths_equal\<close>,
  \<open>is_within\<close>, \<open>contains_component_path\<close>, \<open>resolve_lexical_path\<close>,
  \<open>normalize_lexical_path\<close>), whose code depends on the compiling host, and the keys
  with an explicit dialect (\<open>PlatformPathKey\<close>), whose Windows half is compiled on
  every host. The lemmas reduce every native operation to one list, the components
  without \<open>CurDir\<close>; the properties are in the second half.
\<close>

section \<open>Native component keys (native.rs)\<close>

datatype native_component_key =
    KPrefix string
  | KRootDir
  | KCurDir
  | KParentDir
  | KNormal string

definition native_os_key :: "string \<Rightarrow> string" where
  "native_os_key os = os"

fun component_key :: "component \<Rightarrow> native_component_key" where
  "component_key (Prefix s) = KPrefix (native_os_key s)"
| "component_key RootDir = KRootDir"
| "component_key CurDir = KCurDir"
| "component_key ParentDir = KParentDir"
| "component_key (Normal s) = KNormal (native_os_key s)"

definition components_equal :: "component \<Rightarrow> component \<Rightarrow> bool" where
  "components_equal l r \<longleftrightarrow> component_key l = component_key r"

text \<open>The derived \<open>Ord\<close>: variants in declaration order, then the payload.\<close>

fun key_rank :: "native_component_key \<Rightarrow> nat" where
  "key_rank (KPrefix _) = 0"
| "key_rank KRootDir = 1"
| "key_rank KCurDir = 2"
| "key_rank KParentDir = 3"
| "key_rank (KNormal _) = 4"

fun key_payload :: "native_component_key \<Rightarrow> string" where
  "key_payload (KPrefix s) = s"
| "key_payload (KNormal s) = s"
| "key_payload _ = []"

lemma key_rank_payload_inj: "key_rank a = key_rank b \<Longrightarrow> key_payload a = key_payload b \<Longrightarrow> a = b"
  by (cases a; cases b) auto

instantiation native_component_key :: linorder
begin

definition less_eq_native_component_key :: "native_component_key \<Rightarrow> native_component_key \<Rightarrow> bool" where
  "less_eq_native_component_key a b \<longleftrightarrow>
     key_rank a < key_rank b \<or> (key_rank a = key_rank b \<and> key_payload a \<le> key_payload b)"

definition less_native_component_key :: "native_component_key \<Rightarrow> native_component_key \<Rightarrow> bool" where
  "less_native_component_key a b \<longleftrightarrow>
     key_rank a < key_rank b \<or> (key_rank a = key_rank b \<and> key_payload a < key_payload b)"

instance
  by standard
    (auto simp: less_eq_native_component_key_def less_native_component_key_def
      intro: key_rank_payload_inj)

end

section \<open>Native paths (lib.rs)\<close>

definition contains_parent_traversal :: "string \<Rightarrow> bool" where
  "contains_parent_traversal p \<longleftrightarrow> list_ex (\<lambda>c. c = ParentDir) (components p)"

definition normalize_lexical_path :: "string \<Rightarrow> string" where
  "normalize_lexical_path p =
     (let normalized = collect_path (filter (\<lambda>c. c \<noteq> CurDir) (components p))
      in if normalized = p then p else normalized)"

definition native_path_key :: "string \<Rightarrow> native_component_key list" where
  "native_path_key p =
     (let q = normalize_lexical_path p
      in map component_key (filter (\<lambda>c. c \<noteq> CurDir) (components q)))"

datatype path_resolution_error = Empty | ContainsNul | ParentTraversal

definition resolve_lexical_path :: "string \<Rightarrow> string \<Rightarrow> (path_resolution_error, string) rust_result" where
  "resolve_lexical_path base declaration =
     (if declaration = [] then Inl Empty
      else if CHR 0x00 \<in> set (to_string_lossy declaration) then Inl ContainsNul
      else if contains_parent_traversal declaration then Inl ParentTraversal
      else let resolved = (if is_absolute declaration then declaration else path_join base declaration)
           in Inr (normalize_lexical_path resolved))"

text \<open>The comparison loop of \<open>paths_equal\<close> over two component iterators.\<close>

fun paths_equal_loop :: "component list \<Rightarrow> component list \<Rightarrow> bool" where
  "paths_equal_loop [] [] = True"
| "paths_equal_loop (l # ls) (r # rs) = (if components_equal l r then paths_equal_loop ls rs else False)"
| "paths_equal_loop _ _ = False"

definition paths_equal :: "string \<Rightarrow> string \<Rightarrow> bool" where
  "paths_equal l r = paths_equal_loop (lexc l) (lexc r)"

fun is_within_loop :: "component list \<Rightarrow> component list \<Rightarrow> bool" where
  "is_within_loop [] _ = True"
| "is_within_loop (r # rs) (p # ps) = (if components_equal p r then is_within_loop rs ps else False)"
| "is_within_loop (r # rs) [] = False"

definition is_within :: "string \<Rightarrow> string \<Rightarrow> bool" where
  "is_within path root =
     (if contains_parent_traversal path \<or> contains_parent_traversal root then False
      else if lexc root = [] then \<not> (lexc path \<noteq> [] \<and> hd (lexc path) = RootDir)
      else is_within_loop (lexc root) (lexc path))"

text \<open>\<open>slice::windows\<close>.\<close>

definition slice_windows :: "nat \<Rightarrow> 'a list \<Rightarrow> 'a list list" where
  "slice_windows n xs = map (\<lambda>i. take n (drop i xs)) [0..<Suc (length xs) - n]"

definition contains_component_path :: "string \<Rightarrow> string \<Rightarrow> bool" where
  "contains_component_path path needle =
     (let pcs = lexc path; ncs = lexc needle
      in if ncs = [] \<or> length ncs > length pcs then False
         else list_ex (\<lambda>window. list_all (\<lambda>(l, r). components_equal l r) (zip window ncs))
                (slice_windows (length ncs) pcs))"

definition strings_equal :: "string \<Rightarrow> string \<Rightarrow> bool" where
  "strings_equal l r \<longleftrightarrow> l = r"

definition case_fold :: "string \<Rightarrow> string" where
  "case_fold s = s"

section \<open>Paths with an explicit dialect (lib.rs)\<close>

datatype path_dialect = Posix | Windows

definition native_dialect :: path_dialect where
  "native_dialect = Posix"

datatype platform_component_key =
    PrefixKey string
  | RootKey
  | ParentKey
  | NormalKey string

record platform_path_key =
  pk_dialect :: path_dialect
  pk_components :: "platform_component_key list"

definition is_drive :: "string \<Rightarrow> bool" where
  "is_drive s \<longleftrightarrow> length s = 2 \<and> s ! 1 = CHR '':'' \<and> is_ascii_alphabetic (s ! 0)"

fun is_absolute_text :: "string \<Rightarrow> path_dialect \<Rightarrow> bool" where
  "is_absolute_text s Posix = starts_with ''/'' s"
| "is_absolute_text s Windows =
     (starts_with [CHR 0x5C, CHR 0x5C] s \<or> starts_with ''//'' s \<or>
      (length s \<ge> 3 \<and> is_ascii_alphabetic (s ! 0) \<and> s ! 1 = CHR '':'' \<and>
       (s ! 2 = slash \<or> s ! 2 = CHR 0x5C)))"

fun is_separator :: "path_dialect \<Rightarrow> char \<Rightarrow> bool" where
  "is_separator Posix c \<longleftrightarrow> c = slash"
| "is_separator Windows c \<longleftrightarrow> c = slash \<or> c = CHR 0x5C"

text \<open>The scanning loop; a separator is ASCII, so reading bytes and reading characters agree.\<close>

fun traversal_loop :: "path_dialect \<Rightarrow> string \<Rightarrow> string \<Rightarrow> bool" where
  "traversal_loop d component [] = False"
| "traversal_loop d component (c # cs) =
     (if is_separator d c then (if component = ''..'' then True else traversal_loop d [] cs)
      else traversal_loop d (component @ [c]) cs)"

definition contains_parent_traversal_text :: "string \<Rightarrow> path_dialect \<Rightarrow> bool" where
  "contains_parent_traversal_text s d = traversal_loop d [] (s @ ''/'')"

definition lexical_posix_components :: "string \<Rightarrow> platform_component_key list" where
  "lexical_posix_components s =
     foldl (\<lambda>comps part.
         if part = [] \<or> part = ''.'' then comps
         else if part = ''..'' then comps @ [ParentKey]
         else comps @ [NormalKey part])
       (if starts_with ''/'' s then [RootKey] else []) (split_on slash s)"

text \<open>\<open>str::get(..n)\<close>: absent when \<open>n\<close> is out of range or inside a character.\<close>

definition str_get_to :: "nat \<Rightarrow> string \<Rightarrow> string option" where
  "str_get_to n s = (if n \<le> length s \<and> \<not> cont_at s n then Some (take n s) else None)"

definition has_prefix_ignore_case :: "string \<Rightarrow> string \<Rightarrow> bool" where
  "has_prefix_ignore_case pre s =
     (case str_get_to (length pre) s of None \<Rightarrow> False | Some p \<Rightarrow> eq_ignore_ascii_case p pre)"

definition strip_device_prefix :: "string \<Rightarrow> string" where
  "strip_device_prefix s =
     (if has_prefix_ignore_case ''//?/unc/'' s \<or> has_prefix_ignore_case ''//./unc/'' s
      then ''//'' @ drop 8 s
      else if has_prefix_ignore_case ''//?/'' s \<or> has_prefix_ignore_case ''//./'' s then drop 4 s
      else s)"

definition is_prefix_key :: "platform_component_key \<Rightarrow> bool" where
  "is_prefix_key k = (case k of PrefixKey _ \<Rightarrow> True | _ \<Rightarrow> False)"

definition windows_component_step ::
  "unicode_data \<Rightarrow> platform_component_key list \<Rightarrow> string \<Rightarrow> platform_component_key list" where
  "windows_component_step U comps part =
     (if part = [] \<or> part = ''.'' then comps
      else if is_drive part \<and> list_ex is_prefix_key comps then comps
      else if part = ''..'' then comps @ [ParentKey]
      else comps @ [NormalKey (str_to_lowercase U part)])"

definition lexical_windows_components :: "unicode_data \<Rightarrow> string \<Rightarrow> platform_component_key list" where
  "lexical_windows_components U s0 =
     (let s = strip_device_prefix (map (\<lambda>c. if c = CHR 0x5C then slash else c) s0);
          first = hd (split_on slash s)
      in if is_drive first
         then foldl (windows_component_step U)
                ([PrefixKey (ascii_lower first)] @ (if length s > 2 \<and> s ! 2 = slash then [RootKey] else []))
                (tl (split_on slash s))
         else foldl (windows_component_step U)
                (if starts_with ''//'' s then [RootKey, PrefixKey ''unc''] else [])
                (split_on slash s))"

fun lexical_components :: "unicode_data \<Rightarrow> string \<Rightarrow> path_dialect \<Rightarrow> platform_component_key list" where
  "lexical_components U s Posix = lexical_posix_components s"
| "lexical_components U s Windows = lexical_windows_components U s"

definition platform_path_key_new :: "unicode_data \<Rightarrow> string \<Rightarrow> path_dialect \<Rightarrow> platform_path_key" where
  "platform_path_key_new U s d = \<lparr>pk_dialect = d, pk_components = lexical_components U s d\<rparr>"

section \<open>The native operations on component lists\<close>

lemma component_key_inj: "component_key a = component_key b \<longleftrightarrow> a = b"
  by (cases a; cases b) (auto simp: native_os_key_def)

lemma components_equal_iff [simp]: "components_equal l r \<longleftrightarrow> l = r"
  by (simp add: components_equal_def component_key_inj)

lemma contains_parent_traversal_iff: "contains_parent_traversal p \<longleftrightarrow> ParentDir \<in> set (parts p)"
  by (auto simp: contains_parent_traversal_def list_ex_iff components_def split: if_splits)

lemma contains_parent_traversal_lexc: "contains_parent_traversal p \<longleftrightarrow> ParentDir \<in> set (lexc p)"
  by (auto simp: contains_parent_traversal_iff lexc_eq)

lemma normalize_collect: "normalize_lexical_path p = collect_path (lexc p)"
  by (simp add: normalize_lexical_path_def lexc_def Let_def)

lemma lexc_normalize [simp]: "lexc (normalize_lexical_path p) = lexc p"
  by (simp add: normalize_collect)

lemma normalize_idem: "normalize_lexical_path (normalize_lexical_path p) = normalize_lexical_path p"
  by (simp add: normalize_collect)

lemma absolute_normalize [simp]: "is_absolute (normalize_lexical_path p) \<longleftrightarrow> is_absolute p"
  by (simp add: normalize_collect)

lemma native_path_key_lexc: "native_path_key p = map component_key (lexc p)"
  unfolding native_path_key_def Let_def by (metis lexc_def lexc_normalize)

lemma native_path_key_eq_iff: "native_path_key a = native_path_key b \<longleftrightarrow> lexc a = lexc b"
  using component_key_inj by (auto simp: native_path_key_lexc intro: map_injective injI)

lemma prefix_map_component_key: "prefix (map component_key a) (map component_key b) \<longleftrightarrow> prefix a b"
proof (induction a arbitrary: b)
  case (Cons x a)
  then show ?case by (cases b) (auto simp: component_key_inj)
qed simp

lemma sublist_map_component_key: "sublist (map component_key n) (map component_key p) \<longleftrightarrow> sublist n p"
proof (induction p)
  case (Cons x p)
  with prefix_map_component_key [of n "x # p"] show ?case by (simp add: sublist_Cons_right)
qed simp

lemma paths_equal_loop_iff: "paths_equal_loop ls rs \<longleftrightarrow> ls = rs"
  by (induction ls rs rule: paths_equal_loop.induct) auto

lemma paths_equal_lexc: "paths_equal a b \<longleftrightarrow> lexc a = lexc b"
  by (simp add: paths_equal_def paths_equal_loop_iff)

lemma is_within_loop_iff: "is_within_loop rs ps \<longleftrightarrow> prefix rs ps"
  by (induction rs ps rule: is_within_loop.induct) auto

lemma is_within_lexc:
  "is_within path root \<longleftrightarrow>
     ParentDir \<notin> set (lexc path) \<and> ParentDir \<notin> set (lexc root) \<and>
     (if lexc root = [] then \<not> is_absolute path else prefix (lexc root) (lexc path))"
  using hd_lexc [of path] lexc_absolute_nonempty [of path]
  by (auto simp: is_within_def contains_parent_traversal_lexc is_within_loop_iff)

lemma is_within_parts:
  "is_within path root \<longleftrightarrow>
     ParentDir \<notin> set (parts path) \<and> is_absolute path = is_absolute root \<and> prefix (parts root) (parts path)"
  using parts_no_special(2) [of path] parts_no_special(2) [of root]
    set_mono_prefix [of "parts root" "parts path"]
  by (cases "parts root"; cases "parts path") (auto simp: is_within_lexc lexc_eq split: if_splits)

lemma is_within_refl: "\<not> contains_parent_traversal p \<Longrightarrow> is_within p p"
  by (simp add: is_within_parts contains_parent_traversal_iff)

lemma is_within_trans: "is_within a b \<Longrightarrow> is_within b c \<Longrightarrow> is_within a c"
  by (auto simp: is_within_parts)

lemma is_within_antisym: "is_within a b \<Longrightarrow> is_within b a \<Longrightarrow> paths_equal a b"
  by (auto simp: is_within_parts paths_equal_lexc lexc_eq dest: prefix_order.antisym)

lemma is_within_cong: "paths_equal a a' \<Longrightarrow> paths_equal b b' \<Longrightarrow> is_within a b = is_within a' b'"
  by (simp add: is_within_parts paths_equal_lexc lexc_cong [of a a'] lexc_cong [of b b'])

lemma contains_nul_lossy: "CHR 0x00 \<in> set (to_string_lossy p) \<longleftrightarrow> CHR 0x00 \<in> set p"
  by (rule ascii_in_lossy) (simp add: is_ascii_def)

lemma windows_any_iff: "n \<noteq> [] \<Longrightarrow> (\<exists>w \<in> set (slice_windows (length n) xs). w = n) \<longleftrightarrow> sublist n xs"
proof
  assume "\<exists>w \<in> set (slice_windows (length n) xs). w = n"
  then obtain i where "take (length n) (drop i xs) = n" by (auto simp: slice_windows_def dest: sym)
  then show "sublist n xs"
    by (metis sublist_drop sublist_order.order.trans sublist_take)
next
  assume "n \<noteq> []" and "sublist n xs"
  then obtain a b where "xs = a @ n @ b" by (auto simp: sublist_def)
  then have "take (length n) (drop (length a) xs) = n" and "length a < Suc (length xs) - length n"
    by simp_all
  then show "\<exists>w \<in> set (slice_windows (length n) xs). w = n"
    by (force simp: slice_windows_def)
qed

lemma zip_all_equal: "length w = length n \<Longrightarrow> list_all (\<lambda>(l, r). components_equal l r) (zip w n) \<longleftrightarrow> w = n"
  by (induction w n rule: list_induct2) auto

lemma contains_component_path_sublist:
  "contains_component_path p n \<longleftrightarrow> lexc n \<noteq> [] \<and> sublist (lexc n) (lexc p)"
proof (cases "lexc n = [] \<or> length (lexc n) > length (lexc p)")
  case True
  then show ?thesis
    by (auto simp: contains_component_path_def Let_def dest: sublist_length_le)
next
  case False
  have "list_all (\<lambda>(l, r). components_equal l r) (zip w (lexc n)) \<longleftrightarrow> w = lexc n"
    if "w \<in> set (slice_windows (length (lexc n)) (lexc p))" for w
    using that False by (intro zip_all_equal) (auto simp: slice_windows_def)
  then have "contains_component_path p n \<longleftrightarrow>
      (\<exists>w \<in> set (slice_windows (length (lexc n)) (lexc p)). w = lexc n)"
    using False unfolding contains_component_path_def Let_def list_ex_iff
    by (simp only: if_False cong: bex_cong)
  with False windows_any_iff [of "lexc n" "lexc p"] show ?thesis by simp
qed

section \<open>The dialect operations on split parts\<close>

fun unify_separator :: "path_dialect \<Rightarrow> char \<Rightarrow> char" where
  "unify_separator Posix c = c"
| "unify_separator Windows c = (if c = CHR 0x5C then slash else c)"

lemma unify_separator_slash: "unify_separator d c = slash \<longleftrightarrow> is_separator d c"
  by (cases d) auto

lemma is_separator_slash [simp]: "is_separator d slash"
  by (cases d) auto

lemma unify_separator_other: "\<not> is_separator d c \<Longrightarrow> unify_separator d c = c"
  by (cases d) auto

lemma traversal_loop_split:
  "traversal_loop d acc (s @ ''/'') \<longleftrightarrow>
     (let ps = split_on slash (map (unify_separator d) s) in acc @ hd ps = ''..'' \<or> ''..'' \<in> set (tl ps))"
proof (induction s arbitrary: acc)
  case Nil
  then show ?case by (cases d) auto
next
  case (Cons c s)
  let ?ps = "split_on slash (map (unify_separator d) s)"
  have "''..'' = hd ?ps \<or> ''..'' \<in> set (tl ?ps) \<longleftrightarrow> ''..'' \<in> set ?ps"
    by (cases ?ps) auto
  with Cons show ?case
    by (cases "is_separator d c")
      (auto simp: unify_separator_slash unify_separator_other Let_def)
qed

lemma contains_parent_traversal_text_split:
  "contains_parent_traversal_text s d \<longleftrightarrow> ''..'' \<in> set (split_on slash (map (unify_separator d) s))"
proof -
  let ?ps = "split_on slash (map (unify_separator d) s)"
  have "''..'' = hd ?ps \<or> ''..'' \<in> set (tl ?ps) \<longleftrightarrow> ''..'' \<in> set ?ps"
    by (cases ?ps) auto
  then show ?thesis by (auto simp: contains_parent_traversal_text_def traversal_loop_split Let_def)
qed

fun component_of_key :: "platform_component_key \<Rightarrow> component" where
  "component_of_key (PrefixKey s) = Prefix s"
| "component_of_key RootKey = RootDir"
| "component_of_key ParentKey = ParentDir"
| "component_of_key (NormalKey s) = Normal s"

lemma component_of_key_inj: "component_of_key a = component_of_key b \<longleftrightarrow> a = b"
  by (cases a; cases b) auto

lemma posix_foldl_parts:
  "map component_of_key (foldl (\<lambda>comps part.
       if part = [] \<or> part = ''.'' then comps
       else if part = ''..'' then comps @ [ParentKey]
       else comps @ [NormalKey part]) acc ps)
   = map component_of_key acc @ List.map_filter part_component ps"
  by (induction ps arbitrary: acc) (auto simp: map_filter_Cons part_component_def)

lemma posix_components_lexc: "map component_of_key (lexical_posix_components s) = lexc s"
  by (simp add: lexical_posix_components_def posix_foldl_parts lexc_eq parts_def is_absolute_def)

lemma posix_components_eq_iff:
  "lexical_posix_components a = lexical_posix_components b \<longleftrightarrow> lexc a = lexc b"
  unfolding posix_components_lexc [symmetric]
  by (simp add: inj_map_eq_map inj_def component_of_key_inj)

lemma windows_step_parent:
  "ParentKey \<in> set (foldl (windows_component_step U) acc ps) \<longleftrightarrow> ParentKey \<in> set acc \<or> ''..'' \<in> set ps"
  by (induction ps arbitrary: acc) (auto simp: windows_component_step_def is_drive_def)

lemma dotdot_parts:
  "''..'' \<in> set (split_on slash (map (unify_separator Posix) s)) \<longleftrightarrow> ParentDir \<in> set (parts s)"
proof -
  have "map (unify_separator Posix) s = s" by (rule map_idI) simp
  moreover have "ParentDir \<in> set (List.map_filter part_component xs) \<longleftrightarrow> ''..'' \<in> set xs" for xs
    by (induction xs) (auto simp: map_filter_Cons part_component_def)
  ultimately show ?thesis by (simp add: parts_def)
qed

text \<open>Case folding changes neither the separators nor which parts are \<open>..\<close>.\<close>

lemma lower_fixed:
  "to_ascii_lowercase c = slash \<longleftrightarrow> c = slash" "to_ascii_lowercase c = CHR ''.'' \<longleftrightarrow> c = CHR ''.''"
  by (rule to_ascii_lowercase_eq_iff; simp add: is_ascii_alphabetic_def)+

lemma split_on_lower: "split_on slash (ascii_lower s) = map ascii_lower (split_on slash s)"
proof (induction s)
  case (Cons c s)
  obtain p ps where "split_on slash s = p # ps" by (metis list.exhaust split_on_nonempty)
  with Cons show ?case by (auto simp: ascii_lower_def lower_fixed)
qed (simp add: ascii_lower_def)

lemma dotdot_lower: "''..'' \<in> set (split_on slash (ascii_lower s)) \<longleftrightarrow> ''..'' \<in> set (split_on slash s)"
proof -
  have "ascii_lower x = ''..'' \<longleftrightarrow> x = ''..''" for x
    by (auto simp: ascii_lower_def map_eq_Cons_conv lower_fixed)
  then have "''..'' = ascii_lower x \<longleftrightarrow> ''..'' = x" for x
    unfolding eq_commute [of "''..''"] .
  then show ?thesis unfolding split_on_lower set_map image_iff by simp
qed

lemma has_prefix_append:
  assumes "has_prefix_ignore_case pre s"
  obtains a b where "s = a @ b" and "length a = length pre" and "ascii_lower a = ascii_lower pre"
proof -
  have "length pre \<le> length s" and "ascii_lower (take (length pre) s) = ascii_lower pre"
    using assms
    by (auto simp: has_prefix_ignore_case_def str_get_to_def eq_ignore_ascii_case_def split: if_splits)
  then show ?thesis using that [of "take (length pre) s" "drop (length pre) s"] by simp
qed

lemma dotdot_drop_prefix:
  assumes "''..'' \<notin> set (split_on slash (ascii_lower pre0))"
    and "has_prefix_ignore_case (pre0 @ ''/'') s"
  shows "''..'' \<in> set (split_on slash (drop (length (pre0 @ ''/'')) s)) \<longleftrightarrow> ''..'' \<in> set (split_on slash s)"
proof -
  from assms(2) obtain a b where ab: "s = a @ b" "length a = length (pre0 @ ''/'')"
      "ascii_lower a = ascii_lower (pre0 @ ''/'')"
    by (rule has_prefix_append)
  have "ascii_lower s = ascii_lower pre0 @ slash # ascii_lower b"
    by (simp add: ab ascii_lower_append) (simp add: ascii_lower_def to_ascii_lowercase_def)
  with assms(1) have "''..'' \<in> set (split_on slash (ascii_lower s))
      \<longleftrightarrow> ''..'' \<in> set (split_on slash (ascii_lower b))"
    by (simp add: split_on_append)
  then show ?thesis by (simp add: dotdot_lower ab)
qed

lemma dotdot_strip_device:
  "''..'' \<in> set (split_on slash (strip_device_prefix s)) \<longleftrightarrow> ''..'' \<in> set (split_on slash s)"
proof -
  have "''..'' \<notin> set (split_on slash (ascii_lower ''//?/unc''))"
    "''..'' \<notin> set (split_on slash (ascii_lower ''//./unc''))"
    "''..'' \<notin> set (split_on slash (ascii_lower ''//?''))"
    "''..'' \<notin> set (split_on slash (ascii_lower ''//.''))"
    by code_simp+
  note drops = this [THEN dotdot_drop_prefix, of s, simplified]
  have "split_on slash (''//'' @ t) = [[], []] @ split_on slash t" for t by simp
  then show ?thesis by (simp add: strip_device_prefix_def drops eval_nat_numeral)
qed

lemma windows_components_parent:
  "ParentKey \<in> set (lexical_windows_components U s) \<longleftrightarrow> contains_parent_traversal_text s Windows"
proof -
  let ?u = "map (\<lambda>c. if c = CHR 0x5C then slash else c) s"
  let ?ps = "split_on slash (strip_device_prefix ?u)"
  have "unify_separator Windows = (\<lambda>c. if c = CHR 0x5C then slash else c)" by (rule ext) simp
  then have text_iff: "contains_parent_traversal_text s Windows \<longleftrightarrow> ''..'' \<in> set ?ps"
    by (simp add: contains_parent_traversal_text_split dotdot_strip_device)
  have drive: "''..'' \<in> set (tl ?ps) \<longleftrightarrow> ''..'' \<in> set ?ps" if "is_drive (hd ?ps)"
    using that by (cases ?ps) (auto simp: is_drive_def)
  show ?thesis
    unfolding text_iff lexical_windows_components_def Let_def
    by (cases "is_drive (hd ?ps)") (simp_all add: windows_step_parent drive)
qed

section \<open>Properties\<close>

text \<open>\<open>paths_equal\<close>, equality of \<open>NativePathKey\<close>s (what maps and sets of paths hash and
  compare) and equality of the normalized spellings are the same relation: the text returned by
  \<open>normalize_lexical_path\<close> is a canonical form of the path.\<close>

theorem paths_equal_canonical:
  "(paths_equal a b \<longleftrightarrow> native_path_key a = native_path_key b) \<and>
   (paths_equal a b \<longleftrightarrow> normalize_lexical_path a = normalize_lexical_path b) \<and>
   paths_equal a (normalize_lexical_path a)"
proof (intro conjI)
  show "paths_equal a b \<longleftrightarrow> normalize_lexical_path a = normalize_lexical_path b"
    by (metis lexc_normalize normalize_collect paths_equal_lexc)
qed (simp_all add: paths_equal_lexc native_path_key_eq_iff)

text \<open>\<open>is_within path root\<close> holds exactly when neither path has a parent traversal and the
  components of \<open>root\<close> are a prefix of those of \<open>path\<close>, absolute below absolute and relative
  below relative only; it is a partial order up to \<open>paths_equal\<close> on traversal-free paths.\<close>

theorem is_within_partial_order:
  "(is_within path root \<longleftrightarrow>
     \<not> contains_parent_traversal path \<and> \<not> contains_parent_traversal root \<and>
     is_absolute path = is_absolute root \<and> prefix (native_path_key root) (native_path_key path)) \<and>
   (\<not> contains_parent_traversal path \<longrightarrow> is_within path path) \<and>
   (is_within path root \<and> is_within root outer \<longrightarrow> is_within path outer) \<and>
   (is_within path root \<and> is_within root path \<longrightarrow> paths_equal path root)"
proof (intro conjI impI)
  show "is_within path root \<longleftrightarrow>
     \<not> contains_parent_traversal path \<and> \<not> contains_parent_traversal root \<and>
     is_absolute path = is_absolute root \<and> prefix (native_path_key root) (native_path_key path)"
    using set_mono_prefix [of "parts root" "parts path"]
    by (auto simp: native_path_key_lexc prefix_map_component_key is_within_parts
        contains_parent_traversal_iff lexc_eq)
qed (auto intro: is_within_refl is_within_trans is_within_antisym)

theorem is_within_partial_order_witness:
  "is_within ''/srv/app/./x'' ''/srv//app'' \<and> is_within ''/srv//app'' ''/srv''
   \<and> is_within ''/srv/app/./x'' ''/srv'' \<and> is_within ''/srv/app/./x'' ''/srv/app/./x''"
proof -
  have steps: "is_within ''/srv/app/./x'' ''/srv//app''" "is_within ''/srv//app'' ''/srv''"
    and "\<not> contains_parent_traversal ''/srv/app/./x''"
    by code_simp+
  with is_within_partial_order [of "''/srv/app/./x''" "''/srv//app''" "''/srv''"] show ?thesis
    by simp
qed

text \<open>C25: \<open>resolve_lexical_path\<close> confines a declaration. Whenever it succeeds, the result is in
  normal form, has no NUL byte of the declaration's making and no parent traversal of its own; an
  absolute declaration keeps its identity, a relative one is appended to the base component by
  component, so it is absolute and inside a traversal-free absolute base.\<close>

theorem resolve_lexical_path_confined:
  assumes "resolve_lexical_path base decl = Inr r"
  shows "normalize_lexical_path r = r \<and> CHR 0x00 \<notin> set decl \<and>
     lexc r = (if is_absolute decl then lexc decl else lexc base @ lexc decl) \<and>
     (contains_parent_traversal r \<longrightarrow> \<not> is_absolute decl \<and> contains_parent_traversal base) \<and>
     (is_absolute base \<longrightarrow> is_absolute r) \<and>
     (\<not> contains_parent_traversal base \<longrightarrow> \<not> is_absolute decl \<longrightarrow> is_within r base)"
proof -
  let ?q = "if is_absolute decl then decl else path_join base decl"
  from assms have r: "r = normalize_lexical_path ?q"
    and nul: "CHR 0x00 \<notin> set decl" and par: "ParentDir \<notin> set (parts decl)"
    by (auto simp: resolve_lexical_path_def contains_nul_lossy contains_parent_traversal_iff Let_def
        split: if_splits)
  have lexc_r: "lexc r = (if is_absolute decl then lexc decl else lexc base @ lexc decl)"
    by (simp add: r lexc_push lexc_eq [of decl])
  have abs_r: "is_absolute r \<longleftrightarrow> is_absolute decl \<or> is_absolute base"
    using RootDir_lexc [of r] unfolding lexc_r by (auto simp: RootDir_lexc split: if_splits)
  have norm: "normalize_lexical_path r = r" by (simp add: r normalize_idem)
  have parts_abs: "parts r = parts decl" if "is_absolute decl"
    using lexc_r that by (intro lexc_cong) simp
  have parts_r: "parts r = parts base @ parts decl" if "\<not> is_absolute decl"
    using lexc_r that abs_r by (auto simp: lexc_eq split: if_splits)
  show ?thesis
    using nul par lexc_r abs_r parts_r parts_abs norm
    by (cases "is_absolute decl") (simp_all add: contains_parent_traversal_iff is_within_parts)
qed

theorem resolve_lexical_path_confined_witness:
  "resolve_lexical_path ''/etc/cf'' ''./rules//a.toml'' = Inr ''/etc/cf/rules/a.toml''
   \<and> is_within ''/etc/cf/rules/a.toml'' ''/etc/cf''"
proof -
  have "resolve_lexical_path ''/etc/cf'' ''./rules//a.toml'' = Inr ''/etc/cf/rules/a.toml''"
    unfolding resolve_lexical_path_def contains_nul_lossy by code_simp
  moreover have "\<not> contains_parent_traversal ''/etc/cf''" and "\<not> is_absolute ''./rules//a.toml''"
    by code_simp+
  ultimately show ?thesis
    using resolve_lexical_path_confined [of "''/etc/cf''" "''./rules//a.toml''" "''/etc/cf/rules/a.toml''"]
    by simp
qed

text \<open>The dialect keys agree with the native ones and with the traversal scan: on every host two
  texts have the same POSIX \<open>PlatformPathKey\<close> exactly when \<open>paths_equal\<close> identifies
  them, and in both dialects \<open>contains_parent_traversal_text\<close> accepts exactly the texts whose
  key has a parent component, also behind the Windows device prefixes.\<close>

theorem dialect_keys_agree:
  "(platform_path_key_new U a Posix = platform_path_key_new U b Posix \<longleftrightarrow> paths_equal a b) \<and>
   (contains_parent_traversal_text a d \<longleftrightarrow> ParentKey \<in> set (pk_components (platform_path_key_new U a d))) \<and>
   (contains_parent_traversal_text a Posix \<longleftrightarrow> contains_parent_traversal a)"
proof (intro conjI)
  show "platform_path_key_new U a Posix = platform_path_key_new U b Posix \<longleftrightarrow> paths_equal a b"
    by (simp add: platform_path_key_new_def posix_components_eq_iff paths_equal_lexc)
  have posix: "contains_parent_traversal_text a Posix \<longleftrightarrow> contains_parent_traversal a"
    by (simp add: contains_parent_traversal_text_split contains_parent_traversal_iff dotdot_parts)
  then show "contains_parent_traversal_text a Posix \<longleftrightarrow> contains_parent_traversal a" .
  have parent: "ParentDir = component_of_key k \<longleftrightarrow> ParentKey = k" for k
    by (cases k) auto
  have "ParentKey \<in> set ks \<longleftrightarrow> ParentDir \<in> set (map component_of_key ks)" for ks
    by (induction ks) (simp_all add: parent)
  from this [of "lexical_posix_components a"]
  have "ParentKey \<in> set (lexical_posix_components a) \<longleftrightarrow> ParentDir \<in> set (lexc a)"
    unfolding posix_components_lexc .
  then show "contains_parent_traversal_text a d
      \<longleftrightarrow> ParentKey \<in> set (pk_components (platform_path_key_new U a d))"
    by (cases d)
      (simp_all add: platform_path_key_new_def windows_components_parent posix
        contains_parent_traversal_lexc)
qed

text \<open>\<open>contains_component_path\<close>, the test behind protected metadata names, finds the needle
  exactly when it is non-empty and its components occur consecutively in the path; in particular
  every path inside \<open>root/needle\<close> contains a relative traversal-free needle.\<close>

theorem contains_component_path_iff_sublist:
  "(contains_component_path path needle \<longleftrightarrow>
     native_path_key needle \<noteq> [] \<and> sublist (native_path_key needle) (native_path_key path)) \<and>
   (is_within path (path_join root needle) \<and> \<not> is_absolute needle \<and> lexc needle \<noteq> []
     \<longrightarrow> contains_component_path path needle)"
proof (intro conjI impI)
  show "contains_component_path path needle \<longleftrightarrow>
     native_path_key needle \<noteq> [] \<and> sublist (native_path_key needle) (native_path_key path)"
    by (simp add: contains_component_path_sublist native_path_key_lexc sublist_map_component_key)
next
  assume a: "is_within path (path_join root needle) \<and> \<not> is_absolute needle \<and> lexc needle \<noteq> []"
  then have "lexc (path_join root needle) = lexc root @ lexc needle"
    by (simp add: lexc_push lexc_eq [of needle])
  with a obtain z where "lexc path = lexc root @ lexc needle @ z"
    by (auto simp: is_within_lexc prefix_def split: if_splits)
  with a show "contains_component_path path needle"
    by (auto simp: contains_component_path_sublist sublist_def)
qed

theorem contains_component_path_iff_sublist_witness:
  "is_within ''/ws/.git/hooks/x'' (path_join ''/ws'' ''.git/hooks'')
   \<and> contains_component_path ''/ws/.git/hooks/x'' ''.git/hooks''"
proof -
  have "is_within ''/ws/.git/hooks/x'' (path_join ''/ws'' ''.git/hooks'')"
    and "\<not> is_absolute ''.git/hooks''" and "lexc ''.git/hooks'' \<noteq> []"
    by code_simp+
  with contains_component_path_iff_sublist [of "''/ws/.git/hooks/x''" "''.git/hooks''" "''/ws''"]
  show ?thesis by blast
qed

end
