(* ===== verification/Selector.thy ===== *)
theory Selector
  imports Access Lexical_Path
begin

text \<open>
  Path selectors (\<open>cageforge-policy/src/path.rs\<close>, first half) and the runtime context that
  resolves them (\<open>context.rs\<close>). A selector is a validated absolute path, a workspace-relative
  path or one of four symbolic scopes. Its hand-written \<open>Eq\<close>, \<open>Hash\<close> and \<open>Ord\<close> are
  modelled as functions, since they identify selectors with different spellings. The context
  keeps each path list beside the \<open>HashSet\<close> of its keys; \<open>wf_context\<close> is the invariant
  every builder method preserves.
\<close>

section \<open>Selectors (path.rs)\<close>

datatype path_selector =
    Absolute string
  | WorkspaceRoot string
  | Root
  | Minimal
  | Tmpdir
  | SlashTmp

definition contains_nul :: "string \<Rightarrow> bool" where
  "contains_nul p \<longleftrightarrow> CHR 0x00 \<in> set (to_string_lossy p)"

definition normal_component_count :: "string \<Rightarrow> nat" where
  "normal_component_count p =
     length (filter (\<lambda>c. case c of Normal _ \<Rightarrow> True | _ \<Rightarrow> False) (components p))"

definition selector_absolute :: "string \<Rightarrow> (policy_error, path_selector) rust_result" where
  "selector_absolute path =
     (if path = [] then Inl EmptyPath
      else if contains_nul path then Inl (PathContainsNul path)
      else if \<not> is_absolute path then Inl (ExpectedAbsolute path)
      else if contains_parent_traversal path then Inl (ParentTraversalError path)
      else Inr (Absolute path))"

definition selector_workspace_root :: path_selector where
  "selector_workspace_root = WorkspaceRoot ''.''"

definition normalize_relative_step ::
  "string \<Rightarrow> string \<Rightarrow> component \<Rightarrow> (policy_error, string) rust_result" where
  "normalize_relative_step relative normalized c =
     (case c of
        CurDir \<Rightarrow> Inr normalized
      | Normal part \<Rightarrow> Inr (path_push normalized part)
      | ParentDir \<Rightarrow> Inl (ParentTraversalError relative)
      | RootDir \<Rightarrow> Inl (ExpectedRelative relative)
      | Prefix _ \<Rightarrow> Inl (ExpectedRelative relative))"

definition normalize_relative_path :: "string \<Rightarrow> (policy_error, string) rust_result" where
  "normalize_relative_path relative =
     (if relative = [] then Inl EmptyPath
      else if contains_nul relative then Inl (PathContainsNul relative)
      else if is_absolute relative then Inl (ExpectedRelative relative)
      else and_then (try_fold (normalize_relative_step relative) [] (components relative))
             (\<lambda>normalized. Inr (if normalized = [] then path_push normalized ''.'' else normalized)))"

definition selector_workspace :: "string \<Rightarrow> (policy_error, path_selector) rust_result" where
  "selector_workspace relative =
     and_then (normalize_relative_path relative) (\<lambda>normalized. Inr (WorkspaceRoot normalized))"

fun selector_path :: "path_selector \<Rightarrow> string option" where
  "selector_path (Absolute p) = Some p"
| "selector_path (WorkspaceRoot p) = Some p"
| "selector_path _ = None"

fun selector_kind_rank :: "path_selector \<Rightarrow> nat" where
  "selector_kind_rank (Absolute _) = 0"
| "selector_kind_rank (WorkspaceRoot _) = 1"
| "selector_kind_rank Root = 2"
| "selector_kind_rank Minimal = 3"
| "selector_kind_rank Tmpdir = 4"
| "selector_kind_rank SlashTmp = 5"

fun selectors_equal :: "path_selector \<Rightarrow> path_selector \<Rightarrow> bool" where
  "selectors_equal (Absolute l) (Absolute r) = paths_equal l r"
| "selectors_equal (WorkspaceRoot l) (WorkspaceRoot r) = paths_equal l r"
| "selectors_equal Root Root = True"
| "selectors_equal Minimal Minimal = True"
| "selectors_equal Tmpdir Tmpdir = True"
| "selectors_equal SlashTmp SlashTmp = True"
| "selectors_equal _ _ = False"

text \<open>What \<open>Hash\<close> feeds to the hasher, and the comparison of \<open>Ord\<close>.\<close>

definition selector_hash :: "path_selector \<Rightarrow> nat \<times> native_component_key list option" where
  "selector_hash s = (selector_kind_rank s, map_option native_path_key (selector_path s))"

datatype ordering = Less | Equal | Greater

definition cmp_of :: "'a :: linorder \<Rightarrow> 'a \<Rightarrow> ordering" where
  "cmp_of a b = (if a < b then Less else if a = b then Equal else Greater)"

definition selector_cmp :: "path_selector \<Rightarrow> path_selector \<Rightarrow> ordering" where
  "selector_cmp a b =
     (let kind_order = cmp_of (selector_kind_rank a) (selector_kind_rank b)
      in if kind_order \<noteq> Equal then kind_order
         else (case (selector_path a, selector_path b) of
                 (Some l, Some r) \<Rightarrow> cmp_of (native_path_key l) (native_path_key r)
               | (None, None) \<Rightarrow> Equal
               | _ \<Rightarrow> Equal))"

fun is_special :: "path_selector \<Rightarrow> bool" where
  "is_special (Absolute _) = False"
| "is_special (WorkspaceRoot _) = False"
| "is_special _ = True"

definition is_workspace_scope :: "path_selector \<Rightarrow> bool" where
  "is_workspace_scope s = (case s of WorkspaceRoot _ \<Rightarrow> True | _ \<Rightarrow> False)"

definition is_root_scope :: "path_selector \<Rightarrow> bool" where
  "is_root_scope s = (case s of Root \<Rightarrow> True | _ \<Rightarrow> False)"

definition is_minimal_scope :: "path_selector \<Rightarrow> bool" where
  "is_minimal_scope s = (case s of Minimal \<Rightarrow> True | _ \<Rightarrow> False)"

definition is_tmpdir_scope :: "path_selector \<Rightarrow> bool" where
  "is_tmpdir_scope s = (case s of Tmpdir \<Rightarrow> True | _ \<Rightarrow> False)"

definition is_slash_tmp_scope :: "path_selector \<Rightarrow> bool" where
  "is_slash_tmp_scope s = (case s of SlashTmp \<Rightarrow> True | _ \<Rightarrow> False)"

definition is_absolute_scope :: "path_selector \<Rightarrow> bool" where
  "is_absolute_scope s = (case s of Absolute _ \<Rightarrow> True | _ \<Rightarrow> False)"

fun is_definitely_outside :: "path_selector \<Rightarrow> path_selector \<Rightarrow> bool" where
  "is_definitely_outside (Absolute child) (Absolute parent) = (\<not> is_within child parent)"
| "is_definitely_outside (WorkspaceRoot child) (WorkspaceRoot parent) = (\<not> is_within child parent)"
| "is_definitely_outside _ _ = False"

section \<open>The runtime context (context.rs)\<close>

record path_context =
  root_paths :: "string list"
  root_keys :: "native_component_key list set"
  workspace_roots :: "string list"
  workspace_root_keys :: "native_component_key list set"
  minimal_paths :: "string list"
  minimal_path_keys :: "native_component_key list set"
  executable_roots :: "string list"
  executable_root_keys :: "native_component_key list set"
  tmpdir :: "string option"
  slash_tmp :: "string option"
  current_directory :: "string option"

definition context_new :: path_context where
  "context_new =
     \<lparr>root_paths = [], root_keys = {}, workspace_roots = [], workspace_root_keys = {},
      minimal_paths = [], minimal_path_keys = {}, executable_roots = [], executable_root_keys = {},
      tmpdir = None, slash_tmp = None, current_directory = None\<rparr>"

definition validated_absolute :: "string \<Rightarrow> (policy_error, string) rust_result" where
  "validated_absolute path =
     and_then (selector_absolute path)
       (\<lambda>s. case selector_path s of
               Some p \<Rightarrow> Inr p
             | None \<Rightarrow> Inl (InvalidContext ''absolute path validation returned a non-absolute selector''))"

definition with_root :: "path_context \<Rightarrow> string \<Rightarrow> (policy_error, path_context) rust_result" where
  "with_root c path =
     and_then (validated_absolute path)
       (\<lambda>p. case push_unique native_path_key (root_keys c, root_paths c) p of
               (ks, ps) \<Rightarrow> Inr (c\<lparr>root_keys := ks, root_paths := ps\<rparr>))"

definition with_workspace_root :: "path_context \<Rightarrow> string \<Rightarrow> (policy_error, path_context) rust_result" where
  "with_workspace_root c path =
     and_then (validated_absolute path)
       (\<lambda>p. case push_unique native_path_key (workspace_root_keys c, workspace_roots c) p of
               (ks, ps) \<Rightarrow> Inr (c\<lparr>workspace_root_keys := ks, workspace_roots := ps\<rparr>))"

definition with_minimal_path :: "path_context \<Rightarrow> string \<Rightarrow> (policy_error, path_context) rust_result" where
  "with_minimal_path c path =
     and_then (validated_absolute path)
       (\<lambda>p. case push_unique native_path_key (minimal_path_keys c, minimal_paths c) p of
               (ks, ps) \<Rightarrow> Inr (c\<lparr>minimal_path_keys := ks, minimal_paths := ps\<rparr>))"

definition with_executable_root :: "path_context \<Rightarrow> string \<Rightarrow> (policy_error, path_context) rust_result" where
  "with_executable_root c path =
     and_then (validated_absolute path)
       (\<lambda>p. case push_unique native_path_key (executable_root_keys c, executable_roots c) p of
               (ks, ps) \<Rightarrow> Inr (c\<lparr>executable_root_keys := ks, executable_roots := ps\<rparr>))"

definition with_tmpdir :: "path_context \<Rightarrow> string \<Rightarrow> (policy_error, path_context) rust_result" where
  "with_tmpdir c path = and_then (validated_absolute path) (\<lambda>p. Inr (c\<lparr>tmpdir := Some p\<rparr>))"

definition with_slash_tmp :: "path_context \<Rightarrow> string \<Rightarrow> (policy_error, path_context) rust_result" where
  "with_slash_tmp c path = and_then (validated_absolute path) (\<lambda>p. Inr (c\<lparr>slash_tmp := Some p\<rparr>))"

definition with_current_directory :: "path_context \<Rightarrow> string \<Rightarrow> (policy_error, path_context) rust_result" where
  "with_current_directory c path =
     and_then (validated_absolute path) (\<lambda>p. Inr (c\<lparr>current_directory := Some p\<rparr>))"

text \<open>\<open>PathSelector::resolve\<close>.\<close>

fun selector_resolve :: "path_selector \<Rightarrow> path_context \<Rightarrow> string list" where
  "selector_resolve (Absolute p) c = [p]"
| "selector_resolve (WorkspaceRoot relative) c = map (\<lambda>root. path_join root relative) (workspace_roots c)"
| "selector_resolve Root c = root_paths c"
| "selector_resolve Minimal c = minimal_paths c"
| "selector_resolve Tmpdir c = (case tmpdir c of None \<Rightarrow> [] | Some p \<Rightarrow> [p])"
| "selector_resolve SlashTmp c = (case slash_tmp c of None \<Rightarrow> [] | Some p \<Rightarrow> [p])"

section \<open>Validated paths\<close>

definition valid_absolute :: "string \<Rightarrow> bool" where
  "valid_absolute p \<longleftrightarrow> CHR 0x00 \<notin> set p \<and> is_absolute p \<and> \<not> contains_parent_traversal p"

definition valid_relative :: "string \<Rightarrow> bool" where
  "valid_relative p \<longleftrightarrow> p \<noteq> [] \<and> CHR 0x00 \<notin> set p \<and> \<not> is_absolute p \<and> \<not> contains_parent_traversal p"

lemma contains_nul_iff: "contains_nul p \<longleftrightarrow> CHR 0x00 \<in> set p"
  by (simp add: contains_nul_def contains_nul_lossy)

lemma selector_absolute_Inr [result_simps]: "selector_absolute p = Inr s \<longleftrightarrow> valid_absolute p \<and> s = Absolute p"
  by (auto simp: selector_absolute_def contains_nul_iff valid_absolute_def)

lemma validated_absolute_Inr [result_simps]: "validated_absolute p = Inr q \<longleftrightarrow> valid_absolute p \<and> q = p"
  by (auto simp: validated_absolute_def result_simps)

lemma normal_component_count_lexc:
  "normal_component_count p = length (filter (\<lambda>c. case c of Normal _ \<Rightarrow> True | _ \<Rightarrow> False) (lexc p))"
  by (auto simp: normal_component_count_def lexc_def intro!: arg_cong [where f = length] filter_cong)

lemma set_path_push: "set (path_push a b) \<subseteq> set a \<union> set b \<union> {slash}"
  by (auto simp: path_push_def)

lemma valid_absolute_join: "valid_absolute root \<Longrightarrow> valid_relative rel \<Longrightarrow> valid_absolute (path_join root rel)"
  using set_path_push [of root rel] RootDir_lexc [of "path_push root rel"]
  by (auto simp: valid_absolute_def valid_relative_def contains_parent_traversal_lexc lexc_push
      RootDir_lexc lexc_eq [of rel])

lemma lexc_join_cong:
  "paths_equal a b \<Longrightarrow> lexc (path_join root a) = lexc (path_join root b)"
  using lexc_cong [of a b] by (simp add: paths_equal_lexc lexc_push)

text \<open>The loop of \<open>normalize_relative_path\<close> rebuilds the normal components.\<close>

lemma normalize_relative_loop:
  assumes "try_fold (normalize_relative_step rel) buf cs = Inr n" and "\<forall>c \<in> set cs. c = CurDir \<or> wf_part c"
    and "\<not> is_absolute buf"
  shows "lexc n = lexc buf @ filter (\<lambda>c. c \<noteq> CurDir) cs \<and> ParentDir \<notin> set cs \<and> \<not> is_absolute n
     \<and> set n \<subseteq> set buf \<union> {slash} \<union> \<Union> (set ` component_str ` set cs)"
  using assms
proof (induction cs arbitrary: buf)
  case (Cons c cs)
  show ?case
  proof (cases c)
    case (Normal part)
    with Cons.prems(2) have wf: "wf_part (Normal part)" by auto
    have rel_part: "\<not> is_absolute part" using relative_wf_part [OF wf] by simp
    have "parts part = [Normal part]" using parts_of_wf_part [OF wf] by simp
    then have push: "lexc (path_push buf part) = lexc buf @ [Normal part]"
      by (simp add: lexc_push rel_part)
    then have "\<not> is_absolute (path_push buf part)"
      using Cons.prems(3) RootDir_lexc [of "path_push buf part"] by (simp add: RootDir_lexc)
    with Cons.IH [of "path_push buf part"] Cons.prems(1,2) Normal
    have "lexc n = lexc (path_push buf part) @ filter (\<lambda>c. c \<noteq> CurDir) cs \<and> ParentDir \<notin> set cs
        \<and> \<not> is_absolute n \<and> set n \<subseteq> set (path_push buf part) \<union> {slash} \<union> \<Union> (set ` component_str ` set cs)"
      by (simp add: normalize_relative_step_def)
    with push set_path_push [of buf part] Normal show ?thesis by auto
  next
    case CurDir
    with Cons.IH [of buf] Cons.prems show ?thesis by (auto simp: normalize_relative_step_def)
  qed (use Cons.prems in \<open>auto simp: normalize_relative_step_def\<close>)
qed auto

lemma normalize_relative_loop_total:
  "\<forall>c \<in> set cs. c = CurDir \<or> (wf_part c \<and> c \<noteq> ParentDir) \<Longrightarrow>
     \<exists>n. try_fold (normalize_relative_step rel) buf cs = Inr n"
proof (induction cs arbitrary: buf)
  case (Cons c cs)
  then show ?case by (cases c) (auto simp: normalize_relative_step_def)
qed simp

lemma components_wf: "\<not> is_absolute p \<Longrightarrow> c \<in> set (components p) \<Longrightarrow> c = CurDir \<or> wf_part c"
  by (auto simp: components_def wf_parts split: if_splits)

lemma component_str_subset: "c \<in> set (components p) \<Longrightarrow> set (component_str c) \<subseteq> insert (CHR ''.'') (insert slash (set p))"
proof -
  have "q \<in> set (split_on slash p) \<Longrightarrow> set q \<subseteq> set p" for q
  proof (induction p arbitrary: q)
    case (Cons x xs)
    obtain a as where "split_on slash xs = a # as" by (metis list.exhaust split_on_nonempty)
    with Cons show ?case by (fastforce split: if_splits)
  qed simp
  then show "c \<in> set (components p) \<Longrightarrow> ?thesis"
    by (fastforce simp: components_def parts_def List.map_filter_def part_component_def split: if_splits)
qed

lemma normalize_relative_path_Inr:
  assumes "normalize_relative_path rel = Inr n"
  shows "valid_relative rel" and "valid_relative n" and "lexc n = lexc rel"
proof -
  from assms have rel: "rel \<noteq> []" "CHR 0x00 \<notin> set rel" "\<not> is_absolute rel"
    by (auto simp: normalize_relative_path_def contains_nul_iff split: if_splits)
  with assms obtain m where
    loop: "try_fold (normalize_relative_step rel) [] (components rel) = Inr m"
    and n: "n = (if m = [] then path_push m ''.'' else m)"
    by (simp add: normalize_relative_path_def contains_nul_iff and_then_eq_Inr) blast
  have m: "lexc m = lexc rel" "ParentDir \<notin> set (components rel)" "\<not> is_absolute m"
    "set m \<subseteq> {slash} \<union> \<Union> (set ` component_str ` set (components rel))"
    using normalize_relative_loop [OF loop] components_wf [OF rel(3)] by (auto simp: lexc_def [of rel])
  have dot: "lexc ''.'' = []" by code_simp
  from n have n: "n = (if m = [] then ''.'' else m)" by (simp add: path_push_def)
  from m(1) dot show lex: "lexc n = lexc rel" by (cases "m = []") (simp_all add: n)
  have nul: "CHR 0x00 \<notin> set m"
    using m(4) component_str_subset [of _ rel] rel(2) by fastforce
  from rel m(2) show "valid_relative rel"
    by (auto simp: valid_relative_def contains_parent_traversal_def list_ex_iff)
  then have "ParentDir \<notin> set (lexc rel)"
    by (simp add: valid_relative_def contains_parent_traversal_lexc)
  with lex nul m(3) show "valid_relative n"
    by (auto simp: valid_relative_def contains_parent_traversal_lexc n)
qed

section \<open>Identity of paths and selectors\<close>

interpretation native_paths: keyed_identity paths_equal native_path_key
  by standard (simp add: paths_equal_lexc native_path_key_eq_iff)

lemma selectors_equal_hash: "selectors_equal a b \<longleftrightarrow> selector_hash a = selector_hash b"
  by (cases a; cases b) (simp_all add: selector_hash_def native_paths.same_iff)

interpretation selector_ids: keyed_identity selectors_equal selector_hash
  by standard (rule selectors_equal_hash)

lemma selectors_equal_resolve:
  "selectors_equal a b \<Longrightarrow> list_all2 paths_equal (selector_resolve a c) (selector_resolve b c)"
proof (induction a b rule: selectors_equal.induct)
  case (2 l r)
  then have "paths_equal l r" by simp
  then have "paths_equal (path_join root l) (path_join root r)" for root
    unfolding paths_equal_lexc [of "path_join root l"] by (rule lexc_join_cong)
  then show ?case by (simp add: list_all2_map1 list_all2_map2 list_all2_same)
qed (simp_all add: native_paths.same_refl list_all2_same split: option.split)

section \<open>Context invariant\<close>

definition wf_keyed_paths :: "native_component_key list set \<Rightarrow> string list \<Rightarrow> bool" where
  "wf_keyed_paths ks ps \<longleftrightarrow> keyed_list native_path_key (ks, ps) \<and> list_all valid_absolute ps"

definition wf_context :: "path_context \<Rightarrow> bool" where
  "wf_context c \<longleftrightarrow>
     wf_keyed_paths (root_keys c) (root_paths c) \<and>
     wf_keyed_paths (workspace_root_keys c) (workspace_roots c) \<and>
     wf_keyed_paths (minimal_path_keys c) (minimal_paths c) \<and>
     wf_keyed_paths (executable_root_keys c) (executable_roots c) \<and>
     pred_option valid_absolute (tmpdir c) \<and> pred_option valid_absolute (slash_tmp c) \<and>
     pred_option valid_absolute (current_directory c)"

lemma wf_context_new [simp]: "wf_context context_new"
  by (simp add: wf_context_def context_new_def wf_keyed_paths_def)

lemma wf_keyed_paths_push:
  "wf_keyed_paths ks ps \<Longrightarrow> valid_absolute p \<Longrightarrow> push_unique native_path_key (ks, ps) p = (ks', ps')
     \<Longrightarrow> wf_keyed_paths ks' ps'"
  using keyed_list_push_unique [of native_path_key "(ks, ps)" p]
  by (auto simp: wf_keyed_paths_def push_unique_def split: if_splits)

lemmas context_builder_defs =
  with_root_def with_workspace_root_def with_minimal_path_def with_executable_root_def
  with_tmpdir_def with_slash_tmp_def with_current_directory_def

text \<open>The contexts a caller can build.\<close>

inductive built_context :: "path_context \<Rightarrow> bool" where
  new: "built_context context_new"
| root: "built_context c \<Longrightarrow> with_root c p = Inr c' \<Longrightarrow> built_context c'"
| workspace_root: "built_context c \<Longrightarrow> with_workspace_root c p = Inr c' \<Longrightarrow> built_context c'"
| minimal_path: "built_context c \<Longrightarrow> with_minimal_path c p = Inr c' \<Longrightarrow> built_context c'"
| executable_root: "built_context c \<Longrightarrow> with_executable_root c p = Inr c' \<Longrightarrow> built_context c'"
| tmpdir: "built_context c \<Longrightarrow> with_tmpdir c p = Inr c' \<Longrightarrow> built_context c'"
| slash_tmp: "built_context c \<Longrightarrow> with_slash_tmp c p = Inr c' \<Longrightarrow> built_context c'"
| current_directory: "built_context c \<Longrightarrow> with_current_directory c p = Inr c' \<Longrightarrow> built_context c'"

lemma wf_built_context: "built_context c \<Longrightarrow> wf_context c"
proof (induction rule: built_context.induct)
  case new
  show ?case by simp
qed (auto simp: context_builder_defs result_simps wf_context_def intro: wf_keyed_paths_push
      split: prod.splits)

definition wf_selector :: "path_selector \<Rightarrow> bool" where
  "wf_selector s = (case s of Absolute p \<Rightarrow> valid_absolute p | WorkspaceRoot p \<Rightarrow> valid_relative p | _ \<Rightarrow> True)"

lemma wf_selector_constructors:
  "selector_absolute p = Inr s \<Longrightarrow> wf_selector s"
  "selector_workspace p = Inr s \<Longrightarrow> wf_selector s"
  "wf_selector selector_workspace_root"
proof -
  show "selector_absolute p = Inr s \<Longrightarrow> wf_selector s"
    by (auto simp: result_simps wf_selector_def)
  show "selector_workspace p = Inr s \<Longrightarrow> wf_selector s"
    by (auto simp: selector_workspace_def and_then_eq_Inr wf_selector_def normalize_relative_path_Inr)
  have "valid_relative ''.''" by code_simp
  then show "wf_selector selector_workspace_root"
    by (simp add: wf_selector_def selector_workspace_root_def)
qed

lemma valid_resolve:
  "wf_selector s \<Longrightarrow> wf_context c \<Longrightarrow> p \<in> set (selector_resolve s c) \<Longrightarrow> valid_absolute p"
  by (cases s)
    (auto simp: wf_selector_def wf_context_def wf_keyed_paths_def list_all_iff valid_absolute_join
      option.pred_set split: option.splits)

lemma join_within:
  assumes "valid_absolute root" and "valid_relative n"
  shows "is_within (path_join root n) root"
proof -
  have "lexc (path_join root n) = lexc root @ parts n" "is_absolute (path_join root n)"
    using assms valid_absolute_join [OF assms] by (simp_all add: lexc_push valid_relative_def valid_absolute_def)
  with assms(1) valid_absolute_join [OF assms] lexc_absolute_nonempty [of root] show ?thesis
    by (auto simp: is_within_lexc valid_absolute_def contains_parent_traversal_lexc)
qed

section \<open>Properties\<close>

lemma cmp_of_Equal [simp]: "cmp_of a b = Equal \<longleftrightarrow> a = b"
  by (auto simp: cmp_of_def)

lemma cmp_of_Less [simp]: "cmp_of a b = Less \<longleftrightarrow> a < b"
  by (auto simp: cmp_of_def)

lemma selector_path_rank: "selector_kind_rank a = selector_kind_rank b \<Longrightarrow>
    (selector_path a = None) = (selector_path b = None)"
  by (cases a; cases b) auto

lemma selector_cmp_Less:
  "selector_cmp a b = Less \<longleftrightarrow>
     selector_kind_rank a < selector_kind_rank b \<or>
     (selector_kind_rank a = selector_kind_rank b \<and>
      (\<exists>l r. selector_path a = Some l \<and> selector_path b = Some r \<and> native_path_key l < native_path_key r))"
  by (cases a; cases b) (auto simp: selector_cmp_def Let_def)

text \<open>C28: The hand-written \<open>Eq\<close>, \<open>Hash\<close> and \<open>Ord\<close> of \<open>PathSelector\<close> satisfy the contracts
  that hash maps and sorted collections rely on: equal selectors are exactly those with equal hash
  input and exactly those that compare as \<open>Equal\<close>, comparison is antisymmetric and transitive,
  and equal selectors resolve to equal paths in every context.\<close>

theorem selector_eq_hash_ord_consistent:
  "(selectors_equal a b \<longleftrightarrow> selector_hash a = selector_hash b) \<and>
   (selectors_equal a b \<longleftrightarrow> selector_cmp a b = Equal) \<and>
   (selector_cmp a b = Less \<longleftrightarrow> selector_cmp b a = Greater) \<and>
   (selector_cmp a b = Less \<and> selector_cmp b d = Less \<longrightarrow> selector_cmp a d = Less) \<and>
   (selectors_equal a b \<longrightarrow> list_all2 paths_equal (selector_resolve a c) (selector_resolve b c))"
proof (intro conjI impI)
  show "selectors_equal a b \<longleftrightarrow> selector_cmp a b = Equal"
    by (cases a; cases b) (auto simp: selector_cmp_def Let_def native_paths.same_iff)
  show "selector_cmp a b = Less \<longleftrightarrow> selector_cmp b a = Greater"
    by (cases a; cases b) (auto simp: selector_cmp_def Let_def cmp_of_def split: if_splits)
  show "selector_cmp a d = Less" if "selector_cmp a b = Less \<and> selector_cmp b d = Less"
    using that unfolding selector_cmp_Less by auto
qed (simp_all add: selectors_equal_hash [symmetric] selectors_equal_resolve)

theorem selector_eq_hash_ord_consistent_witness:
  "selectors_equal (WorkspaceRoot ''src/./a'') (WorkspaceRoot ''src/a'') \<and>
   list_all2 paths_equal (selector_resolve (WorkspaceRoot ''src/./a'') (context_new\<lparr>workspace_roots := [''/w'']\<rparr>))
     (selector_resolve (WorkspaceRoot ''src/a'') (context_new\<lparr>workspace_roots := [''/w'']\<rparr>)) \<and>
   selector_cmp (Absolute ''/a'') (WorkspaceRoot ''a'') = Less \<and>
   selector_cmp (WorkspaceRoot ''a'') Root = Less \<and> selector_cmp (Absolute ''/a'') Root = Less"
proof -
  have "selectors_equal (WorkspaceRoot ''src/./a'') (WorkspaceRoot ''src/a'')"
    and "selector_cmp (Absolute ''/a'') (WorkspaceRoot ''a'') = Less"
    and "selector_cmp (WorkspaceRoot ''a'') Root = Less"
    by code_simp+
  with selector_eq_hash_ord_consistent [of "WorkspaceRoot ''src/./a''" "WorkspaceRoot ''src/a''"]
    selector_eq_hash_ord_consistent [of "Absolute ''/a''" "WorkspaceRoot ''a''" Root]
  show ?thesis by blast
qed

text \<open>C29: Every context built through the public methods keeps its invariant: each path list has
  pairwise different native keys, recorded exactly in the key set beside it, and every stored path
  is absolute, without NUL byte and without parent traversal. Hence a selector made by any of the
  constructors resolves in it to such paths only: an absolute selector to the path it was made from,
  which is therefore such a path, a workspace-relative selector to one path below each workspace root,
  and the other selectors to paths the context stores.\<close>

theorem built_context_resolves_safely:
  assumes "built_context c"
  shows "wf_context c \<and>
    (selector_absolute path = Inr s \<longrightarrow> valid_absolute path \<and> selector_resolve s c = [path]) \<and>
    (selector_workspace rel = Inr s \<or> s = selector_workspace_root \<longrightarrow>
       list_all valid_absolute (selector_resolve s c) \<and> list_all2 is_within (selector_resolve s c) (workspace_roots c)) \<and>
    (s \<in> {Root, Minimal, Tmpdir, SlashTmp} \<longrightarrow>
       list_all valid_absolute (selector_resolve s c) \<and>
       set (selector_resolve s c) \<subseteq> set (root_paths c) \<union> set (minimal_paths c) \<union> set_option (tmpdir c) \<union> set_option (slash_tmp c))"
proof -
  from assms have wf: "wf_context c" by (rule wf_built_context)
  note valid = valid_resolve [OF _ wf]
  have "valid_relative ''.''" by code_simp
  then have relative: "\<exists>n. s = WorkspaceRoot n \<and> valid_relative n" if "selector_workspace rel = Inr s \<or> s = selector_workspace_root"
    using that by (auto simp: selector_workspace_def selector_workspace_root_def and_then_eq_Inr normalize_relative_path_Inr)
  have all: "list_all valid_absolute (selector_resolve s c)" if "wf_selector s"
    using valid [OF that] by (simp add: list_all_iff)
  have within: "list_all2 is_within (selector_resolve (WorkspaceRoot n) c) (workspace_roots c)" if "valid_relative n" for n
    using wf join_within [OF _ that] by (auto simp: wf_context_def wf_keyed_paths_def list_all_iff list_all2_map1 list_all2_same)
  show ?thesis
  proof (intro conjI impI wf)
    assume "selector_absolute path = Inr s"
    then show "valid_absolute path" "selector_resolve s c = [path]" by (auto simp: result_simps)
  next
    assume "selector_workspace rel = Inr s \<or> s = selector_workspace_root"
    then obtain n where "s = WorkspaceRoot n" "valid_relative n" using relative by blast
    then show "list_all valid_absolute (selector_resolve s c)" "list_all2 is_within (selector_resolve s c) (workspace_roots c)"
      using all within by (simp_all only: wf_selector_def path_selector.case)
  next
    assume s: "s \<in> {Root, Minimal, Tmpdir, SlashTmp}"
    then have "wf_selector s" by (auto simp: wf_selector_def)
    then show "list_all valid_absolute (selector_resolve s c)" by (rule all)
    show "set (selector_resolve s c) \<subseteq> set (root_paths c) \<union> set (minimal_paths c) \<union> set_option (tmpdir c) \<union> set_option (slash_tmp c)"
      using s by (auto split: option.splits)
  qed
qed

lemma built_context_example: "built_context (context_new\<lparr>workspace_root_keys := {[KRootDir, KNormal ''w'']}, workspace_roots := [''/w'']\<rparr>)"
proof (rule built_context.workspace_root [OF built_context.new])
  have "valid_absolute ''/w''" and "native_path_key ''/w'' = [KRootDir, KNormal ''w'']"
    by code_simp+
  then show "with_workspace_root context_new ''/w'' =
      Inr (context_new\<lparr>workspace_root_keys := {[KRootDir, KNormal ''w'']}, workspace_roots := [''/w'']\<rparr>)"
    using validated_absolute_Inr [of "''/w''" "''/w''"]
    by (simp add: with_workspace_root_def push_unique_def context_new_def)
qed

theorem built_context_resolves_safely_witness:
  "list_all2 is_within [''/w/src''] [''/w''] \<and> valid_absolute ''/a''"
proof -
  have "normalize_relative_path ''./src'' = Inr ''src''"
    unfolding normalize_relative_path_def contains_nul_iff by code_simp
  then have rel: "selector_workspace ''./src'' = Inr (WorkspaceRoot ''src'')"
    by (simp add: selector_workspace_def)
  have "selector_absolute ''/a'' = Inr (Absolute ''/a'')"
    unfolding selector_absolute_def contains_nul_iff by code_simp
  with rel built_context_resolves_safely [OF built_context_example, of _ "WorkspaceRoot ''src''" "''./src''"]
    built_context_resolves_safely [OF built_context_example, of "''/a''" "Absolute ''/a''"] show ?thesis
    by (simp add: path_push_def)
qed

end
