(* ===== verification/Glob_Pattern.thy ===== *)
theory Glob_Pattern
  imports Selector
begin

text \<open>
  Path globs (\<open>cageforge-policy/src/path.rs\<close>, second half). A pattern is split into
  components, each compiled to a matcher by the glob library; the library's compiler is the
  parameter \<open>build\<close> of the constructor and a compiled matcher is a function value, so a
  pattern carries its own matchers. \<open>glob_components_match\<close> is the two-row table the code
  fills; \<open>glob_spec\<close> is the recursive meaning of \<open>**\<close> it is proved to compute.
\<close>

section \<open>Patterns (path.rs)\<close>

type_synonym glob_matcher = "string \<Rightarrow> bool"
type_synonym glob_builder = "string \<Rightarrow> (string, glob_matcher) rust_result"

record path_pattern =
  pat_raw :: string
  pat_absolute :: bool
  pat_prefix :: "string option"
  pat_components :: "string list"
  pat_matchers :: "glob_matcher list"

definition contains_glob_meta :: "string \<Rightarrow> bool" where
  "contains_glob_meta s \<longleftrightarrow> list_ex (\<lambda>c. c \<in> {CHR ''*'', CHR ''?'', CHR ''['', CHR '']'', CHR ''{'', CHR ''}''}) s"

definition compile_glob_component ::
  "glob_builder \<Rightarrow> string \<Rightarrow> string \<Rightarrow> (policy_error, glob_matcher) rust_result" where
  "compile_glob_component build component pattern =
     map_err (\<lambda>e. InvalidGlobPattern pattern (''invalid glob syntax: '' @ e)) (build (case_fold component))"

definition pattern_step ::
  "glob_builder \<Rightarrow> string \<Rightarrow> string list \<times> glob_matcher list \<times> string option \<Rightarrow> component
     \<Rightarrow> (policy_error, string list \<times> glob_matcher list \<times> string option) rust_result" where
  "pattern_step build raw st c =
     (case st of (comps, ms, pre) \<Rightarrow>
       (case c of
          Prefix p \<Rightarrow> Inr (comps, ms, Some (to_string_lossy p))
        | RootDir \<Rightarrow> Inr (comps, ms, pre)
        | CurDir \<Rightarrow> Inr (comps, ms, pre)
        | ParentDir \<Rightarrow> Inl (InvalidGlobPattern raw ''parent traversal is not allowed'')
        | Normal p \<Rightarrow>
            and_then (compile_glob_component build (to_string_lossy p) raw)
              (\<lambda>m. Inr (comps @ [to_string_lossy p], ms @ [m], pre))))"

definition pattern_new :: "glob_builder \<Rightarrow> string \<Rightarrow> bool \<Rightarrow> (policy_error, path_pattern) rust_result" where
  "pattern_new build raw absolute =
     (let path = normalize_lexical_path raw
      in if str_trim raw = [] then Inl (InvalidGlobPattern raw ''pattern cannot be empty'')
         else if CHR 0x00 \<in> set raw then Inl (InvalidGlobPattern raw ''pattern cannot contain a NUL character'')
         else if absolute \<and> \<not> is_absolute path
         then Inl (InvalidGlobPattern raw ''absolute glob must use a native absolute path'')
         else if \<not> absolute \<and> is_absolute path
         then Inl (InvalidGlobPattern raw ''workspace glob must be relative'')
         else and_then (try_fold (pattern_step build raw) ([], [], None) (components path))
           (\<lambda>(comps, ms, pre).
              if comps = [] then Inl (InvalidGlobPattern raw ''pattern must contain at least one component'')
              else Inr \<lparr>pat_raw = raw, pat_absolute = absolute, pat_prefix = pre,
                        pat_components = comps, pat_matchers = ms\<rparr>))"

definition pattern_absolute :: "glob_builder \<Rightarrow> string \<Rightarrow> (policy_error, path_pattern) rust_result" where
  "pattern_absolute build pattern = pattern_new build pattern True"

definition pattern_workspace :: "glob_builder \<Rightarrow> string \<Rightarrow> (policy_error, path_pattern) rust_result" where
  "pattern_workspace build pattern = pattern_new build pattern False"

text \<open>The loop of \<open>literal_prefix\<close>; \<open>break\<close> ends the recursion.\<close>

fun literal_prefix_loop :: "string \<Rightarrow> component list \<Rightarrow> string" where
  "literal_prefix_loop pre [] = pre"
| "literal_prefix_loop pre (Prefix p # cs) = literal_prefix_loop (path_push pre p) cs"
| "literal_prefix_loop pre (RootDir # cs) = literal_prefix_loop (path_push pre ''/'') cs"
| "literal_prefix_loop pre (CurDir # cs) = literal_prefix_loop pre cs"
| "literal_prefix_loop pre (ParentDir # cs) = pre"
| "literal_prefix_loop pre (Normal p # cs) =
     (if contains_glob_meta (to_string_lossy p) then pre
      else literal_prefix_loop (path_push pre (to_string_lossy p)) cs)"

definition literal_prefix :: "path_pattern \<Rightarrow> string" where
  "literal_prefix pat = literal_prefix_loop [] (components (normalize_lexical_path (pat_raw pat)))"

definition path_components_step :: "string option \<times> string list \<Rightarrow> component \<Rightarrow> string option \<times> string list" where
  "path_components_step st c =
     (case st of (pre, comps) \<Rightarrow>
       (case c of
          Prefix p \<Rightarrow> (Some (to_string_lossy p), comps)
        | Normal p \<Rightarrow> (pre, comps @ [to_string_lossy p])
        | _ \<Rightarrow> (pre, comps)))"

definition path_components :: "string \<Rightarrow> string option \<times> string list" where
  "path_components path = foldl path_components_step (None, []) (components (normalize_lexical_path path))"

fun prefixes_equal :: "string option \<Rightarrow> string option \<Rightarrow> bool" where
  "prefixes_equal (Some l) (Some r) = strings_equal l r"
| "prefixes_equal None None = True"
| "prefixes_equal _ _ = False"

definition relative_path_components :: "string \<Rightarrow> string \<Rightarrow> string list option" where
  "relative_path_components path root =
     (case (path_components path, path_components root) of
        ((path_prefix, path_parts), (root_prefix, root_components)) \<Rightarrow>
          if \<not> prefixes_equal path_prefix root_prefix
             \<or> length root_components > length path_parts
             \<or> \<not> list_all (\<lambda>(r, p). strings_equal p r) (zip root_components path_parts)
          then None
          else Some (drop (length root_components) path_parts))"

definition glob_component_matches :: "glob_matcher \<Rightarrow> string \<Rightarrow> bool" where
  "glob_component_matches m component = m component"

text \<open>
  One pass of the table loop. \<open>**\<close> keeps every reached position and all later ones
  (\<open>next[0] = current[0]\<close>, \<open>next[i] = current[i] || next[i - 1]\<close>); any other component moves one
  position forward where its matcher accepts (\<open>next[0] = false\<close>,
  \<open>next[i] = current[i - 1] && matches(path[i - 1])\<close>).
\<close>

fun star_row :: "bool \<Rightarrow> bool list \<Rightarrow> bool list" where
  "star_row previous [] = []"
| "star_row previous (b # bs) = (b \<or> previous) # star_row (b \<or> previous) bs"

definition literal_row :: "glob_matcher \<Rightarrow> string list \<Rightarrow> bool list \<Rightarrow> bool list" where
  "literal_row m path current = False # map2 (\<lambda>b p. b \<and> glob_component_matches m p) current path"

definition glob_row :: "glob_matcher list \<Rightarrow> string list \<Rightarrow> bool list \<Rightarrow> nat \<times> string \<Rightarrow> bool list" where
  "glob_row matchers path current ip =
     (case ip of (pattern_index, pattern_component) \<Rightarrow>
        if pattern_component = ''**'' then star_row False current
        else literal_row (matchers ! pattern_index) path current)"

definition glob_components_match :: "string list \<Rightarrow> glob_matcher list \<Rightarrow> string list \<Rightarrow> bool" where
  "glob_components_match pattern matchers path =
     foldl (glob_row matchers path) (True # replicate (length path) False) (List.enumerate 0 pattern)
       ! length path"

definition pattern_matches :: "path_pattern \<Rightarrow> string \<Rightarrow> path_context \<Rightarrow> bool" where
  "pattern_matches pat path c =
     (if pat_absolute pat then
        (case path_components path of (pre, comps) \<Rightarrow>
           is_absolute path \<and> prefixes_equal pre (pat_prefix pat)
             \<and> glob_components_match (pat_components pat) (pat_matchers pat) comps)
      else list_ex
        (\<lambda>root. case relative_path_components path root of
             None \<Rightarrow> False
           | Some comps \<Rightarrow> glob_components_match (pat_components pat) (pat_matchers pat) comps)
        (workspace_roots c))"

definition pattern_specificity :: "path_pattern \<Rightarrow> nat" where
  "pattern_specificity pat = length (filter (\<lambda>c. \<not> contains_glob_meta c) (pat_components pat))"

definition semantic_key :: "path_pattern \<Rightarrow> bool \<times> string option \<times> string list" where
  "semantic_key pat =
     (pat_absolute pat, map_option case_fold (pat_prefix pat), map case_fold (pat_components pat))"

section \<open>The meaning of a component pattern\<close>

fun glob_spec :: "(string \<times> glob_matcher) list \<Rightarrow> string list \<Rightarrow> bool" where
  "glob_spec [] path \<longleftrightarrow> path = []"
| "glob_spec ((c, m) # ps) path \<longleftrightarrow>
     (if c = ''**'' then \<exists>i \<le> length path. glob_spec ps (drop i path)
      else (case path of [] \<Rightarrow> False | p # rest \<Rightarrow> m p \<and> glob_spec ps rest))"

lemma glob_spec_snoc:
  "glob_spec (ps @ [(c, m)]) path \<longleftrightarrow>
     (if c = ''**'' then \<exists>j \<le> length path. glob_spec ps (take j path)
      else path \<noteq> [] \<and> glob_spec ps (butlast path) \<and> m (last path))"
proof (induction ps arbitrary: path)
  case Nil
  have star: "\<exists>j \<le> length path. drop j path = []" "\<exists>j \<le> length path. take j path = []"
    by (rule exI [of _ "length path"], simp) (rule exI [of _ 0], simp)
  show ?case
    using star by (cases path) (auto split: list.splits)
next
  case (Cons q ps)
  obtain d n where q: "q = (d, n)" by (rule prod.exhaust)
  show ?case
  proof (cases "d = ''**''")
    case dstar: True
    show ?thesis
    proof (cases "c = ''**''")
      case True
      have "(\<exists>i \<le> length path. \<exists>j \<le> length path - i. glob_spec ps (take j (drop i path)))
        \<longleftrightarrow> (\<exists>j \<le> length path. \<exists>i \<le> j. glob_spec ps (drop i (take j path)))" (is "?l \<longleftrightarrow> ?r")
      proof
        assume ?l
        then obtain i j where "i \<le> length path" "j \<le> length path - i" "glob_spec ps (take j (drop i path))"
          by blast
        then have "i + j \<le> length path" "i \<le> i + j" "glob_spec ps (drop i (take (i + j) path))"
          by (simp_all add: take_drop add.commute)
        then show ?r by blast
      next
        assume ?r
        then obtain i j where "j \<le> length path" "i \<le> j" "glob_spec ps (drop i (take j path))" by blast
        then have "i \<le> length path" "j - i \<le> length path - i" "glob_spec ps (take (j - i) (drop i path))"
          by (simp_all add: drop_take diff_le_mono)
        then show ?l by blast
      qed
      then show ?thesis using Cons dstar True by (simp add: q min.absorb2 cong: conj_cong)
    next
      case False
      have "(\<exists>i \<le> length path. drop i path \<noteq> [] \<and> glob_spec ps (butlast (drop i path)) \<and> m (last (drop i path)))
        \<longleftrightarrow> path \<noteq> [] \<and> (\<exists>i \<le> length path - 1. glob_spec ps (drop i (butlast path))) \<and> m (last path)" (is "?l \<longleftrightarrow> ?r")
      proof
        assume ?l
        then obtain i where "i < length path" "glob_spec ps (butlast (drop i path))" "m (last (drop i path))"
          by (auto simp: not_le)
        then show ?r by (auto simp: butlast_drop intro!: exI [of _ i])
      next
        assume ?r
        then obtain i where "path \<noteq> []" "i \<le> length path - 1" "glob_spec ps (drop i (butlast path))" "m (last path)"
          by blast
        moreover from this have "i < length path" by (cases path) auto
        ultimately have "i \<le> length path" "drop i path \<noteq> []" "glob_spec ps (butlast (drop i path))"
          "m (last (drop i path))"
          by (simp_all add: butlast_drop)
        then show ?l by blast
      qed
      then show ?thesis using Cons dstar False by (simp add: q)
    qed
  next
    case dlit: False
    show ?thesis
    proof (cases path)
      case Nil
      with dlit show ?thesis by (auto simp: q)
    next
      case (Cons p rest)
      have "(\<exists>j \<le> Suc (length rest). glob_spec ((d, n) # ps) (take j (p # rest)))
        \<longleftrightarrow> n p \<and> (\<exists>j \<le> length rest. glob_spec ps (take j rest))" (is "?l \<longleftrightarrow> ?r")
      proof
        assume ?l
        then obtain j where "j \<le> Suc (length rest)" "glob_spec ((d, n) # ps) (take j (p # rest))" by blast
        with dlit show ?r by (cases j) auto
      next
        assume ?r
        then obtain j where "n p" "j \<le> length rest" "glob_spec ps (take j rest)" by blast
        with dlit show ?l by (intro exI [of _ "Suc j"]) simp
      qed
      then show ?thesis
        using Cons.IH [of rest] dlit Cons by (cases "rest = []") (auto simp: q)
    qed
  qed
qed

section \<open>The table computes the meaning\<close>

lemma length_star_row [simp]: "length (star_row p bs) = length bs"
  by (induction bs arbitrary: p) auto

lemma ex_le_Suc_shift: "(\<exists>k \<le> Suc j. P k) \<longleftrightarrow> P 0 \<or> (\<exists>k \<le> j. P (Suc k))"
proof
  assume "\<exists>k \<le> Suc j. P k"
  then obtain k where "k \<le> Suc j" "P k" by blast
  then show "P 0 \<or> (\<exists>k \<le> j. P (Suc k))" by (cases k) auto
qed auto

lemma star_row_nth: "i < length bs \<Longrightarrow> star_row p bs ! i \<longleftrightarrow> p \<or> (\<exists>k \<le> i. bs ! k)"
proof (induction bs arbitrary: p i)
  case (Cons b bs)
  show ?case
  proof (cases i)
    case (Suc j)
    with Cons have "star_row p (b # bs) ! i \<longleftrightarrow> (b \<or> p) \<or> (\<exists>k \<le> j. bs ! k)" by simp
    also have "\<dots> \<longleftrightarrow> p \<or> (\<exists>k \<le> Suc j. (b # bs) ! k)"
      by (auto simp: ex_le_Suc_shift)
    finally show ?thesis using Suc by simp
  qed auto
qed simp

definition glob_reach :: "(string \<times> glob_matcher) list \<Rightarrow> string list \<Rightarrow> bool list" where
  "glob_reach ps path = map (\<lambda>j. glob_spec ps (take j path)) [0..<Suc (length path)]"

lemma length_glob_reach [simp]: "length (glob_reach ps path) = Suc (length path)"
  by (simp add: glob_reach_def)

lemma glob_reach_nth: "j \<le> length path \<Longrightarrow> glob_reach ps path ! j \<longleftrightarrow> glob_spec ps (take j path)"
  by (simp add: glob_reach_def del: upt_Suc)

lemma glob_reach_Nil: "glob_reach [] path = True # replicate (length path) False"
proof (rule nth_equalityI)
  fix j
  assume "j < length (glob_reach [] path)"
  then show "glob_reach [] path ! j = (True # replicate (length path) False) ! j"
    by (cases j) (auto simp: glob_reach_nth)
qed simp

lemma glob_reach_star: "star_row False (glob_reach ps path) = glob_reach (ps @ [(''**'', m)]) path"
proof (rule nth_equalityI)
  fix j
  assume "j < length (star_row False (glob_reach ps path))"
  then have j: "j \<le> length path" by simp
  have "(\<exists>k \<le> j. glob_reach ps path ! k) \<longleftrightarrow> (\<exists>k \<le> j. glob_spec ps (take k (take j path)))"
    using j by (auto simp: glob_reach_nth min_def)
  with j show "star_row False (glob_reach ps path) ! j = glob_reach (ps @ [(''**'', m)]) path ! j"
    by (simp add: star_row_nth glob_reach_nth glob_spec_snoc min.absorb2)
qed simp

lemma glob_reach_literal:
  "c \<noteq> ''**'' \<Longrightarrow> literal_row m path (glob_reach ps path) = glob_reach (ps @ [(c, m)]) path"
proof (rule nth_equalityI)
  assume c: "c \<noteq> ''**''"
  fix j
  assume "j < length (literal_row m path (glob_reach ps path))"
  then have j: "j \<le> length path" by (simp add: literal_row_def)
  show "literal_row m path (glob_reach ps path) ! j = glob_reach (ps @ [(c, m)]) path ! j"
  proof (cases j)
    case 0
    with c show ?thesis by (simp add: literal_row_def glob_reach_nth glob_spec_snoc)
  next
    case (Suc i)
    with j have "take (Suc i) path = take i path @ [path ! i]" by (simp add: take_Suc_conv_app_nth)
    with c j Suc show ?thesis
      by (simp add: literal_row_def glob_reach_nth glob_spec_snoc glob_component_matches_def)
  qed
qed (simp add: literal_row_def)

lemma zip_snoc_left: "length xs < length ys \<Longrightarrow> zip (xs @ [x]) ys = zip xs ys @ [(x, ys ! length xs)]"
proof (induction xs arbitrary: ys)
  case Nil
  then show ?case by (cases ys) auto
next
  case (Cons a xs)
  then show ?case by (cases ys) auto
qed

lemma glob_rows_reach:
  "length pattern \<le> length matchers \<Longrightarrow>
     foldl (glob_row matchers path) (True # replicate (length path) False) (List.enumerate 0 pattern)
       = glob_reach (zip pattern matchers) path"
proof (induction pattern rule: rev_induct)
  case Nil
  then show ?case by (simp add: glob_reach_Nil)
next
  case (snoc c pattern)
  from snoc.prems have "zip (pattern @ [c]) matchers = zip pattern matchers @ [(c, matchers ! length pattern)]"
    by (simp add: zip_snoc_left)
  with snoc show ?case
    by (simp add: enumerate_append_eq glob_row_def glob_reach_star [of _ _ "matchers ! length pattern"]
        glob_reach_literal)
qed

lemma glob_components_match_spec:
  "length pattern = length matchers \<Longrightarrow>
     glob_components_match pattern matchers path \<longleftrightarrow> glob_spec (zip pattern matchers) path"
  by (simp add: glob_components_match_def glob_rows_reach glob_reach_nth)

section \<open>What the constructor builds\<close>

definition normals :: "component list \<Rightarrow> string list" where
  "normals cs = List.map_filter (\<lambda>c. case c of Normal p \<Rightarrow> Some p | _ \<Rightarrow> None) cs"

lemma normals_simps [simp]:
  "normals [] = []"
  "normals (Normal p # cs) = p # normals cs"
  "normals (CurDir # cs) = normals cs"
  "normals (RootDir # cs) = normals cs"
  "normals (ParentDir # cs) = normals cs"
  "normals (Prefix q # cs) = normals cs"
  by (simp_all add: normals_def map_filter_Cons)

lemma normals_append [simp]: "normals (as @ bs) = normals as @ normals bs"
  by (simp add: normals_def)

lemma normals_components: "normals (components p) = normals (parts p)"
  by (simp add: components_def)

lemma parts_normals:
  assumes "ParentDir \<notin> set (parts p)"
  shows "parts p = map Normal (normals (parts p))"
proof -
  have conv: "\<forall>c \<in> set cs. wf_part c \<and> c \<noteq> ParentDir \<Longrightarrow> cs = map Normal (normals cs)" for cs
  proof (induction cs)
    case (Cons c cs)
    then show ?case by (cases c) auto
  qed simp
  show ?thesis by (rule conv) (use assms wf_parts in auto)
qed

lemma normals_parts_utf8: "is_utf8 p \<Longrightarrow> q \<in> set (normals (parts p)) \<Longrightarrow> is_utf8 q"
proof -
  have "q \<in> set (normals (List.map_filter part_component xs)) \<Longrightarrow> q \<in> set xs" for xs
    by (induction xs) (auto simp: map_filter_Cons part_component_def split: if_splits)
  then show "is_utf8 p \<Longrightarrow> q \<in> set (normals (parts p)) \<Longrightarrow> is_utf8 q"
    using is_utf8_split_on [of slash p q] by (simp add: parts_def is_ascii_def)
qed

lemma lossy_normals_utf8: "is_utf8 p \<Longrightarrow> map to_string_lossy (normals (parts p)) = normals (parts p)"
  by (rule map_idI) (rule to_string_lossy_valid, rule normals_parts_utf8)

lemma path_components_eq: "path_components p = (None, map to_string_lossy (normals (parts p)))"
proof -
  have "\<forall>c \<in> set cs. \<forall>q. c \<noteq> Prefix q \<Longrightarrow>
      foldl path_components_step (pre, comps) cs = (pre, comps @ map to_string_lossy (normals cs))" for pre comps cs
  proof (induction cs arbitrary: comps)
    case (Cons c cs)
    then show ?case by (cases c) (auto simp: path_components_step_def)
  qed simp
  moreover have "\<forall>c \<in> set (components q). \<forall>r. c \<noteq> Prefix r" for q
    using parts_no_special(3) by (auto simp: components_def)
  ultimately show ?thesis
    by (simp add: path_components_def normals_components normalize_collect)
qed

lemma pattern_step_simps:
  "pattern_step build raw (comps, ms, pre) (Normal p) =
     and_then (compile_glob_component build (to_string_lossy p) raw)
       (\<lambda>m. Inr (comps @ [to_string_lossy p], ms @ [m], pre))"
  "pattern_step build raw (comps, ms, pre) RootDir = Inr (comps, ms, pre)"
  "pattern_step build raw (comps, ms, pre) CurDir = Inr (comps, ms, pre)"
  "pattern_step build raw (comps, ms, pre) ParentDir =
     Inl (InvalidGlobPattern raw ''parent traversal is not allowed'')"
  by (simp_all add: pattern_step_def)

lemma compile_glob_component_Inr [result_simps]:
  "compile_glob_component build c raw = Inr m \<longleftrightarrow> build c = Inr m"
  by (simp add: compile_glob_component_def map_err_eq_Inr case_fold_def)

lemma pattern_loop:
  assumes "try_fold (pattern_step build raw) (comps, ms, pre) cs = Inr (comps', ms', pre')"
    and "\<forall>c \<in> set cs. \<forall>q. c \<noteq> Prefix q"
  shows "pre' = pre \<and> ParentDir \<notin> set cs \<and> comps' = comps @ map to_string_lossy (normals cs) \<and>
     (\<exists>ms2. ms' = ms @ ms2 \<and> list_all2 (\<lambda>c m. build c = Inr m) (map to_string_lossy (normals cs)) ms2)"
  using assms
proof (induction cs arbitrary: comps ms)
  case (Cons c cs)
  show ?case
  proof (cases c)
    case (Normal p)
    with Cons.prems obtain m where m: "build (to_string_lossy p) = Inr m"
      and rest: "try_fold (pattern_step build raw) (comps @ [to_string_lossy p], ms @ [m], pre) cs
        = Inr (comps', ms', pre')"
      by (auto simp: pattern_step_simps result_simps)
    from Cons.IH [OF rest] Cons.prems(2) m Normal show ?thesis
      by (auto simp: list_all2_Cons1)
  qed (use Cons in \<open>auto simp: pattern_step_simps\<close>)
qed simp

text \<open>A pattern whose matchers were compiled from its components.\<close>

definition wf_pattern :: "glob_builder \<Rightarrow> path_pattern \<Rightarrow> bool" where
  "wf_pattern build pat \<longleftrightarrow>
     pat_prefix pat = None \<and> pat_components pat \<noteq> [] \<and>
     list_all2 (\<lambda>c m. build c = Inr m) (pat_components pat) (pat_matchers pat)"

lemma pattern_new_Inr:
  assumes "pattern_new build raw absolute = Inr pat"
  shows "wf_pattern build pat" and "pat_raw pat = raw" and "pat_absolute pat = absolute"
    and "is_absolute raw = absolute" and "ParentDir \<notin> set (parts raw)"
    and "pat_components pat = map to_string_lossy (normals (parts raw))"
proof -
  let ?cs = "components (normalize_lexical_path raw)"
  from assms obtain comps ms pre where
    loop: "try_fold (pattern_step build raw) ([], [], None) ?cs = Inr (comps, ms, pre)"
    and pat: "pat = \<lparr>pat_raw = raw, pat_absolute = absolute, pat_prefix = pre,
                     pat_components = comps, pat_matchers = ms\<rparr>" "comps \<noteq> []"
    and abs: "is_absolute (normalize_lexical_path raw) = absolute"
    by (auto simp: pattern_new_def Let_def and_then_eq_Inr split: if_splits)
  have "\<forall>c \<in> set ?cs. \<forall>q. c \<noteq> Prefix q"
    using parts_no_special(3) by (auto simp: components_def)
  from pattern_loop [OF loop this]
  have c: "pre = None" "ParentDir \<notin> set ?cs" "comps = map to_string_lossy (normals ?cs)"
    "list_all2 (\<lambda>c m. build c = Inr m) comps ms"
    by auto
  show "pat_components pat = map to_string_lossy (normals (parts raw))"
    using c(3) pat by (simp add: normals_components normalize_collect)
  show "ParentDir \<notin> set (parts raw)"
    using c(2) by (simp add: ParentDir_components normalize_collect)
  show "wf_pattern build pat" "pat_raw pat = raw" "pat_absolute pat = absolute" "is_absolute raw = absolute"
    using c pat abs by (simp_all add: wf_pattern_def)
qed

lemma semantic_key_eq: "semantic_key pat = (pat_absolute pat, pat_prefix pat, pat_components pat)"
proof -
  have "case_fold = id" by (rule ext) (simp add: case_fold_def)
  then show ?thesis by (simp add: semantic_key_def option.map_id)
qed

lemma semantic_key_matches:
  assumes "semantic_key a = semantic_key b" and "wf_pattern build a" and "wf_pattern build b"
  shows "pattern_matches a = pattern_matches b" and "pattern_specificity a = pattern_specificity b"
proof -
  have key: "pat_absolute a = pat_absolute b" "pat_prefix a = pat_prefix b" "pat_components a = pat_components b"
    using assms(1) by (simp_all add: semantic_key_eq)
  have "list_all2 (\<lambda>c m. build c = Inr m) cs ms \<Longrightarrow> list_all2 (\<lambda>c m. build c = Inr m) cs ns \<Longrightarrow> ms = ns" for cs ms ns
    by (induction cs arbitrary: ms ns) (auto simp: list_all2_Cons1)
  with assms key have "pat_matchers a = pat_matchers b" by (auto simp: wf_pattern_def)
  with key show "pattern_matches a = pattern_matches b"
    by (intro ext) (simp add: pattern_matches_def cong: option.case_cong)
  from key show "pattern_specificity a = pattern_specificity b" by (simp add: pattern_specificity_def)
qed

lemma wf_pattern_length: "wf_pattern build pat \<Longrightarrow> length (pat_components pat) = length (pat_matchers pat)"
  by (auto simp: wf_pattern_def dest: list_all2_lengthD)

section \<open>Literal prefixes\<close>

definition is_literal :: "component \<Rightarrow> bool" where
  "is_literal c = (case c of Normal p \<Rightarrow> \<not> contains_glob_meta p | ParentDir \<Rightarrow> False | _ \<Rightarrow> True)"

lemma literal_prefix_loop_filter: "literal_prefix_loop pre (filter (\<lambda>c. c \<noteq> CurDir) cs) = literal_prefix_loop pre cs"
  by (induction pre cs rule: literal_prefix_loop.induct) auto

lemma lexc_literal_prefix_loop:
  assumes "\<forall>c \<in> set cs. wf_part c" and "\<forall>p \<in> set (normals cs). is_utf8 p"
  shows "lexc (literal_prefix_loop pre cs) = lexc pre @ takeWhile is_literal cs"
  using assms
proof (induction cs arbitrary: pre)
  case (Cons c cs)
  show ?case
  proof (cases c)
    case (Normal p)
    with Cons.prems have wf: "wf_part (Normal p)" and u: "to_string_lossy p = p"
      by (auto simp: to_string_lossy_valid)
    have "lexc (path_push pre p) = lexc pre @ [Normal p]"
      using relative_wf_part [OF wf] parts_of_wf_part [OF wf] by (simp add: lexc_push)
    with Cons Normal u show ?thesis by (simp add: is_literal_def)
  qed (use Cons in \<open>auto simp: is_literal_def\<close>)
qed simp

lemma lexc_literal_prefix:
  assumes "is_utf8 (pat_raw pat)"
  shows "lexc (literal_prefix pat) = takeWhile is_literal (lexc (pat_raw pat))"
proof -
  let ?raw = "pat_raw pat"
  have loop: "literal_prefix pat = literal_prefix_loop [] (lexc ?raw)"
    unfolding literal_prefix_def
    by (subst literal_prefix_loop_filter [symmetric]) (metis lexc_def lexc_normalize)
  have parts: "lexc (literal_prefix_loop pre (parts ?raw)) = lexc pre @ takeWhile is_literal (parts ?raw)" for pre
    using wf_parts [of _ ?raw] normals_parts_utf8 [OF assms] by (intro lexc_literal_prefix_loop) auto
  have "lexc ''/'' = [RootDir]" by code_simp
  with parts [of "''/''"] parts [of "[]"] show ?thesis
    unfolding loop by (simp add: lexc_eq [of ?raw] path_push_def is_literal_def)
qed

text \<open>
  The documented behaviour of the glob library the search roots rely on: a pattern without
  metacharacters matches its own text and nothing else.
\<close>

definition literal_globs_exact :: "glob_builder \<Rightarrow> bool" where
  "literal_globs_exact build \<longleftrightarrow>
     (\<forall>s m x. build s = Inr m \<longrightarrow> \<not> contains_glob_meta s \<longrightarrow> (m x \<longleftrightarrow> x = s))"

lemma glob_spec_literal_prefix:
  assumes "glob_spec (zip cs ms) path" and "list_all2 (\<lambda>c m. build c = Inr m) cs ms"
    and "literal_globs_exact build"
  shows "prefix (takeWhile (\<lambda>c. \<not> contains_glob_meta c) cs) path"
  using assms(1,2)
proof (induction cs arbitrary: ms path)
  case (Cons c cs)
  then obtain m ms' where ms: "ms = m # ms'" "build c = Inr m" "list_all2 (\<lambda>c m. build c = Inr m) cs ms'"
    by (auto simp: list_all2_Cons1)
  show ?case
  proof (cases "contains_glob_meta c")
    case False
    moreover have "contains_glob_meta ''**''" by code_simp
    ultimately obtain p rest where p: "path = p # rest" "m p" "glob_spec (zip cs ms') rest"
      using Cons.prems(1) ms by (auto split: if_splits list.splits)
    then have "p = c" using ms(2) False assms(3) unfolding literal_globs_exact_def by blast
    with p Cons.IH ms False show ?thesis by auto
  qed simp
qed simp

lemma takeWhile_literal_map: "takeWhile is_literal (map Normal ns) = map Normal (takeWhile (\<lambda>c. \<not> contains_glob_meta c) ns)"
  by (induction ns) (auto simp: is_literal_def)

text \<open>The literal components of a pattern start every component list it matches.\<close>

lemma pattern_components_match:
  assumes "pattern_new build raw absolute = Inr pat" and "is_utf8 raw" and "literal_globs_exact build"
    and "glob_components_match (pat_components pat) (pat_matchers pat) comps"
  obtains ns where "parts (literal_prefix pat) = map Normal ns" and "prefix ns comps"
    and "is_absolute (literal_prefix pat) \<longleftrightarrow> absolute"
proof
  note new = pattern_new_Inr [OF assms(1)]
  let ?cs = "normals (parts raw)"
  have cs: "pat_components pat = ?cs" using new(6) lossy_normals_utf8 [OF assms(2)] by simp
  have lex: "lexc (literal_prefix pat) = takeWhile is_literal (lexc raw)"
    using lexc_literal_prefix [of pat] new(2) assms(2) by simp
  have raw: "lexc raw = (if absolute then [RootDir] else []) @ map Normal ?cs"
    using new(4) parts_normals [OF new(5)] by (simp add: lexc_eq)
  have lp: "lexc (literal_prefix pat) =
      (if absolute then [RootDir] else []) @ map Normal (takeWhile (\<lambda>c. \<not> contains_glob_meta c) ?cs)"
    unfolding lex raw by (simp add: takeWhile_literal_map is_literal_def)
  show abs: "is_absolute (literal_prefix pat) \<longleftrightarrow> absolute"
    using RootDir_lexc [of "literal_prefix pat"] by (auto simp: lp split: if_splits)
  show "parts (literal_prefix pat) = map Normal (takeWhile (\<lambda>c. \<not> contains_glob_meta c) ?cs)"
    using lp abs by (simp add: lexc_eq split: if_splits)
  show "prefix (takeWhile (\<lambda>c. \<not> contains_glob_meta c) ?cs) comps"
    using glob_spec_literal_prefix [of ?cs "pat_matchers pat" comps build] new(1) assms(3,4)
      glob_components_match_spec [OF wf_pattern_length [OF new(1)]]
    by (simp add: cs wf_pattern_def)
qed

lemma relative_path_components_Some:
  assumes "relative_path_components path root = Some comps"
  shows "map to_string_lossy (normals (parts path)) = map to_string_lossy (normals (parts root)) @ comps"
proof -
  let ?ps = "map to_string_lossy (normals (parts path))" and ?rs = "map to_string_lossy (normals (parts root))"
  have "list_all (\<lambda>(r, p). strings_equal p r) (zip rs ps) \<Longrightarrow> length rs \<le> length ps \<Longrightarrow> ps = rs @ drop (length rs) ps" for rs ps
  proof (induction rs arbitrary: ps)
    case (Cons r rs)
    then show ?case by (cases ps) (auto simp: strings_equal_def)
  qed simp
  from this [of ?rs ?ps] show ?thesis
    using assms by (auto simp: relative_path_components_def path_components_eq split: if_splits)
qed

section \<open>Properties\<close>

text \<open>C23: The table of \<open>glob_components_match\<close> decides the recursive meaning of a component
  pattern: \<open>**\<close> stands for any number of path components and every other component for exactly
  one that its matcher accepts.\<close>

theorem glob_table_computes_spec:
  assumes "pattern_new build raw absolute = Inr pat"
  shows "glob_components_match (pat_components pat) (pat_matchers pat) path \<longleftrightarrow>
     glob_spec (zip (pat_components pat) (pat_matchers pat)) path"
  using glob_components_match_spec [OF wf_pattern_length [OF pattern_new_Inr(1) [OF assms]]] .

text \<open>A builder for examples: a component without metacharacters matches itself, any other matches
  every text.\<close>

definition example_build :: glob_builder where
  "example_build s = (if contains_glob_meta s then Inr (\<lambda>_. True) else Inr (\<lambda>x. x = s))"

lemma example_build_exact: "literal_globs_exact example_build"
  by (auto simp: literal_globs_exact_def example_build_def)

lemma example_pattern:
  "pattern_new example_build ''/a/**/k'' True =
     Inr \<lparr>pat_raw = ''/a/**/k'', pat_absolute = True, pat_prefix = None,
          pat_components = [''a'', ''**'', ''k''],
          pat_matchers = [\<lambda>x. x = ''a'', \<lambda>_. True, \<lambda>x. x = ''k'']\<rparr>"
proof -
  have ascii: "list_all is_ascii ''/a/**/k''" by code_simp
  have lossy: "to_string_lossy ''a'' = ''a''" "to_string_lossy ''**'' = ''**''" "to_string_lossy ''k'' = ''k''"
    by (rule to_string_lossy_valid, rule is_utf8_ascii, code_simp)+
  have norm: "normalize_lexical_path ''/a/**/k'' = ''/a/**/k''"
    and comps: "components ''/a/**/k'' = [RootDir, Normal ''a'', Normal ''**'', Normal ''k'']"
    and meta: "contains_glob_meta ''**''" "\<not> contains_glob_meta ''a''" "\<not> contains_glob_meta ''k''"
    by code_simp+
  have "str_trim ''/a/**/k'' = ''/a/**/k''"
    by (rule str_trim_id)
      (simp add: utf8_chunks_ascii [OF ascii] chunk_is_whitespace_def char_is_whitespace_def)
  then show ?thesis
    by (simp add: pattern_new_def norm comps pattern_step_simps compile_glob_component_def
        case_fold_def lossy example_build_def meta)
qed

theorem glob_table_computes_spec_witness:
  "glob_components_match [''a'', ''**'', ''k''] [\<lambda>x. x = ''a'', \<lambda>_. True, \<lambda>x. x = ''k''] [''a'', ''b'', ''k'']
   \<longleftrightarrow> glob_spec [(''a'', \<lambda>x. x = ''a''), (''**'', \<lambda>_. True), (''k'', \<lambda>x. x = ''k'')] [''a'', ''b'', ''k'']"
  using glob_table_computes_spec [OF example_pattern, of "[''a'', ''b'', ''k'']"] by simp

text \<open>C26: The literal prefix of a glob is a sound search root. For a glob library whose patterns
  without metacharacters match only themselves, every traversal-free absolute UTF-8 path a pattern
  matches lies inside its literal prefix, or for a workspace pattern inside the prefix joined to one
  of the workspace roots; a backend that scans only below those roots misses no denied path.\<close>

theorem literal_prefix_covers_matches:
  assumes "pattern_new build raw absolute = Inr pat" and "literal_globs_exact build" and "is_utf8 raw"
    and "pattern_matches pat path c" and "valid_absolute path" and "is_utf8 path"
    and "wf_context c" and "list_all is_utf8 (workspace_roots c)"
  shows "if absolute then is_within path (literal_prefix pat)
     else (\<exists>root \<in> set (workspace_roots c). is_within path (path_join root (literal_prefix pat)))"
proof (cases absolute)
  case True
  have "glob_components_match (pat_components pat) (pat_matchers pat) (normals (parts path))"
    using assms(4,6) True pattern_new_Inr(3) [OF assms(1)]
    by (simp add: pattern_matches_def path_components_eq lossy_normals_utf8)
  from pattern_components_match [OF assms(1,3,2) this] obtain ns
    where "parts (literal_prefix pat) = map Normal ns" "prefix ns (normals (parts path))"
      "is_absolute (literal_prefix pat) \<longleftrightarrow> absolute" .
  with True assms(5) parts_normals [of path] show ?thesis
    by (simp add: is_within_parts valid_absolute_def contains_parent_traversal_iff) (metis map_mono_prefix)
next
  case False
  then obtain root comps where root: "root \<in> set (workspace_roots c)"
    and comps: "relative_path_components path root = Some comps"
    and glob: "glob_components_match (pat_components pat) (pat_matchers pat) comps"
    using assms(4) pattern_new_Inr(3) [OF assms(1)]
    by (auto simp: pattern_matches_def list_ex_iff split: option.splits)
  have vroot: "valid_absolute root" and "is_utf8 root"
    using root assms(7,8) by (auto simp: wf_context_def wf_keyed_paths_def list_all_iff)
  then have path: "normals (parts path) = normals (parts root) @ comps"
    using relative_path_components_Some [OF comps] assms(6) by (simp add: lossy_normals_utf8)
  from pattern_components_match [OF assms(1,3,2) glob] obtain ns
    where lp: "parts (literal_prefix pat) = map Normal ns" "prefix ns comps"
      "is_absolute (literal_prefix pat) \<longleftrightarrow> absolute" .
  have "lexc (path_join root (literal_prefix pat)) = lexc root @ map Normal ns"
    using lp False by (simp add: lexc_push)
  then have "parts (path_join root (literal_prefix pat)) = parts root @ map Normal ns"
    and "is_absolute (path_join root (literal_prefix pat))"
    using vroot RootDir_lexc [of "path_join root (literal_prefix pat)"]
    by (auto simp: lexc_eq [of root] valid_absolute_def lexc_eq [of "path_join root (literal_prefix pat)"]
        split: if_splits)
  moreover have "parts path = map Normal (normals (parts root) @ comps)"
    using parts_normals [of path] path assms(5) by (simp add: valid_absolute_def contains_parent_traversal_iff)
  moreover have "parts root = map Normal (normals (parts root))"
    using parts_normals vroot by (simp add: valid_absolute_def contains_parent_traversal_iff)
  ultimately have "is_within path (path_join root (literal_prefix pat))"
    using lp(2) assms(5) map_mono_prefix [of ns comps Normal]
    by (auto simp: is_within_parts valid_absolute_def contains_parent_traversal_iff)
  with False root show ?thesis by auto
qed

theorem literal_prefix_covers_matches_witness:
  "\<exists>pat. pattern_new example_build ''/a/**/k'' True = Inr pat \<and> is_within ''/a/b/k'' (literal_prefix pat)"
proof -
  let ?pat = "\<lparr>pat_raw = ''/a/**/k'', pat_absolute = True, pat_prefix = None,
          pat_components = [''a'', ''**'', ''k''],
          pat_matchers = [\<lambda>x. x = ''a'', \<lambda>_. True, \<lambda>x. x = ''k'']\<rparr>"
  have utf8: "is_utf8 ''/a/**/k''" "is_utf8 ''/a/b/k''"
    by (rule is_utf8_ascii, code_simp)+
  have parts: "normals (parts ''/a/b/k'') = [''a'', ''b'', ''k'']" and valid: "valid_absolute ''/a/b/k''"
    by code_simp+
  have comps: "path_components ''/a/b/k'' = (None, [''a'', ''b'', ''k''])"
    using lossy_normals_utf8 [OF utf8(2)] unfolding path_components_eq parts by simp
  have "glob_components_match [''a'', ''**'', ''k''] [\<lambda>x. x = ''a'', \<lambda>_. True, \<lambda>x. x = ''k''] [''a'', ''b'', ''k'']"
    by code_simp
  then have "pattern_matches ?pat ''/a/b/k'' context_new"
    by (simp add: pattern_matches_def comps)
  from literal_prefix_covers_matches [OF example_pattern example_build_exact utf8(1) this valid utf8(2) wf_context_new]
  have "is_within ''/a/b/k'' (literal_prefix ?pat)" by (simp add: context_new_def)
  with example_pattern show ?thesis by blast
qed

end
