(* ===== verification/Filesystem_Policy.thy ===== *)
theory Filesystem_Policy
  imports Glob_Pattern "HOL-Library.Multiset"
begin

text \<open>
  Filesystem policies (\<open>cageforge-policy/src/filesystem.rs\<close>): rules, their construction and
  validation, the collapse of duplicate targets, and the access decision. The decision loop is
  modelled with its early return on a deny; the lemmas show that it computes a sum of per-rule
  verdicts in a commutative monoid, from which the order independence of the rules and the
  effect of \<open>normalized\<close> follow.
\<close>

section \<open>Rules (filesystem.rs)\<close>

datatype filesystem_mode = FsRestricted | FsUnrestricted | FsExternal

datatype filesystem_target = Scope path_selector | Glob path_pattern

text \<open>The hash-map key of a target; selectors are identified by what their \<open>Eq\<close> compares.\<close>

datatype filesystem_target_key =
    ScopeKey "nat \<times> native_component_key list option"
  | GlobKey bool "string option" "string list"

datatype missing_path_behavior = MissingError | MissingSkip

record filesystem_rule =
  rule_target :: filesystem_target
  rule_access :: access_mode
  rule_missing :: missing_path_behavior
  rule_read_only_subpaths :: "path_selector list"

record rule_match =
  match_specificity :: nat
  match_access :: access_mode

fun most_conservative :: "missing_path_behavior \<Rightarrow> missing_path_behavior \<Rightarrow> missing_path_behavior" where
  "most_conservative MissingError _ = MissingError"
| "most_conservative _ MissingError = MissingError"
| "most_conservative MissingSkip MissingSkip = MissingSkip"

definition is_glob :: "filesystem_target \<Rightarrow> bool" where
  "is_glob t = (case t of Glob _ \<Rightarrow> True | Scope _ \<Rightarrow> False)"

definition rule_new :: "path_selector \<Rightarrow> access_mode \<Rightarrow> filesystem_rule" where
  "rule_new selector access =
     \<lparr>rule_target = Scope selector, rule_access = access, rule_missing = MissingError,
      rule_read_only_subpaths = []\<rparr>"

definition rule_from_target :: "filesystem_target \<Rightarrow> access_mode \<Rightarrow> (policy_error, filesystem_rule) rust_result" where
  "rule_from_target target access =
     (if is_glob target \<and> access \<noteq> Deny then Inl (UnsupportedGlobAccess access)
      else Inr \<lparr>rule_target = target, rule_access = access, rule_missing = MissingError,
                rule_read_only_subpaths = []\<rparr>)"

definition rule_absolute_glob :: "glob_builder \<Rightarrow> string \<Rightarrow> access_mode \<Rightarrow> (policy_error, filesystem_rule) rust_result" where
  "rule_absolute_glob build pattern access =
     and_then (pattern_absolute build pattern) (\<lambda>p. rule_from_target (Glob p) access)"

definition rule_workspace_glob :: "glob_builder \<Rightarrow> string \<Rightarrow> access_mode \<Rightarrow> (policy_error, filesystem_rule) rust_result" where
  "rule_workspace_glob build pattern access =
     and_then (pattern_workspace build pattern) (\<lambda>p. rule_from_target (Glob p) access)"

definition with_missing_path_behavior :: "filesystem_rule \<Rightarrow> missing_path_behavior \<Rightarrow> filesystem_rule" where
  "with_missing_path_behavior r b = r\<lparr>rule_missing := b\<rparr>"

definition with_read_only_subpath ::
  "filesystem_rule \<Rightarrow> path_selector \<Rightarrow> (policy_error, filesystem_rule) rust_result" where
  "with_read_only_subpath r selector =
     (if rule_access r \<noteq> Write
      then Inl (InvalidRule ''read-only subpaths require a writable parent rule'')
      else if (case rule_target r of Scope parent \<Rightarrow> is_definitely_outside selector parent | Glob _ \<Rightarrow> False)
      then Inl (InvalidRule ''read-only subpath must be below the writable parent rule'')
      else Inr (r\<lparr>rule_read_only_subpaths := rule_read_only_subpaths r @ [selector]\<rparr>))"

text \<open>\<open>Iterator::max\<close>.\<close>

fun iter_max :: "nat list \<Rightarrow> nat option" where
  "iter_max [] = None"
| "iter_max (x # xs) = (case iter_max xs of None \<Rightarrow> Some x | Some m \<Rightarrow> Some (max x m))"

text \<open>The deepest resolution of a selector that contains \<open>path\<close>.\<close>

definition scope_match :: "string \<Rightarrow> path_context \<Rightarrow> path_selector \<Rightarrow> nat option" where
  "scope_match path c selector =
     iter_max (map normal_component_count (filter (\<lambda>root. is_within path root) (selector_resolve selector c)))"

definition subpath_step ::
  "string \<Rightarrow> path_context \<Rightarrow> access_mode \<times> nat \<Rightarrow> path_selector \<Rightarrow> access_mode \<times> nat" where
  "subpath_step path c st subpath =
     (case st of (access, specificity) \<Rightarrow>
       (case scope_match path c subpath of
          Some subpath_specificity \<Rightarrow> (Read, max specificity subpath_specificity)
        | None \<Rightarrow> (access, specificity)))"

definition target_match :: "string \<Rightarrow> path_context \<Rightarrow> filesystem_target \<Rightarrow> nat option" where
  "target_match path c target =
     (case target of
        Scope selector \<Rightarrow> scope_match path c selector
      | Glob pattern \<Rightarrow> if pattern_matches pattern path c then Some (pattern_specificity pattern) else None)"

definition matches_path :: "filesystem_rule \<Rightarrow> string \<Rightarrow> path_context \<Rightarrow> rule_match option" where
  "matches_path r path c =
     (case target_match path c (rule_target r) of
        None \<Rightarrow> None
      | Some specificity \<Rightarrow>
          (case (if rule_access r = Write
                 then foldl (subpath_step path c) (rule_access r, specificity) (rule_read_only_subpaths r)
                 else (rule_access r, specificity)) of
             (access, specificity') \<Rightarrow>
               Some \<lparr>match_specificity = specificity', match_access = access\<rparr>))"

definition rule_validate :: "filesystem_rule \<Rightarrow> (policy_error, unit) rust_result" where
  "rule_validate r =
     (if is_glob (rule_target r) \<and> rule_access r \<noteq> Deny
      then Inl (UnsupportedGlobAccess (rule_access r)) else Inr ())"

section \<open>Policies (filesystem.rs)\<close>

record filesystem_policy =
  fs_mode :: filesystem_mode
  fs_entries :: "filesystem_rule list"
  fs_glob_scan_max_depth :: "nat option"
  fs_protected :: "string list"

definition fs_restricted :: "filesystem_rule list \<Rightarrow> filesystem_policy" where
  "fs_restricted entries =
     \<lparr>fs_mode = FsRestricted, fs_entries = entries, fs_glob_scan_max_depth = None, fs_protected = [''.git'']\<rparr>"

definition fs_unrestricted :: filesystem_policy where
  "fs_unrestricted =
     \<lparr>fs_mode = FsUnrestricted, fs_entries = [], fs_glob_scan_max_depth = None, fs_protected = []\<rparr>"

definition fs_external :: filesystem_policy where
  "fs_external =
     \<lparr>fs_mode = FsExternal, fs_entries = [], fs_glob_scan_max_depth = None, fs_protected = []\<rparr>"

definition with_glob_scan_max_depth :: "filesystem_policy \<Rightarrow> nat \<Rightarrow> (policy_error, filesystem_policy) rust_result" where
  "with_glob_scan_max_depth p depth =
     (if fs_mode p \<noteq> FsRestricted
      then Inl (InvalidRule ''glob scan depth requires a restricted filesystem policy'')
      else Inr (p\<lparr>fs_glob_scan_max_depth := Some depth\<rparr>))"

definition protected_step :: "string \<Rightarrow> string \<Rightarrow> component \<Rightarrow> (policy_error, string) rust_result" where
  "protected_step path normalized c =
     (case c of
        CurDir \<Rightarrow> Inr normalized
      | Normal part \<Rightarrow> Inr (path_push normalized part)
      | _ \<Rightarrow> Inl (InvalidProtectedPath path ''path must not contain parent traversal or a root''))"

definition validate_protected_relative_path :: "string \<Rightarrow> (policy_error, string) rust_result" where
  "validate_protected_relative_path path =
     (if path = [] then Inl (InvalidProtectedPath path ''path must not be empty'')
      else if contains_nul path then Inl (InvalidProtectedPath path ''path must not contain a NUL character'')
      else if is_absolute path then Inl (InvalidProtectedPath path ''path must be relative'')
      else and_then (try_fold (protected_step path) [] (components path))
             (\<lambda>normalized. if normalized = []
                then Inl (InvalidProtectedPath path ''path must name a descendant'') else Inr normalized))"

definition with_additional_protected_relative_path ::
  "filesystem_policy \<Rightarrow> string \<Rightarrow> (policy_error, filesystem_policy) rust_result" where
  "with_additional_protected_relative_path p path =
     (if fs_mode p \<noteq> FsRestricted
      then Inl (InvalidRule ''protected paths require a restricted filesystem policy'')
      else and_then (validate_protected_relative_path path)
             (\<lambda>q. Inr (p\<lparr>fs_protected := push_absent paths_equal (fs_protected p) q\<rparr>)))"

definition dangerously_allow_git_write :: "filesystem_policy \<Rightarrow> filesystem_policy" where
  "dangerously_allow_git_write p =
     p\<lparr>fs_protected := filter (\<lambda>path. \<not> paths_equal path ''.git'') (fs_protected p)\<rparr>"

definition fs_with_rule :: "filesystem_policy \<Rightarrow> filesystem_rule \<Rightarrow> (policy_error, filesystem_policy) rust_result" where
  "fs_with_rule p r =
     (if fs_mode p \<noteq> FsRestricted
      then Inl (InvalidRule ''filesystem rules require a restricted filesystem policy'')
      else and_then (rule_validate r) (\<lambda>_. Inr (p\<lparr>fs_entries := fs_entries p @ [r]\<rparr>)))"

definition entry_validate :: "unit \<Rightarrow> filesystem_rule \<Rightarrow> (policy_error, unit) rust_result" where
  "entry_validate u r =
     and_then (rule_validate r)
       (\<lambda>_. if rule_access r \<noteq> Write \<and> rule_read_only_subpaths r \<noteq> []
             then Inl (InvalidRule ''read-only subpaths require a writable parent rule'') else Inr ())"

definition fs_validate :: "filesystem_policy \<Rightarrow> (policy_error, unit) rust_result" where
  "fs_validate p =
     (if fs_mode p \<noteq> FsRestricted
         \<and> (fs_entries p \<noteq> [] \<or> fs_glob_scan_max_depth p \<noteq> None \<or> fs_protected p \<noteq> [])
      then Inl (InvalidRule ''unrestricted and external filesystem policies cannot contain local settings'')
      else and_then (try_fold entry_validate () (fs_entries p))
             (\<lambda>_. try_fold (\<lambda>_ path. and_then (validate_protected_relative_path path) (\<lambda>_. Inr ()))
                    () (fs_protected p)))"

definition target_key :: "filesystem_target \<Rightarrow> filesystem_target_key" where
  "target_key t =
     (case t of
        Scope selector \<Rightarrow> ScopeKey (selector_hash selector)
      | Glob pattern \<Rightarrow> (case semantic_key pattern of (absolute, pre, comps) \<Rightarrow> GlobKey absolute pre comps))"

definition rule_key :: "filesystem_rule \<Rightarrow> filesystem_target_key" where
  "rule_key r = target_key (rule_target r)"

text \<open>The body of the merge in \<open>normalized\<close>.\<close>

definition merge_rule :: "filesystem_rule \<Rightarrow> filesystem_rule \<Rightarrow> filesystem_rule" where
  "merge_rule existing r =
     (let access = most_restrictive (rule_access existing) (rule_access r);
          missing = most_conservative (rule_missing existing) (rule_missing r);
          subpaths = foldl (push_absent selectors_equal) (rule_read_only_subpaths existing)
                       (rule_read_only_subpaths r)
      in existing\<lparr>rule_access := access, rule_missing := missing,
                  rule_read_only_subpaths := (if access \<noteq> Write then [] else subpaths)\<rparr>)"

definition fs_normalized :: "filesystem_policy \<Rightarrow> (policy_error, filesystem_policy) rust_result" where
  "fs_normalized p =
     and_then (fs_validate p)
       (\<lambda>_. if fs_mode p \<noteq> FsRestricted then Inr p
             else Inr (p\<lparr>fs_entries := collapse rule_key merge_rule (fs_entries p)\<rparr>))"

definition is_protected_path :: "filesystem_policy \<Rightarrow> string \<Rightarrow> bool" where
  "is_protected_path p path = list_ex (\<lambda>protected. contains_component_path path protected) (fs_protected p)"

definition better_match :: "rule_match option \<Rightarrow> rule_match \<Rightarrow> rule_match" where
  "better_match best candidate =
     (case best of
        None \<Rightarrow> candidate
      | Some current \<Rightarrow>
          if match_specificity current > match_specificity candidate then current
          else if match_specificity current = match_specificity candidate
          then \<lparr>match_specificity = match_specificity current,
                match_access = most_restrictive (match_access current) (match_access candidate)\<rparr>
          else candidate)"

text \<open>The rule loop; \<open>None\<close> is the early return with a deny.\<close>

fun scan_rules ::
  "string \<Rightarrow> path_context \<Rightarrow> rule_match option \<Rightarrow> bool \<Rightarrow> filesystem_rule list \<Rightarrow> (rule_match option \<times> bool) option" where
  "scan_rules path c best writable [] = Some (best, writable)"
| "scan_rules path c best writable (r # rs) =
     (case matches_path r path c of
        None \<Rightarrow> scan_rules path c best writable rs
      | Some candidate \<Rightarrow>
          if match_access candidate = Deny then None
          else scan_rules path c (Some (better_match best candidate))
                 (writable \<or> match_access candidate = Write) rs)"

definition fs_access_for_path ::
  "filesystem_policy \<Rightarrow> string \<Rightarrow> path_context \<Rightarrow> (policy_error, filesystem_decision) rust_result" where
  "fs_access_for_path p path c =
     (if contains_nul path then Inl (PathContainsNul path)
      else if \<not> is_absolute path then Inl (ExpectedAbsolute path)
      else if contains_parent_traversal path then Inl (ParentTraversalError path)
      else (case fs_mode p of
              FsUnrestricted \<Rightarrow> Inr FsWrite
            | FsExternal \<Rightarrow> Inr FsExternallyEnforced
            | FsRestricted \<Rightarrow>
                (case scan_rules path c None False (fs_entries p) of
                   None \<Rightarrow> Inr FsDeny
                 | Some (best, writable_match) \<Rightarrow>
                     (let access = (case best of None \<Rightarrow> Deny | Some m \<Rightarrow> match_access m)
                      in if writable_match \<and> access = Write \<and> is_protected_path p path
                         then Inr FsRead else Inr (decision_of_access access)))))"

fun combine_selector_decision :: "filesystem_decision option \<Rightarrow> filesystem_decision \<Rightarrow> filesystem_decision" where
  "combine_selector_decision (Some FsDeny) _ = FsDeny"
| "combine_selector_decision _ FsDeny = FsDeny"
| "combine_selector_decision (Some FsRead) _ = FsRead"
| "combine_selector_decision _ FsRead = FsRead"
| "combine_selector_decision (Some FsWrite) FsWrite = FsWrite"
| "combine_selector_decision None d = d"
| "combine_selector_decision (Some FsExternallyEnforced) d = d"
| "combine_selector_decision (Some d) FsExternallyEnforced = d"

definition fs_access_for ::
  "filesystem_policy \<Rightarrow> path_selector \<Rightarrow> path_context \<Rightarrow> (policy_error, filesystem_decision) rust_result" where
  "fs_access_for p selector c =
     (if fs_mode p = FsExternal then Inr FsExternallyEnforced
      else and_then
             (try_fold (\<lambda>result path. and_then (fs_access_for_path p path c)
                 (\<lambda>d. Inr (Some (combine_selector_decision result d)))) None (selector_resolve selector c))
             (\<lambda>result. Inr (case result of None \<Rightarrow> FsDeny | Some d \<Rightarrow> d)))"

section \<open>Verdicts\<close>

text \<open>What a set of matching rules says: nothing, an access at a specificity, or a deny.\<close>

datatype verdict = VNone | VAt nat access_mode | VDeny

instantiation verdict :: comm_monoid_add
begin

definition zero_verdict :: verdict where
  "0 = VNone"

fun plus_verdict :: "verdict \<Rightarrow> verdict \<Rightarrow> verdict" where
  "plus_verdict VDeny _ = VDeny"
| "plus_verdict _ VDeny = VDeny"
| "plus_verdict VNone v = v"
| "plus_verdict v VNone = v"
| "plus_verdict (VAt s a) (VAt t b) =
     (if s > t then VAt s a else if s = t then VAt s (most_restrictive a b) else VAt t b)"

instance
proof
  fix a b c :: verdict
  show "a + b + c = a + (b + c)"
    by (cases a; cases b; cases c) (auto simp: restrictive.meet_assoc)
  show "a + b = b + a"
    by (cases a; cases b) (auto simp: restrictive.meet_comm)
  show "0 + a = a"
    by (cases a) (simp_all add: zero_verdict_def)
qed

end

lemma verdict_zero [simp]: "VNone = 0"
  by (simp add: zero_verdict_def)

lemma verdict_zero_distinct [simp]:
  "(0 :: verdict) \<noteq> VDeny" "VDeny \<noteq> 0" "0 \<noteq> VAt s a" "VAt s a \<noteq> 0"
  by (simp_all flip: verdict_zero)

lemma plus_verdict_deny [simp]: "VDeny + v = VDeny" "v + VDeny = VDeny"
  by (cases v; simp)+

definition match_verdict :: "rule_match option \<Rightarrow> verdict" where
  "match_verdict m =
     (case m of None \<Rightarrow> 0 | Some m \<Rightarrow> if match_access m = Deny then VDeny else VAt (match_specificity m) (match_access m))"

definition rule_verdict :: "string \<Rightarrow> path_context \<Rightarrow> filesystem_rule \<Rightarrow> verdict" where
  "rule_verdict path c r = match_verdict (matches_path r path c)"

definition verdict_access :: "verdict \<Rightarrow> access_mode" where
  "verdict_access v = (case v of VAt _ a \<Rightarrow> a | _ \<Rightarrow> Deny)"

lemma verdict_access_simps [simp]:
  "verdict_access 0 = Deny" "verdict_access VDeny = Deny" "verdict_access (VAt s a) = a"
  by (simp_all add: verdict_access_def flip: verdict_zero)

definition best_ok :: "rule_match option \<Rightarrow> bool" where
  "best_ok best = (case best of None \<Rightarrow> True | Some m \<Rightarrow> match_access m \<noteq> Deny)"

lemma better_match_verdict:
  "best_ok best \<Longrightarrow> match_access m \<noteq> Deny \<Longrightarrow>
     match_verdict (Some (better_match best m)) = match_verdict best + match_verdict (Some m)
     \<and> best_ok (Some (better_match best m))"
  by (cases best) (auto simp: match_verdict_def better_match_def best_ok_def)

lemma scan_rules_verdict:
  assumes "best_ok best" and "writable \<or> (\<forall>m. best = Some m \<longrightarrow> match_access m \<noteq> Write)"
  shows "(case scan_rules path c best writable rs of
      None \<Rightarrow> match_verdict best + sum_list (map (rule_verdict path c) rs) = VDeny
    | Some (b, w) \<Rightarrow> best_ok b \<and> match_verdict b = match_verdict best + sum_list (map (rule_verdict path c) rs)
        \<and> (w \<or> (\<forall>m. b = Some m \<longrightarrow> match_access m \<noteq> Write)))"
  using assms
proof (induction rs arbitrary: best writable)
  case (Cons r rs)
  show ?case
  proof (cases "matches_path r path c")
    case None
    then have scan: "scan_rules path c best writable (r # rs) = scan_rules path c best writable rs"
      and "rule_verdict path c r = 0"
      by (simp_all add: rule_verdict_def match_verdict_def)
    then have sum: "sum_list (map (rule_verdict path c) (r # rs)) = sum_list (map (rule_verdict path c) rs)"
      by simp
    show ?thesis unfolding scan sum by (rule Cons.IH [OF Cons.prems])
  next
    case (Some m)
    show ?thesis
    proof (cases "match_access m = Deny")
      case True
      with Some show ?thesis by (simp add: rule_verdict_def match_verdict_def)
    next
      case False
      let ?b = "Some (better_match best m)" and ?w = "writable \<or> match_access m = Write"
      note better = better_match_verdict [OF Cons.prems(1) False]
      have w: "?w \<or> (\<forall>x. ?b = Some x \<longrightarrow> match_access x \<noteq> Write)"
        using Cons.prems(2) by (auto simp: better_match_def split: option.splits if_splits)
      have sum: "match_verdict best + sum_list (map (rule_verdict path c) (r # rs))
          = match_verdict ?b + sum_list (map (rule_verdict path c) rs)"
        using better Some by (simp add: rule_verdict_def add.assoc)
      have scan: "scan_rules path c best writable (r # rs) = scan_rules path c ?b ?w rs"
        using Some False by simp
      show ?thesis unfolding scan sum by (rule Cons.IH) (use better w in auto)
    qed
  qed
qed simp

definition path_rejected :: "string \<Rightarrow> policy_error option" where
  "path_rejected path =
     (if CHR 0x00 \<in> set path then Some (PathContainsNul path)
      else if \<not> is_absolute path then Some (ExpectedAbsolute path)
      else if contains_parent_traversal path then Some (ParentTraversalError path)
      else None)"

lemma path_rejected_None: "path_rejected path = None \<longleftrightarrow> valid_absolute path"
  by (simp add: path_rejected_def valid_absolute_def)

definition verdict_decision :: "filesystem_policy \<Rightarrow> string \<Rightarrow> verdict \<Rightarrow> filesystem_decision" where
  "verdict_decision p path v =
     (if verdict_access v = Write \<and> is_protected_path p path then FsRead
      else decision_of_access (verdict_access v))"

lemma fs_access_for_path_verdict:
  "fs_access_for_path p path c =
     (case path_rejected path of
        Some e \<Rightarrow> Inl e
      | None \<Rightarrow> Inr (case fs_mode p of FsUnrestricted \<Rightarrow> FsWrite | FsExternal \<Rightarrow> FsExternallyEnforced
          | FsRestricted \<Rightarrow> verdict_decision p path (sum_list (map (rule_verdict path c) (fs_entries p)))))"
proof -
  have "(case scan_rules path c None False (fs_entries p) of
           None \<Rightarrow> Inr FsDeny
         | Some (best, writable_match) \<Rightarrow>
             (let access = (case best of None \<Rightarrow> Deny | Some m \<Rightarrow> match_access m)
              in if writable_match \<and> access = Write \<and> is_protected_path p path
                 then Inr FsRead else Inr (decision_of_access access)))
      = (Inr (verdict_decision p path (sum_list (map (rule_verdict path c) (fs_entries p))))
          :: (policy_error, filesystem_decision) rust_result)"
  proof (cases "scan_rules path c None False (fs_entries p)")
    case None
    with scan_rules_verdict [of None False path c "fs_entries p"]
    have "sum_list (map (rule_verdict path c) (fs_entries p)) = VDeny"
      by (simp add: best_ok_def match_verdict_def)
    with None show ?thesis by (simp add: verdict_decision_def)
  next
    case (Some bw)
    obtain b w where bw: "bw = (b, w)" by (rule prod.exhaust)
    from scan_rules_verdict [of None False path c "fs_entries p"] Some bw
    have "best_ok b" and sum: "match_verdict b = sum_list (map (rule_verdict path c) (fs_entries p))"
      and "w \<or> (\<forall>m. b = Some m \<longrightarrow> match_access m \<noteq> Write)"
      by (simp_all add: best_ok_def match_verdict_def)
    moreover have "verdict_access (match_verdict b) = (case b of None \<Rightarrow> Deny | Some m \<Rightarrow> match_access m)"
      using \<open>best_ok b\<close> by (auto simp: best_ok_def match_verdict_def split: option.splits)
    ultimately show ?thesis
      unfolding Some bw sum [symmetric] by (cases b) (auto simp: verdict_decision_def Let_def)
  qed
  then show ?thesis
    by (simp add: fs_access_for_path_def path_rejected_def contains_nul_iff split: filesystem_mode.splits)
qed

section \<open>The verdict of a list of matches\<close>

definition matching :: "filesystem_policy \<Rightarrow> string \<Rightarrow> path_context \<Rightarrow> rule_match list" where
  "matching p path c = List.map_filter (\<lambda>r. matches_path r path c) (fs_entries p)"

lemma sum_rule_verdicts:
  "sum_list (map (rule_verdict path c) rs) =
     sum_list (map (\<lambda>m. match_verdict (Some m)) (List.map_filter (\<lambda>r. matches_path r path c) rs))"
  by (induction rs) (auto simp: rule_verdict_def match_verdict_def map_filter_Cons split: option.splits)

lemma sum_match_verdicts:
  "sum_list (map (\<lambda>m. match_verdict (Some m)) ms) =
     (if ms = [] then 0
      else if \<exists>m \<in> set ms. match_access m = Deny then VDeny
      else VAt (Max (match_specificity ` set ms))
             (if \<exists>m \<in> set ms. match_specificity m = Max (match_specificity ` set ms) \<and> match_access m = Read
              then Read else Write))"
proof (induction ms)
  case (Cons m ms)
  show ?case
  proof (cases "ms = [] \<or> (\<exists>m \<in> set ms. match_access m = Deny) \<or> match_access m = Deny")
    case True
    with Cons show ?thesis by (cases "match_access m") (auto simp: match_verdict_def)
  next
    case False
    define M where "M = Max (match_specificity ` set ms)"
    have ne: "match_specificity ` set ms \<noteq> {}" using False by simp
    then have max: "Max (match_specificity ` set (m # ms)) = max (match_specificity m) M"
      by (simp add: M_def)
    have bound: "\<forall>x \<in> set ms. match_specificity x \<le> M" by (simp add: M_def)
    have nd: "\<forall>x \<in> set (m # ms). match_access x \<noteq> Deny" using False by auto
    have IH: "sum_list (map (\<lambda>m. match_verdict (Some m)) ms) =
        VAt M (if \<exists>m \<in> set ms. match_specificity m = M \<and> match_access m = Read then Read else Write)"
      using Cons False by (simp add: M_def)
    have m: "match_verdict (Some m) = VAt (match_specificity m) (match_access m)"
      using nd by (simp add: match_verdict_def)
    have none: "\<exists>x \<in> set (m # ms). match_access x = Deny \<Longrightarrow> False" using nd by auto
    consider "match_specificity m > M" | "match_specificity m = M" | "match_specificity m < M"
      by linarith
    then have "match_verdict (Some m) + sum_list (map (\<lambda>m. match_verdict (Some m)) ms) =
        VAt (max (match_specificity m) M)
          (if \<exists>x \<in> set (m # ms). match_specificity x = max (match_specificity m) M \<and> match_access x = Read
           then Read else Write)"
    proof cases
      case 1
      with bound have "\<forall>x \<in> set ms. match_specificity x \<noteq> match_specificity m" by fastforce
      with 1 nd show ?thesis
        unfolding IH m by (cases "match_access m") (auto simp: max_def)
    next
      case 2
      with nd show ?thesis
        unfolding IH m by (cases "match_access m") auto
    next
      case 3
      with nd show ?thesis
        unfolding IH m by (cases "match_access m") (auto simp: max_def)
    qed
    with none max show ?thesis by auto
  qed
qed simp

section \<open>Verdicts under merging\<close>

lemma verdict_idem: "(v :: verdict) + v = v"
  by (cases v) (auto simp: restrictive.meet_idem)

lemma scope_match_cong:
  assumes "selectors_equal a b"
  shows "scope_match path c a = scope_match path c b"
proof -
  have "list_all2 paths_equal xs ys \<Longrightarrow>
      map normal_component_count (filter (is_within path) xs) = map normal_component_count (filter (is_within path) ys)" for xs ys
  proof (induction rule: list_all2_induct)
    case (Cons x xs y ys)
    then show ?case
      using is_within_cong [of path path x y]
      by (simp add: native_paths.same_refl normal_component_count_lexc paths_equal_lexc)
  qed simp
  from this [OF selectors_equal_resolve [OF assms]] show ?thesis
    by (simp add: scope_match_def)
qed

definition wf_target :: "glob_builder \<Rightarrow> filesystem_target \<Rightarrow> bool" where
  "wf_target build t = (case t of Scope _ \<Rightarrow> True | Glob pattern \<Rightarrow> wf_pattern build pattern)"

lemma target_match_cong:
  assumes "target_key s = target_key t" and "wf_target build s" and "wf_target build t"
  shows "target_match path c s = target_match path c t"
proof (cases s)
  case (Scope a)
  with assms obtain b where "t = Scope b" "selector_hash a = selector_hash b"
    by (cases t) (auto simp: target_key_def split: prod.splits)
  with Scope scope_match_cong [of a b] show ?thesis
    by (simp add: target_match_def selectors_equal_hash)
next
  case (Glob a)
  with assms obtain b where t: "t = Glob b" "semantic_key a = semantic_key b"
    by (cases t) (auto simp: target_key_def split: prod.splits)
  with assms Glob have "wf_pattern build a" "wf_pattern build b" by (simp_all add: wf_target_def)
  with t Glob show ?thesis
    using semantic_key_matches [of a b build] by (simp add: target_match_def)
qed

definition sub_verdict :: "string \<Rightarrow> path_context \<Rightarrow> nat \<Rightarrow> path_selector \<Rightarrow> verdict" where
  "sub_verdict path c s sub = (case scope_match path c sub of None \<Rightarrow> 0 | Some k \<Rightarrow> VAt (max s k) Read)"

lemma sub_verdict_cong: "selectors_equal a b \<Longrightarrow> sub_verdict path c s a = sub_verdict path c s b"
  by (simp add: sub_verdict_def scope_match_cong)

lemma sum_push_absent:
  "sum_list (map (sub_verdict path c s) (push_absent selectors_equal xs x)) =
     sum_list (map (sub_verdict path c s) xs) + sub_verdict path c s x"
proof (cases "list_ex (\<lambda>y. selectors_equal y x) xs")
  case True
  then obtain y where "y \<in> set xs" "sub_verdict path c s y = sub_verdict path c s x"
    by (auto simp: list_ex_iff sub_verdict_cong)
  then have "sum_list (map (sub_verdict path c s) xs) + sub_verdict path c s x
      = sum_list (map (sub_verdict path c s) xs)"
    by (induction xs) (auto simp: add.assoc, metis add.commute add.assoc verdict_idem)
  with True show ?thesis by (simp add: push_absent_def)
qed (simp add: push_absent_def)

lemma sum_push_absent_list:
  "sum_list (map (sub_verdict path c s) (foldl (push_absent selectors_equal) xs ys)) =
     sum_list (map (sub_verdict path c s) xs) + sum_list (map (sub_verdict path c s) ys)"
  by (induction ys arbitrary: xs) (simp_all add: sum_push_absent add.assoc)

lemma subpath_fold:
  "foldl (subpath_step path c) (a, s) subs =
     (let ks = List.map_filter (scope_match path c) subs in if ks = [] then (a, s) else (Read, foldl max s ks))"
  by (induction subs arbitrary: a s) (auto simp: subpath_step_def Let_def map_filter_Cons split: option.splits)

lemma foldl_max_sum:
  "VAt s Write + sum_list (map (sub_verdict path c s) subs) =
     (let ks = List.map_filter (scope_match path c) subs in if ks = [] then VAt s Write else VAt (foldl max s ks) Read)"
proof -
  have pull: "VAt t Read + sum_list (map (sub_verdict path c s) ys)
      = VAt (foldl max t (List.map_filter (scope_match path c) ys)) Read" if "s \<le> t" for t ys
    using that
  proof (induction ys arbitrary: t)
    case (Cons x xs)
    show ?case
    proof (cases "scope_match path c x")
      case (Some k)
      have "VAt t Read + sub_verdict path c s x = VAt (max t k) Read"
        using Some Cons.prems by (auto simp: sub_verdict_def max_def)
      with Some Cons.IH [of "max t k"] Cons.prems show ?thesis
        by (simp add: map_filter_Cons flip: add.assoc)
    qed (use Cons in \<open>simp add: sub_verdict_def map_filter_Cons\<close>)
  qed simp
  show ?thesis
  proof (induction subs)
    case (Cons x xs)
    show ?case
    proof (cases "scope_match path c x")
      case None
      with Cons show ?thesis by (simp add: sub_verdict_def map_filter_Cons Let_def)
    next
      case (Some k)
      have "VAt s Write + sub_verdict path c s x = VAt (max s k) Read"
        using Some by (auto simp: sub_verdict_def max_def)
      moreover have "VAt (max s k) Read + sum_list (map (sub_verdict path c s) xs)
          = VAt (foldl max (max s k) (List.map_filter (scope_match path c) xs)) Read"
        using pull by simp
      ultimately show ?thesis
        using Some by (simp add: map_filter_Cons Let_def flip: add.assoc)
    qed
  qed simp
qed

lemma rule_verdict_eq:
  "rule_verdict path c r =
     (case target_match path c (rule_target r) of
        None \<Rightarrow> 0
      | Some s \<Rightarrow>
          (case rule_access r of
             Deny \<Rightarrow> VDeny
           | Read \<Rightarrow> VAt s Read
           | Write \<Rightarrow> VAt s Write + sum_list (map (sub_verdict path c s) (rule_read_only_subpaths r))))"
  by (simp add: rule_verdict_def match_verdict_def matches_path_def subpath_fold foldl_max_sum Let_def
      split: option.split access_mode.split)

text \<open>Rules with a compiled target whose read-only subpaths belong to a writable rule.\<close>

definition wf_rule :: "glob_builder \<Rightarrow> filesystem_rule \<Rightarrow> bool" where
  "wf_rule build r \<longleftrightarrow> wf_target build (rule_target r) \<and> (rule_access r \<noteq> Write \<longrightarrow> rule_read_only_subpaths r = [])"

lemma merge_rule_simps [simp]:
  "rule_target (merge_rule a b) = rule_target a"
  "rule_access (merge_rule a b) = most_restrictive (rule_access a) (rule_access b)"
  by (simp_all add: merge_rule_def Let_def)

lemma wf_merge_rule: "wf_rule build a \<Longrightarrow> wf_rule build b \<Longrightarrow> wf_rule build (merge_rule a b)"
  by (auto simp: wf_rule_def merge_rule_def Let_def)

lemma rule_key_merge: "rule_key (merge_rule a b) = rule_key a"
  by (simp add: rule_key_def)

interpretation fs_merge: keyed_merge rule_key merge_rule
  by standard (rule rule_key_merge)

lemma merge_subpaths:
  "rule_access a = Write \<Longrightarrow> rule_access b = Write \<Longrightarrow>
     rule_read_only_subpaths (merge_rule a b) =
       foldl (push_absent selectors_equal) (rule_read_only_subpaths a) (rule_read_only_subpaths b)"
  "rule_access a \<noteq> Write \<or> rule_access b \<noteq> Write \<Longrightarrow> rule_read_only_subpaths (merge_rule a b) = []"
  by (auto simp: merge_rule_def Let_def)

text \<open>
  A key is mixed when one of its rules grants plain read access and another one is writable with
  read-only subpaths; \<open>reads\<close> is the set of keys with a read rule.
\<close>

definition unmixed_rule :: "glob_builder \<Rightarrow> filesystem_target_key set \<Rightarrow> filesystem_rule \<Rightarrow> bool" where
  "unmixed_rule build reads r \<longleftrightarrow> wf_rule build r \<and>
     (if rule_key r \<in> reads then rule_read_only_subpaths r = [] else rule_access r \<noteq> Read)"

lemma write_verdicts_merge:
  "VAt s Write + (x + y) = (VAt s Write + x) + (VAt s Write + (y :: verdict))"
  by (metis add.assoc add.commute verdict_idem)

lemma rule_verdict_merge:
  assumes "rule_key a = rule_key b" and "unmixed_rule build reads a" and "unmixed_rule build reads b"
  shows "rule_verdict path c (merge_rule a b) = rule_verdict path c a + rule_verdict path c b"
proof -
  have t: "target_match path c (rule_target b) = target_match path c (rule_target a)"
    using assms by (intro target_match_cong [of _ _ build]) (auto simp: unmixed_rule_def wf_rule_def rule_key_def)
  show ?thesis
  proof (cases "target_match path c (rule_target a)")
    case None
    with t show ?thesis by (simp add: rule_verdict_eq)
  next
    case (Some s)
    with t assms show ?thesis
      by (cases "rule_access a"; cases "rule_access b")
        (auto simp: rule_verdict_eq merge_subpaths sum_push_absent_list write_verdicts_merge unmixed_rule_def
          restrictive.meet_idem split: if_splits)
  qed
qed

interpretation fs_measure: keyed_measure rule_key merge_rule "rule_verdict path c" "unmixed_rule build reads"
  for path c build reads
proof
  show "unmixed_rule build reads (merge_rule a b)"
    if "rule_key a = rule_key b" "unmixed_rule build reads a" "unmixed_rule build reads b" for a b
    using that wf_merge_rule [of build a b]
    by (cases "rule_access a"; cases "rule_access b")
      (auto simp: unmixed_rule_def rule_key_merge merge_subpaths split: if_splits)
qed (rule rule_verdict_merge)

text \<open>Forgetting which access was granted leaves a measure that every merge respects.\<close>

definition coarse :: "verdict \<Rightarrow> verdict" where
  "coarse v = (case v of VAt _ _ \<Rightarrow> VAt 0 Read | _ \<Rightarrow> v)"

lemma coarse_simps [simp]: "coarse 0 = 0" "coarse VDeny = VDeny" "coarse (VAt s a) = VAt 0 Read"
  by (simp_all add: coarse_def flip: verdict_zero)

lemma coarse_plus: "coarse (v + w) = coarse v + coarse w"
  by (cases v; cases w) (auto simp flip: verdict_zero simp: coarse_def)

lemma coarse_sum: "coarse (sum_list vs) = sum_list (map coarse vs)"
  by (induction vs) (simp_all add: coarse_plus)

lemma coarse_write: "coarse (VAt s Write + sum_list (map (sub_verdict path c s) subs)) = VAt 0 Read"
  unfolding foldl_max_sum by (simp add: Let_def)

interpretation fs_coarse: keyed_measure rule_key merge_rule "\<lambda>r. coarse (rule_verdict path c r)" "wf_rule build"
  for path c build
proof
  show "coarse (rule_verdict path c (merge_rule a b))
      = coarse (rule_verdict path c a) + coarse (rule_verdict path c b)"
    if k: "rule_key a = rule_key b" and wf: "wf_rule build a" "wf_rule build b" for a b
  proof -
    have t: "target_match path c (rule_target b) = target_match path c (rule_target a)"
      using k wf by (intro target_match_cong [of _ _ build]) (auto simp: wf_rule_def rule_key_def)
    then show ?thesis
      by (cases "target_match path c (rule_target a)"; cases "rule_access a"; cases "rule_access b")
        (simp_all add: rule_verdict_eq coarse_write)
  qed
qed (rule wf_merge_rule)

definition proper :: "verdict \<Rightarrow> bool" where
  "proper v = (case v of VAt _ a \<Rightarrow> a \<noteq> Deny | _ \<Rightarrow> True)"

lemma proper_plus: "proper v \<Longrightarrow> proper w \<Longrightarrow> proper (v + w)"
  by (cases v; cases w) (auto simp: proper_def simp flip: verdict_zero)

lemma proper_simps [simp]: "proper 0" "proper VDeny" "proper (VAt s a) \<longleftrightarrow> a \<noteq> Deny"
  by (simp_all add: proper_def flip: verdict_zero)

lemma proper_rule_verdict: "proper (rule_verdict path c r)"
  by (cases "matches_path r path c") (simp_all add: rule_verdict_def match_verdict_def)

lemma proper_rule_verdicts: "proper (sum_list (map (rule_verdict path c) rs))"
  by (induction rs) (simp_all add: proper_plus proper_rule_verdict)

lemma proper_deny_iff: "proper v \<Longrightarrow> verdict_access v = Deny \<longleftrightarrow> coarse v = 0 \<or> coarse v = VDeny"
  by (cases v) auto

section \<open>Validation and normal forms\<close>

lemma try_fold_unit_Inr:
  "try_fold (f :: unit \<Rightarrow> 'a \<Rightarrow> ('e, unit) rust_result) () xs = Inr u \<longleftrightarrow> (\<forall>x \<in> set xs. f () x = Inr ())"
  by (induction xs) (auto simp: and_then_eq_Inr)

lemma rule_validate_Inr [result_simps]:
  "rule_validate r = Inr u \<longleftrightarrow> (is_glob (rule_target r) \<longrightarrow> rule_access r = Deny)"
  by (simp add: rule_validate_def)

lemma entry_validate_Inr [result_simps]:
  "entry_validate u r = Inr v \<longleftrightarrow> (is_glob (rule_target r) \<longrightarrow> rule_access r = Deny) \<and>
     (rule_access r \<noteq> Write \<longrightarrow> rule_read_only_subpaths r = [])"
  by (auto simp: entry_validate_def result_simps)

lemma fs_validate_Inr:
  "fs_validate p = Inr u \<longleftrightarrow>
     (fs_mode p \<noteq> FsRestricted \<longrightarrow> fs_entries p = [] \<and> fs_glob_scan_max_depth p = None \<and> fs_protected p = []) \<and>
     (\<forall>r \<in> set (fs_entries p). entry_validate () r = Inr ()) \<and>
     (\<forall>path \<in> set (fs_protected p). \<exists>q. validate_protected_relative_path path = Inr q)"
  by (auto simp: fs_validate_def and_then_eq_Inr try_fold_unit_Inr)

lemma fs_normalized_Inr:
  "fs_normalized p = Inr q \<longleftrightarrow> fs_validate p = Inr () \<and>
     q = p\<lparr>fs_entries := collapse rule_key merge_rule (fs_entries p)\<rparr>"
proof -
  have "collapse rule_key merge_rule [] = []" by (simp add: collapse_def collapse_state_def)
  then show ?thesis
    by (auto simp: fs_normalized_def and_then_eq_Inr fs_validate_Inr split: if_splits)
qed

lemma entry_validate_collapse:
  assumes "\<forall>r \<in> set rs. entry_validate () r = Inr ()" and "e \<in> set (collapse rule_key merge_rule rs)"
  shows "entry_validate () e = Inr ()"
proof (rule fs_merge.collapse_invariant [of rs "\<lambda>r. entry_validate () r = Inr ()", OF assms(1) _ assms(2)])
  show "entry_validate () (merge_rule a b) = Inr ()"
    if "entry_validate () a = Inr ()" "entry_validate () b = Inr ()" "rule_key a = rule_key b" for a b
    using that by (auto simp: entry_validate_Inr merge_rule_def Let_def)
qed

lemma wf_rule_of_validate:
  "entry_validate () r = Inr () \<Longrightarrow> wf_target build (rule_target r) \<Longrightarrow> wf_rule build r"
  by (auto simp: entry_validate_Inr wf_rule_def)

lemma protected_loop_Inr:
  "try_fold (protected_step path) buf cs = Inr n \<longleftrightarrow> try_fold (normalize_relative_step path) buf cs = Inr n"
  by (rule try_fold_same_success)
    (auto simp: protected_step_def normalize_relative_step_def split: component.splits)

lemma validate_protected_Inr:
  assumes "validate_protected_relative_path path = Inr q"
  shows "valid_relative path" and "valid_relative q" and "lexc q = lexc path" and "lexc q \<noteq> []"
proof -
  have nonempty: "q \<noteq> []" and loop: "try_fold (normalize_relative_step path) [] (components path) = Inr q"
    and norm: "normalize_relative_path path = Inr q"
    using assms
    by (auto simp: validate_protected_relative_path_def normalize_relative_path_def and_then_eq_Inr
        protected_loop_Inr split: if_splits)
  from normalize_relative_path_Inr [OF norm]
  show v: "valid_relative path" "valid_relative q" and lex: "lexc q = lexc path" by auto
  show "lexc q \<noteq> []"
  proof
    assume "lexc q = []"
    then have "filter (\<lambda>c. c \<noteq> CurDir) (components path) = []" using lex by (simp add: lexc_def)
    then have "\<forall>c \<in> set (components path). c = CurDir" by (simp add: filter_empty_conv)
    moreover have "\<forall>c \<in> set cs. c = CurDir \<Longrightarrow> try_fold (normalize_relative_step path) [] cs = Inr []" for cs
      by (induction cs) (auto simp: normalize_relative_step_def)
    ultimately have "try_fold (normalize_relative_step path) [] (components path) = Inr []" by blast
    with loop nonempty show False by simp
  qed
qed

lemma validate_protected_total:
  assumes "valid_relative path" and "lexc path \<noteq> []"
  shows "\<exists>q. validate_protected_relative_path path = Inr q"
proof -
  have rel: "\<not> is_absolute path" using assms(1) by (simp add: valid_relative_def)
  have "\<forall>c \<in> set (components path). c = CurDir \<or> (wf_part c \<and> c \<noteq> ParentDir)"
    using components_wf [OF rel] assms(1)
    by (auto simp: valid_relative_def contains_parent_traversal_def list_ex_iff)
  from normalize_relative_loop_total [OF this]
  obtain n where n: "try_fold (normalize_relative_step path) [] (components path) = Inr n" by blast
  have "lexc n = lexc path"
    using normalize_relative_loop [OF n] components_wf [OF rel] by (auto simp: lexc_def [of path])
  with assms(2) have "n \<noteq> []" by auto
  with n assms(1) show ?thesis
    by (auto simp: validate_protected_relative_path_def valid_relative_def contains_nul_iff and_then_eq_Inr
        protected_loop_Inr [symmetric])
qed

section \<open>Policies built through the public interface\<close>

inductive built_rule :: "glob_builder \<Rightarrow> filesystem_rule \<Rightarrow> bool" for build where
  new: "built_rule build (rule_new s a)"
| absolute_glob: "rule_absolute_glob build pat a = Inr r \<Longrightarrow> built_rule build r"
| workspace_glob: "rule_workspace_glob build pat a = Inr r \<Longrightarrow> built_rule build r"
| missing: "built_rule build r \<Longrightarrow> built_rule build (with_missing_path_behavior r b)"
| subpath: "built_rule build r \<Longrightarrow> with_read_only_subpath r s = Inr r' \<Longrightarrow> built_rule build r'"

inductive built_policy :: "glob_builder \<Rightarrow> filesystem_policy \<Rightarrow> bool" for build where
  restricted: "\<forall>r \<in> set rs. built_rule build r \<Longrightarrow> built_policy build (fs_restricted rs)"
| unrestricted: "built_policy build fs_unrestricted"
| external: "built_policy build fs_external"
| depth: "built_policy build p \<Longrightarrow> with_glob_scan_max_depth p d = Inr q \<Longrightarrow> built_policy build q"
| protect: "built_policy build p \<Longrightarrow> with_additional_protected_relative_path p path = Inr q \<Longrightarrow> built_policy build q"
| git: "built_policy build p \<Longrightarrow> built_policy build (dangerously_allow_git_write p)"
| rule: "built_policy build p \<Longrightarrow> built_rule build r \<Longrightarrow> fs_with_rule p r = Inr q \<Longrightarrow> built_policy build q"

lemma built_rule_valid: "built_rule build r \<Longrightarrow> entry_validate () r = Inr () \<and> wf_target build (rule_target r)"
proof (induction rule: built_rule.induct)
  case (absolute_glob pat a r)
  then show ?case
    by (auto simp: rule_absolute_glob_def rule_from_target_def pattern_absolute_def and_then_eq_Inr
        entry_validate_Inr wf_target_def is_glob_def dest: pattern_new_Inr(1) split: if_splits)
next
  case (workspace_glob pat a r)
  then show ?case
    by (auto simp: rule_workspace_glob_def rule_from_target_def pattern_workspace_def and_then_eq_Inr
        entry_validate_Inr wf_target_def is_glob_def dest: pattern_new_Inr(1) split: if_splits)
qed (auto simp: rule_new_def entry_validate_Inr wf_target_def is_glob_def with_missing_path_behavior_def
      with_read_only_subpath_def split: if_splits)

lemma protected_git: "\<exists>q. validate_protected_relative_path ''.git'' = Inr q"
proof (rule validate_protected_total)
  show "valid_relative ''.git''" and "lexc ''.git'' \<noteq> []" by code_simp+
qed

lemma built_policy_valid:
  "built_policy build p \<Longrightarrow> fs_validate p = Inr () \<and> (\<forall>r \<in> set (fs_entries p). wf_target build (rule_target r))"
proof (induction rule: built_policy.induct)
  case (restricted rs)
  then show ?case using built_rule_valid protected_git by (auto simp: fs_validate_Inr fs_restricted_def)
next
  case (protect p path q)
  then obtain n where n: "validate_protected_relative_path path = Inr n" "fs_mode p = FsRestricted"
    and q: "q = p\<lparr>fs_protected := push_absent paths_equal (fs_protected p) n\<rparr>"
    by (auto simp: with_additional_protected_relative_path_def and_then_eq_Inr split: if_splits)
  have "\<exists>m. validate_protected_relative_path n = Inr m"
    using validate_protected_Inr [OF n(1)] by (intro validate_protected_total)
  with protect n q show ?case
    using set_push_absent(2) [of paths_equal "fs_protected p" n] by (auto simp: fs_validate_Inr)
next
  case (rule p r q)
  then show ?case
    using built_rule_valid by (auto simp: fs_with_rule_def and_then_eq_Inr fs_validate_Inr split: if_splits)
qed (auto simp: fs_validate_Inr fs_unrestricted_def fs_external_def with_glob_scan_max_depth_def
      dangerously_allow_git_write_def split: if_splits)

section \<open>Properties\<close>


definition example_rules :: "filesystem_rule list" where
  "example_rules =
     [\<lparr>rule_target = Scope (Absolute ''/a''), rule_access = Write, rule_missing = MissingError,
       rule_read_only_subpaths = [Absolute ''/a/b/c'']\<rparr>,
      \<lparr>rule_target = Scope (Absolute ''/a''), rule_access = Read, rule_missing = MissingError,
       rule_read_only_subpaths = []\<rparr>,
      \<lparr>rule_target = Scope (Absolute ''/a/b''), rule_access = Write, rule_missing = MissingError,
       rule_read_only_subpaths = []\<rparr>]"


lemma verdict_decision_deny: "verdict_decision p path v = FsDeny \<longleftrightarrow> verdict_access v = Deny"
  by (auto simp: verdict_decision_def)

definition unmixed :: "filesystem_rule list \<Rightarrow> bool" where
  "unmixed rs \<longleftrightarrow>
     (\<forall>a \<in> set rs. \<forall>b \<in> set rs. rule_key a = rule_key b \<longrightarrow> rule_access b = Read \<longrightarrow> rule_read_only_subpaths a = [])"

lemma normalized_policy:
  assumes "built_policy build p"
  shows "\<exists>q. fs_normalized p = Inr q \<and> fs_normalized q = Inr q \<and> distinct (map rule_key (fs_entries q)) \<and>
     (fs_access_for_path q path c = Inr FsDeny \<longleftrightarrow> fs_access_for_path p path c = Inr FsDeny) \<and>
     (unmixed (fs_entries p) \<longrightarrow> fs_access_for_path q path c = fs_access_for_path p path c)"
proof -
  let ?rs = "fs_entries p"
  let ?es = "collapse rule_key merge_rule ?rs"
  let ?q = "p\<lparr>fs_entries := ?es\<rparr>"
  from built_policy_valid [OF assms] have v: "fs_validate p = Inr ()"
    and wft: "\<forall>r \<in> set ?rs. wf_target build (rule_target r)" by auto
  have wf: "\<forall>r \<in> set ?rs. wf_rule build r"
    using v wft wf_rule_of_validate by (auto simp: fs_validate_Inr)
  have "fs_validate ?q = Inr ()"
    using v entry_validate_collapse [of ?rs] fs_merge.collapse_distinct_id [of "[]"] by (auto simp: fs_validate_Inr)
  then have idem: "fs_normalized ?q = Inr ?q" by (simp add: fs_normalized_Inr fs_merge.collapse_idem)
  have dec: "verdict_decision ?q path v = verdict_decision p path v" for v
    by (simp add: verdict_decision_def is_protected_path_def)
  let ?v = "\<lambda>rs. sum_list (map (rule_verdict path c) rs)"
  have "coarse (?v ?es) = coarse (?v ?rs)"
    using fs_coarse.sum_collapse [OF wf, of path c] by (simp add: coarse_sum comp_def)
  then have "verdict_access (?v ?es) = Deny \<longleftrightarrow> verdict_access (?v ?rs) = Deny"
    using proper_deny_iff proper_rule_verdicts by metis
  then have deny: "fs_access_for_path ?q path c = Inr FsDeny \<longleftrightarrow> fs_access_for_path p path c = Inr FsDeny"
    by (simp add: fs_access_for_path_verdict dec verdict_decision_deny
        split: option.splits filesystem_mode.splits)
  have same: "fs_access_for_path ?q path c = fs_access_for_path p path c" if "unmixed ?rs"
  proof -
    have "\<forall>r \<in> set ?rs. unmixed_rule build {rule_key b | b. b \<in> set ?rs \<and> rule_access b = Read} r"
      using that wf by (auto simp: unmixed_rule_def unmixed_def)
    from fs_measure.sum_collapse [OF this, of path c] show ?thesis
      by (simp add: fs_access_for_path_verdict dec split: option.splits filesystem_mode.splits)
  qed
  have "fs_normalized p = Inr ?q" using v by (simp add: fs_normalized_Inr)
  moreover have "distinct (map rule_key (fs_entries ?q))" by (simp add: fs_merge.distinct_collapse)
  ultimately show ?thesis using idem deny same by blast
qed

text \<open>C30: For every policy built through the public interface, \<open>normalized\<close> succeeds, leaves one
  rule per target, is idempotent, and keeps exactly the denied paths: a path is denied before if
  and only if it is denied after. Where no target mixes a plain read rule with a writable rule that
  carries read-only subpaths, every decision is kept.\<close>

theorem normalized_keeps_decisions:
  assumes "built_policy build p"
  shows "\<exists>q. fs_normalized p = Inr q \<and> fs_normalized q = Inr q \<and> distinct (map rule_key (fs_entries q)) \<and>
     (fs_access_for_path q path c = Inr FsDeny \<longleftrightarrow> fs_access_for_path p path c = Inr FsDeny) \<and>
     (unmixed (fs_entries p) \<longrightarrow> fs_access_for_path q path c = fs_access_for_path p path c)"
  by (rule normalized_policy [OF assms])

lemma built_example: "built_policy build (fs_restricted example_rules)"
proof (rule built_policy.restricted, intro ballI)
  fix r
  assume "r \<in> set example_rules"
  then consider "r = example_rules ! 0" | "r = rule_new (Absolute ''/a'') Read" | "r = rule_new (Absolute ''/a/b'') Write"
    by (auto simp: example_rules_def rule_new_def)
  then show "built_rule build r"
  proof cases
    case 1
    have "is_within ''/a/b/c'' ''/a''" by code_simp
    then have "with_read_only_subpath (rule_new (Absolute ''/a'') Write) (Absolute ''/a/b/c'') = Inr r"
      by (simp add: 1 example_rules_def with_read_only_subpath_def rule_new_def)
    then show ?thesis by (rule built_rule.subpath [OF built_rule.new])
  qed (auto intro: built_rule.new)
qed

theorem normalized_keeps_decisions_witness:
  "\<exists>q. fs_normalized (fs_restricted example_rules) = Inr q \<and> distinct (map rule_key (fs_entries q))"
  using normalized_keeps_decisions [OF built_example [of example_build], of "''/a''" context_new] by blast

lemma widened_example:
  "\<exists>q. fs_normalized (fs_restricted example_rules) = Inr q \<and>
     fs_access_for_path (fs_restricted example_rules) ''/a/b/c/x'' context_new = Inr FsRead \<and>
     fs_access_for_path q ''/a/b/c/x'' context_new = Inr FsWrite"
proof -
  let ?q = "fs_restricted (collapse rule_key merge_rule example_rules)"
  have "fs_normalized (fs_restricted example_rules) = Inr ?q"
    using built_policy_valid [OF built_example] by (simp add: fs_normalized_Inr fs_restricted_def)
  moreover have "fs_access_for_path (fs_restricted example_rules) ''/a/b/c/x'' context_new = Inr FsRead"
    and "fs_access_for_path ?q ''/a/b/c/x'' context_new = Inr FsWrite"
    unfolding fs_access_for_path_verdict by code_simp+
  ultimately show ?thesis by blast
qed


lemma combine_selector_meet:
  "d \<noteq> FsExternallyEnforced \<Longrightarrow> a = decision_of_access x \<Longrightarrow> d = decision_of_access y \<Longrightarrow>
     combine_selector_decision (Some a) d = decision_of_access (most_restrictive x y)"
  by (cases x; cases y) auto

text \<open>\<open>access_for\<close> grants a selector only what every path it resolves to is granted: on
  well-formed paths it is the most restrictive of their decisions, and a selector that resolves to
  nothing is denied.\<close>

theorem access_for_is_meet:
  assumes "fs_mode p = FsRestricted" and "wf_selector s" and "wf_context c"
  shows "\<exists>access. (\<forall>path \<in> set (selector_resolve s c).
         fs_access_for_path p path c = Inr (decision_of_access (access path))) \<and>
     fs_access_for p s c = Inr (decision_of_access
       (case map access (selector_resolve s c) of [] \<Rightarrow> Deny | a # as \<Rightarrow> foldl most_restrictive a as))"
proof -
  have "\<exists>a. fs_access_for_path p path c = Inr (decision_of_access a)" if "path \<in> set (selector_resolve s c)" for path
    using valid_resolve [OF assms(2,3) that] assms(1)
    by (auto simp: fs_access_for_path_verdict verdict_decision_def simp flip: path_rejected_None
        intro: exI [of _ Read])
  then obtain access where acc: "\<forall>path \<in> set (selector_resolve s c).
      fs_access_for_path p path c = Inr (decision_of_access (access path))" by metis
  let ?step = "\<lambda>result path. and_then (fs_access_for_path p path c)
      (\<lambda>d. Inr (Some (combine_selector_decision result d)))"
  have loop: "try_fold ?step (Some (decision_of_access a)) ps =
      Inr (Some (decision_of_access (foldl most_restrictive a (map access ps))))"
    if "set ps \<subseteq> set (selector_resolve s c)" for a ps
    using that
  proof (induction ps arbitrary: a)
    case (Cons x xs)
    then have "fs_access_for_path p x c = Inr (decision_of_access (access x))" using acc by auto
    with Cons combine_selector_meet [of "decision_of_access (access x)" "decision_of_access a" a "access x"]
    show ?case by simp
  qed simp
  have first: "combine_selector_decision None d = d" if "d \<noteq> FsExternallyEnforced" for d
    using that by (cases d) auto
  show ?thesis
  proof (intro exI [of _ access] conjI acc)
    show "fs_access_for p s c = Inr (decision_of_access
       (case map access (selector_resolve s c) of [] \<Rightarrow> Deny | a # as \<Rightarrow> foldl most_restrictive a as))"
      using assms(1) acc loop
      by (cases "selector_resolve s c") (simp_all add: fs_access_for_def first subset_insertI)
  qed
qed

theorem access_for_is_meet_witness:
  "\<exists>access. fs_access_for_path (fs_restricted example_rules) ''/a'' context_new = Inr (decision_of_access (access ''/a''))
     \<and> fs_access_for (fs_restricted example_rules) (Absolute ''/a'') context_new = Inr (decision_of_access (access ''/a''))"
proof -
  have "fs_mode (fs_restricted example_rules) = FsRestricted" by (simp add: fs_restricted_def)
  moreover have "valid_absolute ''/a''" by code_simp
  then have "wf_selector (Absolute ''/a'')" by (simp add: wf_selector_def)
  ultimately show ?thesis
    using access_for_is_meet [of "fs_restricted example_rules" "Absolute ''/a''" context_new] by simp
qed

end
