(* ===== verification/Local_Ipc.thy ===== *)
theory Local_Ipc
  imports Selector
begin

text \<open>
  Typed local-IPC endpoints (\<open>cageforge-policy/src/local_ipc.rs\<close>): validated POSIX socket
  paths and Windows pipe names. The derived \<open>Eq\<close> and \<open>Hash\<close> of an endpoint compare the path by
  components; \<open>endpoint_key\<close> is what they compare.
\<close>

section \<open>Endpoints (local\_ipc.rs)\<close>

datatype local_ipc_endpoint = UnixSocket string | WindowsNamedPipe string

datatype endpoint_key = UnixKey "component list" | PipeKey string

fun endpoint_key_of :: "local_ipc_endpoint \<Rightarrow> endpoint_key" where
  "endpoint_key_of (UnixSocket p) = UnixKey (components p)"
| "endpoint_key_of (WindowsNamedPipe n) = PipeKey n"

fun endpoints_equal :: "local_ipc_endpoint \<Rightarrow> local_ipc_endpoint \<Rightarrow> bool" where
  "endpoints_equal (UnixSocket a) (UnixSocket b) = path_eq a b"
| "endpoints_equal (WindowsNamedPipe a) (WindowsNamedPipe b) = (a = b)"
| "endpoints_equal _ _ = False"

definition absolute_path_new :: "string \<Rightarrow> (policy_error, string) rust_result" where
  "absolute_path_new path =
     (let s = to_string_lossy path
      in if s = [] then Inl EmptyPath
         else if CHR 0x00 \<in> set s then Inl (PathContainsNul path)
         else if \<not> starts_with ''/'' s then Inl (ExpectedAbsolute path)
         else if contains_parent_traversal s then Inl (ParentTraversalError path)
         else Inr path)"

definition pipe_prefix :: string where
  "pipe_prefix = [CHR 0x5C, CHR 0x5C, CHR ''.'', CHR 0x5C] @ ''pipe'' @ [CHR 0x5C]"

text \<open>\<open>str::encode_utf16().count()\<close>.\<close>

definition utf16_count :: "string \<Rightarrow> nat" where
  "utf16_count s = sum_list (map (\<lambda>c. if c < 0x10000 then 1 else 2) (str_chars s))"

definition unsafe_pipe_name :: "string \<Rightarrow> bool" where
  "unsafe_pipe_name name \<longleftrightarrow>
     name = [] \<or> CHR 0x00 \<in> set name \<or> slash \<in> set name \<or> CHR 0x5C \<in> set name
     \<or> name = ''.'' \<or> name = ''..'' \<or> CHR '':'' \<in> set name \<or> \<not> list_all is_ascii name"

definition named_pipe_new :: "string \<Rightarrow> (policy_error, string) rust_result" where
  "named_pipe_new s =
     (if \<not> has_prefix_ignore_case pipe_prefix s
      then Inl (InvalidLocalIpcEndpoint s
        (''named pipe must use the local '' @ pipe_prefix @ '' namespace''))
      else let name = drop (length pipe_prefix) s
           in if unsafe_pipe_name name
              then Inl (InvalidLocalIpcEndpoint s ''named pipe name is empty or contains an unsafe component'')
              else if utf16_count s > 256
              then Inl (InvalidLocalIpcEndpoint s ''named pipe name exceeds the supported length'')
              else Inr (pipe_prefix @ ascii_lower name))"

definition endpoint_unix_socket :: "string \<Rightarrow> (policy_error, local_ipc_endpoint) rust_result" where
  "endpoint_unix_socket path = and_then (absolute_path_new path) (\<lambda>p. Inr (UnixSocket p))"

definition endpoint_windows_named_pipe :: "string \<Rightarrow> (policy_error, local_ipc_endpoint) rust_result" where
  "endpoint_windows_named_pipe name = and_then (named_pipe_new name) (\<lambda>n. Inr (WindowsNamedPipe n))"

fun endpoint_unix_path :: "local_ipc_endpoint \<Rightarrow> string option" where
  "endpoint_unix_path (UnixSocket p) = Some p"
| "endpoint_unix_path (WindowsNamedPipe _) = None"

fun endpoint_named_pipe :: "local_ipc_endpoint \<Rightarrow> string option" where
  "endpoint_named_pipe (UnixSocket _) = None"
| "endpoint_named_pipe (WindowsNamedPipe n) = Some n"

fun endpoint_validate :: "local_ipc_endpoint \<Rightarrow> (policy_error, unit) rust_result" where
  "endpoint_validate (UnixSocket path) =
     (if contains_parent_traversal path
      then Inl (InvalidLocalIpcEndpoint (to_string_lossy path) ''parent traversal is not allowed'')
      else Inr ())"
| "endpoint_validate (WindowsNamedPipe name) = and_then (named_pipe_new name) (\<lambda>_. Inr ())"

interpretation ipc_endpoints: keyed_identity endpoints_equal endpoint_key_of
proof
  show "endpoints_equal a b \<longleftrightarrow> endpoint_key_of a = endpoint_key_of b" for a b
    by (cases a; cases b) (simp_all add: path_eq_def)
qed

section \<open>Canonical pipe names\<close>

lemma ascii_lower_ascii: "is_ascii c \<Longrightarrow> is_ascii (to_ascii_lowercase c)"
  by (auto simp: is_ascii_def to_ascii_lowercase_def)

lemma lower_special:
  "to_ascii_lowercase c = CHR 0x00 \<longleftrightarrow> c = CHR 0x00" "to_ascii_lowercase c = CHR 0x5C \<longleftrightarrow> c = CHR 0x5C"
  "to_ascii_lowercase c = CHR '':'' \<longleftrightarrow> c = CHR '':''"
  by (rule to_ascii_lowercase_eq_iff; simp add: is_ascii_alphabetic_def)+

lemma unsafe_pipe_name_lower: "unsafe_pipe_name (ascii_lower name) \<longleftrightarrow> unsafe_pipe_name name"
  if "list_all is_ascii name"
proof -
  have eq: "ascii_lower name = ''.'' \<longleftrightarrow> name = ''.''" "ascii_lower name = ''..'' \<longleftrightarrow> name = ''..''"
    by (auto simp: ascii_lower_def map_eq_Cons_conv lower_fixed)
  have mem: "c \<in> set (ascii_lower name) \<longleftrightarrow> c \<in> set name" if "\<And>x. to_ascii_lowercase x = c \<longleftrightarrow> x = c" for c
    unfolding ascii_lower_def set_map image_iff using that by metis
  have "ascii_lower name = [] \<longleftrightarrow> name = []" by (simp add: ascii_lower_def)
  then show ?thesis
    using that mem [OF lower_special(1)] mem [OF lower_special(2)] mem [OF lower_special(3)] mem [OF lower_fixed(1)]
    by (auto simp: unsafe_pipe_name_def eq) (auto simp: ascii_lower_def list_all_iff ascii_lower_ascii)
qed

lemma ascii_of_lower: "list_all is_ascii (ascii_lower s) \<longleftrightarrow> list_all is_ascii s"
proof -
  have "is_ascii (to_ascii_lowercase c) \<longleftrightarrow> is_ascii c" for c
    by (auto simp: is_ascii_def to_ascii_lowercase_def)
  then show ?thesis by (simp add: ascii_lower_def list_all_iff)
qed

lemma utf16_count_ascii: "list_all is_ascii s \<Longrightarrow> utf16_count s = length s"
proof -
  assume a: "list_all is_ascii s"
  then have "map (\<lambda>c. if c < 0x10000 then 1 else 2) (str_chars s) = map (\<lambda>_. 1 :: nat) s"
    by (auto simp: str_chars_ascii list_all_iff is_ascii_def)
  then show ?thesis unfolding utf16_count_def by (simp only:) (simp add: sum_list_triv)
qed

lemma pipe_prefix_facts:
  "length pipe_prefix = 9" "list_all is_ascii pipe_prefix" "ascii_lower pipe_prefix = pipe_prefix"
  by (simp_all add: pipe_prefix_def ascii_defs)

lemma named_pipe_new_iff:
  "named_pipe_new s = Inr n \<longleftrightarrow>
     length s > 9 \<and> ascii_lower (take 9 s) = pipe_prefix \<and> \<not> unsafe_pipe_name (drop 9 s)
     \<and> length s \<le> 256 \<and> n = ascii_lower s"
proof -
  have pre: "ascii_lower s = ascii_lower (take 9 s) @ ascii_lower (drop 9 s)"
    by (simp flip: ascii_lower_append)
  have ascii: "list_all is_ascii s" if "ascii_lower (take 9 s) = pipe_prefix" "\<not> unsafe_pipe_name (drop 9 s)"
  proof -
    have "list_all is_ascii (ascii_lower (take 9 s) @ ascii_lower (drop 9 s))"
      using that pipe_prefix_facts ascii_of_lower [of "drop 9 s"] by (simp add: unsafe_pipe_name_def)
    then show ?thesis using ascii_of_lower [of s] pre by simp
  qed
  have get: "has_prefix_ignore_case pipe_prefix s \<longleftrightarrow>
      9 \<le> length s \<and> \<not> cont_at s 9 \<and> ascii_lower (take 9 s) = pipe_prefix"
    using pipe_prefix_facts
    by (auto simp: has_prefix_ignore_case_def str_get_to_def eq_ignore_ascii_case_def)
  have cont: "\<not> cont_at s 9" if "list_all is_ascii s"
    using that by (auto simp: cont_at_def byte_at_def list_all_length is_ascii_def)
  have empty: "length s = 9 \<Longrightarrow> unsafe_pipe_name (drop 9 s)" by (simp add: unsafe_pipe_name_def)
  show ?thesis
  proof (cases "ascii_lower (take 9 s) = pipe_prefix \<and> \<not> unsafe_pipe_name (drop 9 s)")
    case True
    then have s: "list_all is_ascii s" using ascii by blast
    have len: "9 \<le> length s \<longleftrightarrow> 9 < length s" using True empty by (cases "length s = 9") auto
    have low: "ascii_lower s = pipe_prefix @ ascii_lower (drop 9 s)" using pre True by simp
    show ?thesis
      using True cont [OF s] utf16_count_ascii [OF s]
      by (auto simp: named_pipe_new_def Let_def get pipe_prefix_facts(1) len low)
  next
    case False
    then show ?thesis by (auto simp: named_pipe_new_def Let_def get pipe_prefix_facts(1))
  qed
qed

section \<open>Properties\<close>

text \<open>A pipe name is stored in canonical form. Whatever \<open>NamedPipeName::new\<close> accepts lies in
  the local pipe namespace with one non-empty ASCII component free of separators, drive colons and
  NUL; validating the stored name again returns it unchanged; and two accepted spellings give the
  same endpoint exactly when they differ in ASCII case only.\<close>

theorem named_pipe_canonical:
  assumes "named_pipe_new a = Inr x" and "named_pipe_new b = Inr y"
  shows "named_pipe_new x = Inr x \<and> starts_with pipe_prefix x \<and> \<not> unsafe_pipe_name (drop 9 x) \<and>
     (x = y \<longleftrightarrow> eq_ignore_ascii_case a b)"
proof -
  from assms(1) have a: "length a > 9" "ascii_lower (take 9 a) = pipe_prefix" "\<not> unsafe_pipe_name (drop 9 a)"
    "length a \<le> 256" "x = ascii_lower a"
    by (auto simp: named_pipe_new_iff)
  have drop: "drop 9 x = ascii_lower (drop 9 a)" and take: "take 9 x = pipe_prefix"
    using a by (simp_all add: ascii_lower_def drop_map take_map)
  have safe: "\<not> unsafe_pipe_name (drop 9 x)"
    using a(3) unsafe_pipe_name_lower [of "drop 9 a"] by (auto simp: drop unsafe_pipe_name_def)
  moreover have "named_pipe_new x = Inr x"
    using a take safe pipe_prefix_facts by (simp add: named_pipe_new_iff)
  moreover have "starts_with pipe_prefix x" using take by (simp add: starts_with_def pipe_prefix_facts)
  ultimately show ?thesis using assms(2) a(5) by (auto simp: named_pipe_new_iff eq_ignore_ascii_case_def)
qed

theorem named_pipe_canonical_witness:
  "named_pipe_new (pipe_prefix @ ''Agent'') = Inr (pipe_prefix @ ''agent'') \<and>
   named_pipe_new (pipe_prefix @ ''agent'') = Inr (pipe_prefix @ ''agent'')"
proof -
  have "ascii_lower ''Agent'' = ''agent''" and "\<not> unsafe_pipe_name ''Agent''" by code_simp+
  then have "named_pipe_new (pipe_prefix @ ''Agent'') = Inr (pipe_prefix @ ''agent'')"
    using pipe_prefix_facts by (simp add: named_pipe_new_iff ascii_lower_append)
  from named_pipe_canonical [OF this this] this show ?thesis by simp
qed

end
