(* ===== verification/Network_Policy.thy ===== *)
theory Network_Policy
  imports Local_Ipc Glob_Pattern
begin

unbundle bit_operations_syntax

text \<open>
  Network policies (\<open>cageforge-policy/src/network.rs\<close> and \<open>network/model.rs\<close>): host
  normalization, the classification of non-public addresses, domain and socket rules, and the
  authorization of one connection against a resolution snapshot. The glob compiler is the
  parameter \<open>build\<close>, the Unicode letter tables the parameter \<open>U\<close>; both are used by the
  constructors and by host validation only.
\<close>

section \<open>Types (network/model.rs)\<close>

datatype domain_access = DomAllow | DomDeny
datatype network_mode = NetDisabled | NetEnabled | NetExternal
datatype domain_mode = DomainDisabled | DomainEnabled | DomainRestricted
datatype unix_socket_mode = SocketsDisabled | SocketsEnabled | SocketsRestricted
datatype local_network_access = LocalDeny | LocalAllow
datatype network_decision = NetAllow | NetDeny | NetExternallyEnforced

datatype domain_matcher = AnyDomain | FullDomain glob_matcher | SuffixDomain "glob_matcher list" bool

record domain_rule =
  dom_pattern :: string
  dom_access :: domain_access
  dom_matcher :: domain_matcher

record unix_socket_rule =
  sock_path :: string
  sock_access :: domain_access

record local_ipc_rule =
  ipc_endpoint :: local_ipc_endpoint
  ipc_access :: domain_access

record network_policy =
  net_mode :: network_mode
  net_domain_mode :: domain_mode
  net_unix_socket_mode :: unix_socket_mode
  net_local_access :: local_network_access
  net_domains :: "domain_rule list"
  net_unix_sockets :: "unix_socket_rule list"
  net_local_ipc :: "local_ipc_rule list"

record resolved_target =
  target_domain :: string
  target_addresses :: "socket_addr list"

datatype connection_authorization = Allowed socket_addr | Denied | ExternallyEnforced

section \<open>Non-public addresses (network.rs)\<close>

definition well_known_nat64_ipv4 :: "ipv6_addr \<Rightarrow> ipv4_addr option" where
  "well_known_nat64_ipv4 a =
     (case a of Ipv6 s0 s1 s2 s3 s4 s5 high low \<Rightarrow>
        if s0 = 0x64 \<and> s1 = 0xFF9B \<and> s2 = 0 \<and> s3 = 0 \<and> s4 = 0 \<and> s5 = 0
        then Some (ipv4_of_segments high low) else None)"

definition is_non_public_ipv4 :: "ipv4_addr \<Rightarrow> bool" where
  "is_non_public_ipv4 a \<longleftrightarrow>
     ipv4_is_loopback a \<or> ipv4_is_private a \<or> ipv4_is_link_local a \<or> ipv4_is_unspecified a
     \<or> ipv4_is_multicast a \<or> ipv4_is_broadcast a
     \<or> a AND 0xFF000000 = 0
     \<or> a AND 0xFFC00000 = 0x64400000
     \<or> (a AND 0xFFFFFF00 = 0xC0000000 \<and> \<not> (a = 0xC0000009 \<or> a = 0xC000000A))
     \<or> a AND 0xFFFFFF00 = 0xC0000200
     \<or> a AND 0xFFFFFF00 = 0xC0586300
     \<or> a AND 0xFFFE0000 = 0xC6120000
     \<or> a AND 0xFFFFFF00 = 0xC6336400
     \<or> a AND 0xFFFFFF00 = 0xCB007100
     \<or> a AND 0xF0000000 = 0xF0000000"

definition is_non_public_ietf_protocol_assignment :: "ipv6_addr \<Rightarrow> bool" where
  "is_non_public_ietf_protocol_assignment a =
     (case a of Ipv6 s0 s1 s2 s3 s4 s5 s6 s7 \<Rightarrow>
        if s0 \<noteq> 0x2001 \<or> s1 \<ge> 0x0200 then False
        else \<not> ((s1 = 1 \<and> s2 = 0 \<and> s3 = 0 \<and> s4 = 0 \<and> s5 = 0 \<and> s6 = 0 \<and> 1 \<le> s7 \<and> s7 \<le> 3)
                \<or> s1 = 3
                \<or> (s1 = 4 \<and> s2 = 0x0112)
                \<or> (0x20 \<le> s1 \<and> s1 \<le> 0x3F)))"

definition is_non_public_ipv6 :: "ipv6_addr \<Rightarrow> bool" where
  "is_non_public_ipv6 a \<longleftrightarrow>
     ipv6_is_loopback a \<or> ipv6_is_unspecified a \<or> ipv6_is_multicast a \<or> ipv6_is_unique_local a
     \<or> ipv6_is_unicast_link_local a
     \<or> (case ipv6_to_ipv4 a of None \<Rightarrow> False | Some v4 \<Rightarrow> is_non_public_ipv4 v4)
     \<or> (case well_known_nat64_ipv4 a of None \<Rightarrow> False | Some v4 \<Rightarrow> is_non_public_ipv4 v4)
     \<or> (case a of Ipv6 s0 s1 s2 s3 _ _ _ _ \<Rightarrow>
          (s0 = 0x64 \<and> s1 = 0xFF9B \<and> s2 = 1)
          \<or> (s0 = 0x100 \<and> s1 = 0 \<and> s2 = 0 \<and> s3 = 0)
          \<or> (s0 = 0x100 \<and> s1 = 0 \<and> s2 = 0 \<and> s3 = 1))
     \<or> is_non_public_ietf_protocol_assignment a
     \<or> (case a of Ipv6 s0 s1 _ _ _ _ _ _ \<Rightarrow>
          s0 = 0x2002
          \<or> (s0 = 0x2001 \<and> s1 = 0x0DB8)
          \<or> (s0 = 0x3FFF \<and> s1 \<le> 0x0FFF)
          \<or> s0 = 0x5F00
          \<or> s0 AND 0xFFC0 = 0xFEC0)"

fun is_non_public_ip :: "ip_addr \<Rightarrow> bool" where
  "is_non_public_ip (V4 a) = is_non_public_ipv4 a"
| "is_non_public_ip (V6 a) = is_non_public_ipv6 a"

section \<open>Host normalization (network.rs)\<close>

definition contains_char :: "char \<Rightarrow> string \<Rightarrow> bool" where
  "contains_char c s \<longleftrightarrow> c \<in> set s"

definition trim_end_matches :: "char \<Rightarrow> string \<Rightarrow> string" where
  "trim_end_matches c s = rev (dropWhile (\<lambda>x. x = c) (rev s))"

definition parse_ip_literal :: "string \<Rightarrow> ip_addr option" where
  "parse_ip_literal host =
     (case split_once ''%'' host of
        None \<Rightarrow> parse_ip_addr host
      | Some (address, _) \<Rightarrow> parse_ip_addr address)"

definition scoped_literal :: "string \<Rightarrow> string \<Rightarrow> string option" where
  "scoped_literal delimiter host =
     (case split_once delimiter host of
        None \<Rightarrow> None
      | Some (ip, scope) \<Rightarrow> if parse_ip_addr ip \<noteq> None then Some (ip @ ''%'' @ scope) else None)"

definition normalize_ip_literal :: "string \<Rightarrow> string option" where
  "normalize_ip_literal host =
     (if parse_ip_addr host \<noteq> None then Some host
      else case scoped_literal ''%25'' host of
             Some s \<Rightarrow> Some s
           | None \<Rightarrow> scoped_literal ''%'' host)"

definition valid_port :: "string \<Rightarrow> bool" where
  "valid_port port \<longleftrightarrow> port \<noteq> [] \<and> list_all is_ascii_digit port \<and> parse_u16 port \<noteq> None"

definition valid_port_suffix :: "string \<Rightarrow> bool" where
  "valid_port_suffix sfx = (case strip_prefix '':'' sfx of None \<Rightarrow> False | Some port \<Rightarrow> valid_port port)"

definition normalize_dns_host_or_ip_literal :: "string \<Rightarrow> string" where
  "normalize_dns_host_or_ip_literal host0 =
     (let host = trim_end_matches (CHR ''.'') (ascii_lower host0)
      in case normalize_ip_literal host of Some ip \<Rightarrow> ip | None \<Rightarrow> host)"

definition normalize_unbracketed :: "string \<Rightarrow> string option" where
  "normalize_unbracketed host =
     (let colons = length (filter (\<lambda>b. b = CHR '':'') host)
      in if colons = 0 then Some (normalize_dns_host_or_ip_literal host)
         else if colons = 1 then
           (case split_once '':'' host of
              None \<Rightarrow> None
            | Some (h, port) \<Rightarrow> if \<not> valid_port port then None else Some (normalize_dns_host_or_ip_literal h))
         else map_option normalize_dns_host_or_ip_literal (normalize_ip_literal host))"

definition normalize_host :: "string \<Rightarrow> string option" where
  "normalize_host host0 =
     (let host = str_trim host0
      in if starts_with ''['' host then
           (case split_once '']'' (drop 1 host) of
              None \<Rightarrow> None
            | Some (inner, sfx) \<Rightarrow>
                if normalize_ip_literal inner \<noteq> None then
                  (if sfx \<noteq> [] \<and> \<not> valid_port_suffix sfx then None
                   else map_option normalize_dns_host_or_ip_literal (normalize_ip_literal inner))
                else normalize_unbracketed host)
         else normalize_unbracketed host)"

definition valid_domain_literal :: "string \<Rightarrow> bool" where
  "valid_domain_literal pattern \<longleftrightarrow>
     pattern \<noteq> [] \<and> \<not> contains_char (CHR ''*'') pattern \<and> \<not> contains_char (CHR ''?'') pattern
     \<and> (\<not> contains_char (CHR '':'') pattern \<or> normalize_ip_literal pattern \<noteq> None)"

definition valid_pattern_label :: "string \<Rightarrow> bool" where
  "valid_pattern_label label \<longleftrightarrow>
     label \<noteq> [] \<and>
     list_all (\<lambda>c. \<not> char_is_whitespace c \<and> \<not> char_is_control c \<and> \<not> (c = 0x3A \<or> c = 0x25 \<or> c = 0x40)) (str_chars label)"

definition pattern_suffix :: "string \<Rightarrow> string" where
  "pattern_suffix pattern =
     (case strip_prefix ''**.'' pattern of
        Some s \<Rightarrow> s
      | None \<Rightarrow> (case strip_prefix ''*.'' pattern of Some s \<Rightarrow> s | None \<Rightarrow> pattern))"

definition valid_domain_pattern :: "string \<Rightarrow> bool" where
  "valid_domain_pattern pattern =
     (if pattern = ''*'' then True
      else if contains_char (CHR '':'') pattern \<or> contains_char (CHR ''%'') pattern then valid_domain_literal pattern
      else pattern_suffix pattern \<noteq> [] \<and> list_all valid_pattern_label (split_on (CHR ''.'') (pattern_suffix pattern)))"

definition valid_host_label :: "unicode_data \<Rightarrow> string \<Rightarrow> bool" where
  "valid_host_label U label \<longleftrightarrow>
     label \<noteq> [] \<and> length label \<le> 63 \<and> hd label \<noteq> CHR ''-'' \<and> last label \<noteq> CHR ''-''
     \<and> list_all (\<lambda>c. char_is_alphanumeric U c \<or> c = 0x2D \<or> c = 0x5F) (str_chars label)"

definition valid_concrete_host :: "unicode_data \<Rightarrow> string \<Rightarrow> bool" where
  "valid_concrete_host U host =
     (if parse_ip_literal host \<noteq> None then True
      else length host \<le> 253 \<and> list_all (valid_host_label U) (split_on (CHR ''.'') host))"

definition invalid_domain_syntax :: "string \<Rightarrow> bool" where
  "invalid_domain_syntax raw \<longleftrightarrow>
     raw = [] \<or> split_once ''://'' raw \<noteq> None \<or> contains_char slash raw \<or> contains_char (CHR ''#'') raw
     \<or> list_ex char_is_whitespace (str_chars raw) \<or> list_ex char_is_control (str_chars raw)"

definition normalize_domain_pattern :: "string \<Rightarrow> (policy_error, string) rust_result" where
  "normalize_domain_pattern raw0 =
     (let raw = str_trim raw0
      in if invalid_domain_syntax raw then Inl (InvalidDomainPattern raw)
         else let (pre, remainder) =
                    (case strip_prefix ''**.'' raw of
                       Some r \<Rightarrow> (''**.'', r)
                     | None \<Rightarrow> (case strip_prefix ''*.'' raw of Some r \<Rightarrow> (''*.'', r) | None \<Rightarrow> ([], raw)))
              in case normalize_host remainder of
                   None \<Rightarrow> Inl (InvalidDomainPattern raw)
                 | Some host \<Rightarrow>
                     (let pattern = pre @ host
                      in if valid_domain_pattern pattern then Inr pattern else Inl (InvalidDomainPattern raw)))"

definition normalize_domain :: "unicode_data \<Rightarrow> string \<Rightarrow> (policy_error, string) rust_result" where
  "normalize_domain U raw =
     and_then (normalize_domain_pattern raw)
       (\<lambda>normalized. if \<not> valid_concrete_host U normalized then Inl (InvalidDomainPattern raw) else Inr normalized)"

section \<open>Rules (network.rs)\<close>

definition compile_domain_glob :: "glob_builder \<Rightarrow> string \<Rightarrow> string \<Rightarrow> (policy_error, glob_matcher) rust_result" where
  "compile_domain_glob build pattern label = map_err (\<lambda>_. InvalidDomainPattern pattern) (build label)"

definition compile_domain_labels :: "glob_builder \<Rightarrow> string \<Rightarrow> string \<Rightarrow> (policy_error, glob_matcher list) rust_result" where
  "compile_domain_labels build sfx pattern =
     try_map (compile_domain_glob build pattern) (split_on (CHR ''.'') sfx)"

definition compile_domain_matcher :: "glob_builder \<Rightarrow> string \<Rightarrow> (policy_error, domain_matcher) rust_result" where
  "compile_domain_matcher build pattern =
     (if pattern = ''*'' then Inr AnyDomain
      else case strip_prefix ''**.'' pattern of
             Some sfx \<Rightarrow>
               and_then (compile_domain_labels build sfx pattern) (\<lambda>labels. Inr (SuffixDomain labels True))
           | None \<Rightarrow>
               (case strip_prefix ''*.'' pattern of
                  Some sfx \<Rightarrow>
                    and_then (compile_domain_labels build sfx pattern) (\<lambda>labels. Inr (SuffixDomain labels False))
                | None \<Rightarrow> and_then (compile_domain_glob build pattern pattern) (\<lambda>m. Inr (FullDomain m))))"

definition domain_rule_new :: "glob_builder \<Rightarrow> string \<Rightarrow> domain_access \<Rightarrow> (policy_error, domain_rule) rust_result" where
  "domain_rule_new build raw access =
     and_then (normalize_domain_pattern raw)
       (\<lambda>pattern. and_then (compile_domain_matcher build pattern)
          (\<lambda>m. Inr \<lparr>dom_pattern = pattern, dom_access = access, dom_matcher = m\<rparr>))"

definition domain_matches :: "domain_matcher \<Rightarrow> string \<Rightarrow> bool" where
  "domain_matches m domain =
     (case m of
        AnyDomain \<Rightarrow> True
      | FullDomain g \<Rightarrow> g domain
      | SuffixDomain labels include_apex \<Rightarrow>
          (let count = length (split_on (CHR ''.'') domain)
           in if count < length labels \<or> (\<not> include_apex \<and> count = length labels) then False
              else list_all (\<lambda>(d, g). g d) (zip (rev (split_on (CHR ''.'') domain)) (rev labels))))"

definition unix_socket_rule_new :: "string \<Rightarrow> domain_access \<Rightarrow> (policy_error, unix_socket_rule) rust_result" where
  "unix_socket_rule_new path access =
     and_then (selector_absolute path) (\<lambda>_. Inr \<lparr>sock_path = path, sock_access = access\<rparr>)"

definition local_ipc_rule_new :: "local_ipc_endpoint \<Rightarrow> domain_access \<Rightarrow> (policy_error, local_ipc_rule) rust_result" where
  "local_ipc_rule_new endpoint access =
     and_then (endpoint_validate endpoint) (\<lambda>_. Inr \<lparr>ipc_endpoint = endpoint, ipc_access = access\<rparr>)"

section \<open>Policies (network.rs)\<close>

definition net_disabled :: network_policy where
  "net_disabled =
     \<lparr>net_mode = NetDisabled, net_domain_mode = DomainDisabled, net_unix_socket_mode = SocketsDisabled,
      net_local_access = LocalDeny, net_domains = [], net_unix_sockets = [], net_local_ipc = []\<rparr>"

definition net_enabled :: network_policy where
  "net_enabled =
     \<lparr>net_mode = NetEnabled, net_domain_mode = DomainEnabled, net_unix_socket_mode = SocketsDisabled,
      net_local_access = LocalDeny, net_domains = [], net_unix_sockets = [], net_local_ipc = []\<rparr>"

definition net_unrestricted :: network_policy where
  "net_unrestricted =
     \<lparr>net_mode = NetEnabled, net_domain_mode = DomainEnabled, net_unix_socket_mode = SocketsEnabled,
      net_local_access = LocalAllow, net_domains = [], net_unix_sockets = [], net_local_ipc = []\<rparr>"

definition net_external :: network_policy where
  "net_external =
     \<lparr>net_mode = NetExternal, net_domain_mode = DomainDisabled, net_unix_socket_mode = SocketsDisabled,
      net_local_access = LocalDeny, net_domains = [], net_unix_sockets = [], net_local_ipc = []\<rparr>"

definition with_domain_mode :: "network_policy \<Rightarrow> domain_mode \<Rightarrow> network_policy" where
  "with_domain_mode p m = p\<lparr>net_domain_mode := m\<rparr>"

definition with_unix_socket_mode :: "network_policy \<Rightarrow> unix_socket_mode \<Rightarrow> network_policy" where
  "with_unix_socket_mode p m = p\<lparr>net_unix_socket_mode := m\<rparr>"

definition with_local_network_access :: "network_policy \<Rightarrow> local_network_access \<Rightarrow> network_policy" where
  "with_local_network_access p a = p\<lparr>net_local_access := a\<rparr>"

definition with_domain ::
  "glob_builder \<Rightarrow> network_policy \<Rightarrow> string \<Rightarrow> domain_access \<Rightarrow> (policy_error, network_policy) rust_result" where
  "with_domain build p pattern access =
     (if net_mode p = NetExternal
      then Inl (InvalidRule ''network rules cannot be added to an external policy'')
      else and_then (domain_rule_new build pattern access)
             (\<lambda>r. Inr (p\<lparr>net_domains := net_domains p @ [r]\<rparr>)))"

definition with_unix_socket ::
  "network_policy \<Rightarrow> string \<Rightarrow> domain_access \<Rightarrow> (policy_error, network_policy) rust_result" where
  "with_unix_socket p path access =
     (if net_mode p = NetExternal
      then Inl (InvalidRule ''network rules cannot be added to an external policy'')
      else and_then (unix_socket_rule_new path access)
             (\<lambda>r. Inr (p\<lparr>net_unix_sockets := net_unix_sockets p @ [r]\<rparr>)))"

definition endpoint_text :: "local_ipc_endpoint \<Rightarrow> string" where
  "endpoint_text e =
     (case endpoint_unix_path e of
        Some path \<Rightarrow> ''unix:'' @ to_string_lossy path
      | None \<Rightarrow> (case endpoint_named_pipe e of Some name \<Rightarrow> ''pipe:'' @ name | None \<Rightarrow> ''local-ipc''))"

definition add_unix_endpoint :: "network_policy \<Rightarrow> string \<Rightarrow> domain_access \<Rightarrow> network_policy" where
  "add_unix_endpoint p path access =
     p\<lparr>net_mode := (if net_mode p = NetDisabled then NetEnabled else net_mode p),
       net_unix_socket_mode :=
         (if net_unix_socket_mode p = SocketsDisabled then SocketsRestricted else net_unix_socket_mode p),
       net_unix_sockets := net_unix_sockets p @ [\<lparr>sock_path = path, sock_access = access\<rparr>]\<rparr>"

definition with_local_ipc ::
  "network_policy \<Rightarrow> local_ipc_endpoint \<Rightarrow> domain_access \<Rightarrow> (policy_error, network_policy) rust_result" where
  "with_local_ipc p endpoint access =
     (if net_mode p = NetExternal
      then Inl (InvalidRule ''local-IPC rules cannot be added to an external policy'')
      else if list_ex (\<lambda>r. endpoints_equal (ipc_endpoint r) endpoint) (net_local_ipc p)
      then Inl (InvalidLocalIpcEndpoint (endpoint_text endpoint) ''duplicate local-IPC endpoint'')
      else and_then (local_ipc_rule_new endpoint access)
             (\<lambda>r. let q = (case endpoint_unix_path endpoint of
                               Some path \<Rightarrow> add_unix_endpoint p path access
                             | None \<Rightarrow> p)
                   in Inr (q\<lparr>net_local_ipc := net_local_ipc q @ [r]\<rparr>)))"

definition net_validate :: "network_policy \<Rightarrow> (policy_error, unit) rust_result" where
  "net_validate p =
     (if net_mode p = NetExternal
         \<and> (net_domain_mode p \<noteq> DomainDisabled \<or> net_unix_socket_mode p \<noteq> SocketsDisabled
            \<or> net_local_access p \<noteq> LocalDeny \<or> net_domains p \<noteq> [] \<or> net_unix_sockets p \<noteq> []
            \<or> net_local_ipc p \<noteq> [])
      then Inl (InvalidRule ''external network policies cannot contain local settings'')
      else Inr ())"

definition merge_domain :: "domain_rule \<Rightarrow> domain_rule \<Rightarrow> domain_rule" where
  "merge_domain e r = (if dom_access r = DomDeny then e\<lparr>dom_access := DomDeny\<rparr> else e)"

definition merge_socket :: "unix_socket_rule \<Rightarrow> unix_socket_rule \<Rightarrow> unix_socket_rule" where
  "merge_socket e r = (if sock_access r = DomDeny then e\<lparr>sock_access := DomDeny\<rparr> else e)"

definition merge_ipc :: "local_ipc_rule \<Rightarrow> local_ipc_rule \<Rightarrow> local_ipc_rule" where
  "merge_ipc e r = (if ipc_access r = DomDeny then e\<lparr>ipc_access := DomDeny\<rparr> else e)"

definition socket_key :: "unix_socket_rule \<Rightarrow> native_component_key list" where
  "socket_key r = native_path_key (sock_path r)"

definition ipc_key :: "local_ipc_rule \<Rightarrow> endpoint_key" where
  "ipc_key r = endpoint_key_of (ipc_endpoint r)"

definition net_normalized :: "network_policy \<Rightarrow> (policy_error, network_policy) rust_result" where
  "net_normalized p =
     and_then (net_validate p)
       (\<lambda>_. Inr (p\<lparr>net_domains := collapse dom_pattern merge_domain (net_domains p),
                    net_unix_sockets := collapse socket_key merge_socket (net_unix_sockets p),
                    net_local_ipc := collapse ipc_key merge_ipc (net_local_ipc p)\<rparr>))"

section \<open>Decisions (network.rs)\<close>

fun combine_access :: "domain_access option \<Rightarrow> domain_access \<Rightarrow> domain_access" where
  "combine_access (Some DomDeny) _ = DomDeny"
| "combine_access _ DomDeny = DomDeny"
| "combine_access _ _ = DomAllow"

definition access_for_normalized_domain :: "network_policy \<Rightarrow> string \<Rightarrow> domain_access option" where
  "access_for_normalized_domain p domain =
     foldl (\<lambda>result r. if domain_matches (dom_matcher r) domain
                       then Some (combine_access result (dom_access r)) else result) None (net_domains p)"

definition has_exact_allow :: "network_policy \<Rightarrow> string \<Rightarrow> bool" where
  "has_exact_allow p domain =
     list_ex (\<lambda>r. dom_access r = DomAllow \<and> \<not> contains_char (CHR ''*'') (dom_pattern r)
                   \<and> \<not> contains_char (CHR ''?'') (dom_pattern r) \<and> dom_pattern r = domain) (net_domains p)"

definition domain_decision :: "network_policy \<Rightarrow> string \<Rightarrow> network_decision" where
  "domain_decision p domain =
     (case net_mode p of
        NetDisabled \<Rightarrow> NetDeny
      | NetExternal \<Rightarrow> NetExternallyEnforced
      | NetEnabled \<Rightarrow>
          (case net_domain_mode p of
             DomainDisabled \<Rightarrow> NetDeny
           | DomainEnabled \<Rightarrow>
               if access_for_normalized_domain p domain = Some DomDeny then NetDeny else NetAllow
           | DomainRestricted \<Rightarrow>
               if access_for_normalized_domain p domain = Some DomAllow then NetAllow else NetDeny))"

definition decision_for_domain ::
  "unicode_data \<Rightarrow> network_policy \<Rightarrow> string \<Rightarrow> (policy_error, network_decision) rust_result" where
  "decision_for_domain U p raw = and_then (normalize_domain U raw) (\<lambda>domain. Inr (domain_decision p domain))"

definition resolved_decision :: "network_policy \<Rightarrow> string \<Rightarrow> ip_addr list \<Rightarrow> network_decision" where
  "resolved_decision p domain ips =
     (case parse_ip_literal domain of
        Some literal \<Rightarrow>
          if list_ex (\<lambda>ip. ip \<noteq> literal) ips then NetDeny
          else if has_exact_allow p domain \<or> net_local_access p = LocalAllow \<or> \<not> is_non_public_ip literal
          then NetAllow else NetDeny
      | None \<Rightarrow>
          (let explicit_localhost_allow = (domain = ''localhost'' \<and> has_exact_allow p domain)
           in if domain = ''localhost'' \<and> net_local_access p = LocalDeny \<and> \<not> explicit_localhost_allow then NetDeny
              else if ips = [] then NetDeny
              else if net_local_access p = LocalDeny
                   \<and> list_ex (\<lambda>ip. is_non_public_ip ip \<and> \<not> (explicit_localhost_allow \<and> ip_is_loopback ip)) ips
              then NetDeny
              else NetAllow))"

definition decision_for_domain_with_resolved_ips ::
  "unicode_data \<Rightarrow> network_policy \<Rightarrow> string \<Rightarrow> ip_addr list \<Rightarrow> (policy_error, network_decision) rust_result" where
  "decision_for_domain_with_resolved_ips U p raw ips =
     and_then (normalize_domain U raw)
       (\<lambda>domain. and_then (decision_for_domain U p domain)
          (\<lambda>decision. if decision \<noteq> NetAllow then Inr decision else Inr (resolved_decision p domain ips)))"

definition decision_for_resolved_target ::
  "unicode_data \<Rightarrow> network_policy \<Rightarrow> resolved_target \<Rightarrow> (policy_error, network_decision) rust_result" where
  "decision_for_resolved_target U p t =
     decision_for_domain_with_resolved_ips U p (target_domain t) (map socket_ip (target_addresses t))"

definition contains_address :: "resolved_target \<Rightarrow> socket_addr \<Rightarrow> bool" where
  "contains_address t a \<longleftrightarrow> a \<in> set (target_addresses t)"

definition decision_for_connected_address ::
  "unicode_data \<Rightarrow> network_policy \<Rightarrow> resolved_target \<Rightarrow> socket_addr \<Rightarrow> (policy_error, network_decision) rust_result" where
  "decision_for_connected_address U p t connected =
     and_then (decision_for_resolved_target U p t)
       (\<lambda>decision. if decision \<noteq> NetAllow then Inr decision
                    else Inr (if contains_address t connected then NetAllow else NetDeny))"

definition authorize_connection ::
  "unicode_data \<Rightarrow> network_policy \<Rightarrow> resolved_target \<Rightarrow> socket_addr \<Rightarrow> (policy_error, connection_authorization) rust_result" where
  "authorize_connection U p t connected =
     and_then (decision_for_connected_address U p t connected)
       (\<lambda>d. Inr (case d of NetAllow \<Rightarrow> Allowed connected | NetDeny \<Rightarrow> Denied
                  | NetExternallyEnforced \<Rightarrow> ExternallyEnforced))"

definition resolved_step ::
  "string \<Rightarrow> ip_addr option \<Rightarrow> socket_addr set \<times> socket_addr list \<Rightarrow> socket_addr
     \<Rightarrow> (policy_error, socket_addr set \<times> socket_addr list) rust_result" where
  "resolved_step domain literal st address =
     (if (case literal of None \<Rightarrow> False | Some l \<Rightarrow> l \<noteq> socket_ip address)
      then Inl (ResolvedAddressMismatch domain address)
      else Inr (push_unique id st address))"

definition resolved_target_new ::
  "unicode_data \<Rightarrow> string \<Rightarrow> socket_addr list \<Rightarrow> (policy_error, resolved_target) rust_result" where
  "resolved_target_new U raw addresses =
     and_then (normalize_domain U raw)
       (\<lambda>domain. and_then (try_fold (resolved_step domain (parse_ip_literal domain)) ({}, []) addresses)
          (\<lambda>(seen, unique). Inr \<lparr>target_domain = domain, target_addresses = unique\<rparr>))"

definition decision_for_unix_socket :: "network_policy \<Rightarrow> string \<Rightarrow> (policy_error, network_decision) rust_result" where
  "decision_for_unix_socket p path =
     and_then (selector_absolute path)
       (\<lambda>_. if net_mode p = NetExternal then Inr NetExternallyEnforced
             else if net_mode p = NetDisabled \<or> net_unix_socket_mode p = SocketsDisabled then Inr NetDeny
             else let result = foldl (\<lambda>result r. if paths_equal path (sock_path r)
                                   then Some (combine_access result (sock_access r)) else result)
                                 None (net_unix_sockets p)
                  in Inr (case net_unix_socket_mode p of
                       SocketsDisabled \<Rightarrow> NetDeny
                     | SocketsEnabled \<Rightarrow> if result = Some DomDeny then NetDeny else NetAllow
                     | SocketsRestricted \<Rightarrow> if result = Some DomAllow then NetAllow else NetDeny))"

section \<open>Classes of addresses\<close>

text \<open>The special-purpose IPv4 blocks by their CIDR notation.\<close>

definition cidr :: "nat \<Rightarrow> nat \<Rightarrow> nat \<Rightarrow> nat \<Rightarrow> nat \<Rightarrow> ipv4_addr \<Rightarrow> bool" where
  "cidr a b c d len ip \<longleftrightarrow>
     unat ip div 2 ^ (32 - len) = (((a * 256 + b) * 256 + c) * 256 + d) div 2 ^ (32 - len)"

definition special_purpose_ipv4 :: "(ipv4_addr \<Rightarrow> bool) list" where
  "special_purpose_ipv4 =
     [cidr 0 0 0 0 8, cidr 10 0 0 0 8, cidr 100 64 0 0 10, cidr 127 0 0 0 8, cidr 169 254 0 0 16,
      cidr 172 16 0 0 12, cidr 192 0 0 0 24, cidr 192 0 2 0 24, cidr 192 88 99 0 24,
      cidr 192 168 0 0 16, cidr 198 18 0 0 15, cidr 198 51 100 0 24, cidr 203 0 113 0 24,
      cidr 224 0 0 0 4, cidr 240 0 0 0 4]"

lemma unat_bound: "unat (a :: ipv4_addr) < 4294967296"
  using unsigned_less [of a] by simp

lemma high_octets:
  "octet 0 a = unat a div 16777216" "octet 1 a = (unat a div 65536) mod 256"
proof -
  have "unat a < 4294967296" by (rule unat_bound)
  then have "unat a div 16777216 < 256" by linarith
  then show "octet 0 a = unat a div 16777216" by (simp add: octet_def)
qed (simp add: octet_def)

lemma ipv4_masks:
  fixes a :: ipv4_addr
  shows "a AND 0xFF000000 = 0 \<longleftrightarrow> unat a div 16777216 = 0"
    and "a AND 0xFFC00000 = 0x64400000 \<longleftrightarrow> unat a div 4194304 = 401"
    and "a AND 0xFFFFFF00 = 0xC0000000 \<longleftrightarrow> unat a div 256 = 0xC00000"
    and "a AND 0xFFFFFF00 = 0xC0000200 \<longleftrightarrow> unat a div 256 = 0xC00002"
    and "a AND 0xFFFFFF00 = 0xC0586300 \<longleftrightarrow> unat a div 256 = 0xC05863"
    and "a AND 0xFFFE0000 = 0xC6120000 \<longleftrightarrow> unat a div 131072 = 0x6309"
    and "a AND 0xFFFFFF00 = 0xC6336400 \<longleftrightarrow> unat a div 256 = 0xC63364"
    and "a AND 0xFFFFFF00 = 0xCB007100 \<longleftrightarrow> unat a div 256 = 0xCB0071"
    and "a AND 0xF0000000 = 0xF0000000 \<longleftrightarrow> unat a div 268435456 = 15"
  using masked_eq_iff_div [of 24 "0 :: 32 word" a] masked_eq_iff_div [of 22 "401 :: 32 word" a]
    masked_eq_iff_div [of 8 "0xC00000 :: 32 word" a] masked_eq_iff_div [of 8 "0xC00002 :: 32 word" a]
    masked_eq_iff_div [of 8 "0xC05863 :: 32 word" a] masked_eq_iff_div [of 17 "0x6309 :: 32 word" a]
    masked_eq_iff_div [of 8 "0xC63364 :: 32 word" a] masked_eq_iff_div [of 8 "0xCB0071 :: 32 word" a]
    masked_eq_iff_div [of 28 "15 :: 32 word" a]
  by (simp_all add: mask_eq_exp_minus_1 push_bit_eq_mult)

lemma octet_pair: "r < 256 \<Longrightarrow> m div 256 = q \<and> m mod 256 = r \<longleftrightarrow> m = q * 256 + (r :: nat)"
  by auto

lemma octet_range:
  fixes m :: nat
  shows "m div 256 = 172 \<and> 16 \<le> m mod 256 \<and> m mod 256 \<le> 31 \<longleftrightarrow> m div 16 = 2753"
    and "224 \<le> m div 256 \<and> m div 256 \<le> 239 \<longleftrightarrow> m div 4096 = 14"
proof -
  have div: "m div 256 = 172 \<longleftrightarrow> 44032 \<le> m \<and> m < 44288" "m div 16 = 2753 \<longleftrightarrow> 44048 \<le> m \<and> m < 44064"
    by auto
  show "m div 256 = 172 \<and> 16 \<le> m mod 256 \<and> m mod 256 \<le> 31 \<longleftrightarrow> m div 16 = 2753"
  proof (cases "m div 256 = 172")
    case True
    then have "m mod 256 = m - 44032" by (simp add: modulo_nat_def)
    with True div show ?thesis by linarith
  qed (use div in linarith)
  have "224 \<le> m div 256 \<longleftrightarrow> 57344 \<le> m" "m div 256 \<le> 239 \<longleftrightarrow> m < 61440"  "m div 4096 = 14 \<longleftrightarrow> 57344 \<le> m \<and> m < 61440" by auto
  then show  "224 \<le> m div 256 \<and> m div 256 \<le> 239 \<longleftrightarrow> m div 4096 = 14" by blast
qed

lemma special_purpose_ipv4_iff:
  "list_ex (\<lambda>block. block a) special_purpose_ipv4 \<longleftrightarrow>
     (let n = unat a; m = n div 65536
      in n div 16777216 \<in> {0, 10, 127} \<or> n div 4194304 = 401 \<or> m \<in> {43518, 49320} \<or> m div 16 = 2753
         \<or> n div 256 \<in> {0xC00000, 0xC00002, 0xC05863, 0xC63364, 0xCB0071}
         \<or> n div 131072 = 0x6309 \<or> m div 4096 \<in> {14, 15})"
proof -
  have "unat a div 1048576 = unat a div 65536 div 16" "unat a div 268435456 = unat a div 65536 div 4096"
    by (simp_all flip: div_mult2_eq)
  then have "cidr 0 0 0 0 8 a \<longleftrightarrow> unat a div 16777216 = 0" "cidr 10 0 0 0 8 a \<longleftrightarrow> unat a div 16777216 = 10"
    "cidr 127 0 0 0 8 a \<longleftrightarrow> unat a div 16777216 = 127" "cidr 100 64 0 0 10 a \<longleftrightarrow> unat a div 4194304 = 401"
    "cidr 169 254 0 0 16 a \<longleftrightarrow> unat a div 65536 = 43518" "cidr 192 168 0 0 16 a \<longleftrightarrow> unat a div 65536 = 49320"
    "cidr 172 16 0 0 12 a \<longleftrightarrow> unat a div 65536 div 16 = 2753"
    "cidr 192 0 0 0 24 a \<longleftrightarrow> unat a div 256 = 0xC00000" "cidr 192 0 2 0 24 a \<longleftrightarrow> unat a div 256 = 0xC00002"
    "cidr 192 88 99 0 24 a \<longleftrightarrow> unat a div 256 = 0xC05863" "cidr 198 51 100 0 24 a \<longleftrightarrow> unat a div 256 = 0xC63364"
    "cidr 203 0 113 0 24 a \<longleftrightarrow> unat a div 256 = 0xCB0071" "cidr 198 18 0 0 15 a \<longleftrightarrow> unat a div 131072 = 0x6309"
    "cidr 224 0 0 0 4 a \<longleftrightarrow> unat a div 65536 div 4096 = 14" "cidr 240 0 0 0 4 a \<longleftrightarrow> unat a div 65536 div 4096 = 15"
    by (simp_all add: cidr_def)
  note blocks = this
  show ?thesis unfolding special_purpose_ipv4_def list_ex_Cons_iff list_ex_Nil_iff blocks Let_def insert_iff empty_iff by blast
qed

lemma non_public_ipv4_iff:
  "is_non_public_ipv4 a \<longleftrightarrow>
     (let n = unat a; m = n div 65536
      in n div 16777216 \<in> {0, 10, 127} \<or> n div 4194304 = 401 \<or> m \<in> {43518, 49320} \<or> m div 16 = 2753
         \<or> n div 256 \<in> {0xC00002, 0xC05863, 0xC63364, 0xCB0071}
         \<or> (n div 256 = 0xC00000 \<and> a \<noteq> 0xC0000009 \<and> a \<noteq> 0xC000000A)
         \<or> n div 131072 = 0x6309 \<or> m div 4096 \<in> {14, 15})"
proof -
  have div: "unat a div 16777216 = unat a div 65536 div 256" "unat a div 268435456 = unat a div 65536 div 4096"
    by (simp_all flip: div_mult2_eq)
  have broadcast: "a = 0xFFFFFFFF \<Longrightarrow> unat a div 65536 div 4096 = 15"
    and unspecified: "a = 0 \<Longrightarrow> unat a div 65536 div 256 = 0" by simp_all
  have octets: "unat a div 65536 div 256 = 192 \<and> unat a div 65536 mod 256 = 168 \<longleftrightarrow> unat a div 65536 = 49320"
    "unat a div 65536 div 256 = 169 \<and> unat a div 65536 mod 256 = 254 \<longleftrightarrow> unat a div 65536 = 43518"
    using octet_pair [of 168 "unat a div 65536" 192] octet_pair [of 254 "unat a div 65536" 169] by simp_all
  show ?thesis
    unfolding is_non_public_ipv4_def ipv4_is_loopback_def ipv4_is_private_def ipv4_is_link_local_def
      ipv4_is_unspecified_def ipv4_is_multicast_def ipv4_is_broadcast_def high_octets ipv4_masks div
      octet_range Let_def insert_iff empty_iff
    unfolding octets using broadcast unspecified by argo
qed

lemma non_public_ipv4_blocks:
  "is_non_public_ipv4 a \<longleftrightarrow>
     list_ex (\<lambda>block. block a) special_purpose_ipv4 \<and> a \<noteq> ipv4_of_octets 192 0 0 9 \<and> a \<noteq> ipv4_of_octets 192 0 0 10"
proof -
  have exc: "ipv4_of_octets 192 0 0 9 = 0xC0000009" "ipv4_of_octets 192 0 0 10 = 0xC000000A"
    by (simp_all add: ipv4_of_octets_def)
  show ?thesis
  proof (cases "a = 0xC0000009 \<or> a = 0xC000000A")
    case True
    then show ?thesis unfolding non_public_ipv4_iff by (elim disjE) (simp_all add: exc)
  next
    case False
    then show ?thesis unfolding non_public_ipv4_iff special_purpose_ipv4_iff exc Let_def by blast
  qed
qed

lemma ipv6_masks:
  fixes s :: "16 word"
  shows "s AND 0xFE00 = 0xFC00 \<longleftrightarrow> unat s div 512 = 126"
    and "s AND 0xFFC0 = 0xFE80 \<longleftrightarrow> unat s div 64 = 1018"
    and "s AND 0xFFC0 = 0xFEC0 \<longleftrightarrow> unat s div 64 = 1019"
    and "drop_bit 8 s = 0xFF \<longleftrightarrow> unat s div 256 = 255"
proof -
  have "unat (drop_bit 8 s) = unat s div 256" by (subst unat_drop_bit_eq) (simp add: drop_bit_eq_div)
  then show "drop_bit 8 s = 0xFF \<longleftrightarrow> unat s div 256 = 255"
    by (simp only: word_eq_iff_unsigned [where ?'a = nat] unat_numeral) simp
qed (use masked_eq_iff_div [of 9 "126 :: 16 word" s] masked_eq_iff_div [of 6 "1018 :: 16 word" s]
    masked_eq_iff_div [of 6 "1019 :: 16 word" s]
  in \<open>simp_all add: mask_eq_exp_minus_1 push_bit_eq_mult\<close>)

text \<open>IPv6 blocks by their CIDR notation: an address is the number its eight segments write in base 65536, a
  prefix the segments before the double colon, and an address is in a block of length \<open>len\<close> when the two
  numbers agree in their first \<open>len\<close> of 128 bits.\<close>

definition segments_number :: "nat list \<Rightarrow> nat" where
  "segments_number = foldl (\<lambda>n s. n * 65536 + s) 0"

fun ipv6_segments :: "ipv6_addr \<Rightarrow> nat list" where
  "ipv6_segments (Ipv6 s0 s1 s2 s3 s4 s5 s6 s7) = map unat [s0, s1, s2, s3, s4, s5, s6, s7]"

definition cidr6 :: "nat list \<Rightarrow> nat \<Rightarrow> ipv6_addr \<Rightarrow> bool" where
  "cidr6 prefix_segments len a \<longleftrightarrow>
     segments_number (ipv6_segments a) div 2 ^ (128 - len) =
     segments_number (take 8 (prefix_segments @ replicate 8 0)) div 2 ^ (128 - len)"

text \<open>The special-purpose blocks of the IANA registry with the site-local one, the assignments inside \<open>2001::/23\<close>
  that are globally reachable, and the blocks whose last 32 bits are an IPv4 address: compatible, mapped and
  behind the well-known NAT64 prefix.\<close>

definition special_purpose_ipv6 :: "(ipv6_addr \<Rightarrow> bool) list" where
  "special_purpose_ipv6 =
     [cidr6 [0x64, 0xFF9B, 1] 48, cidr6 [0x100] 64, cidr6 [0x100, 0, 0, 1] 64, cidr6 [0x2001] 23, cidr6 [0x2001, 0xDB8] 32,
      cidr6 [0x2002] 16, cidr6 [0x3FFF] 20, cidr6 [0x5F00] 16, cidr6 [0xFC00] 7, cidr6 [0xFE80] 10, cidr6 [0xFEC0] 10,
      cidr6 [0xFF00] 8]"

definition reachable_ipv6 :: "(ipv6_addr \<Rightarrow> bool) list" where
  "reachable_ipv6 =
     [cidr6 [0x2001, 1, 0, 0, 0, 0, 0, 1] 128, cidr6 [0x2001, 1, 0, 0, 0, 0, 0, 2] 128, cidr6 [0x2001, 1, 0, 0, 0, 0, 0, 3] 128,
      cidr6 [0x2001, 3] 32, cidr6 [0x2001, 4, 0x112] 48, cidr6 [0x2001, 0x20] 28, cidr6 [0x2001, 0x30] 28]"

definition ipv4_embedding_ipv6 :: "(ipv6_addr \<Rightarrow> bool) list" where
  "ipv4_embedding_ipv6 = [cidr6 [] 96, cidr6 [0, 0, 0, 0, 0, 0xFFFF] 96, cidr6 [0x64, 0xFF9B] 96]"

definition low_ipv4 :: "ipv6_addr \<Rightarrow> ipv4_addr" where
  "low_ipv4 a = of_nat (segments_number (ipv6_segments a))"

lemma segments_number_snoc [simp]:
  "segments_number [] = 0" "segments_number (xs @ [x]) = segments_number xs * 65536 + x"
  by (simp_all add: segments_number_def)

lemma radix_eq: "u < k \<Longrightarrow> v < k \<Longrightarrow> a * k + u = b * k + v \<longleftrightarrow> a = b \<and> u = (v :: nat)"
proof
  assume uv: "u < k" "v < k" and eq: "a * k + u = b * k + v"
  have "(a * k + u) div k = a" "(a * k + u) mod k = u" "(b * k + v) div k = b" "(b * k + v) mod k = v" using uv by auto
  with eq show "a = b \<and> u = v" by metis
qed simp

lemma split_segment:
  fixes x y a b d :: nat
  assumes "x < 65536" and "y < 65536" and "d \<le> 16"
  shows "(a * 65536 + x) div 2 ^ d = (b * 65536 + y) div 2 ^ d \<longleftrightarrow> a = b \<and> x div 2 ^ d = y div 2 ^ d"
proof -
  define k where "k = (2 :: nat) ^ (16 - d)"
  have "k * 2 ^ d = 2 ^ 16" using assms(3) by (simp add: k_def flip: power_add)
  then have k: "65536 = k * 2 ^ d" by simp
  have "(a * 65536 + x) div 2 ^ d = a * k + x div 2 ^ d" for a x :: nat by (simp add: k flip: mult.assoc)
  moreover have "z div 2 ^ d < k" if "z < 65536" for z :: nat using that by (simp add: k less_mult_imp_div_less)
  ultimately show ?thesis using assms(1,2) by (simp only: radix_eq)
qed

lemma segments_number_inj:
  "length xs = length ys \<Longrightarrow> list_all (\<lambda>x. x < 65536) xs \<Longrightarrow> list_all (\<lambda>x. x < 65536) ys \<Longrightarrow>
     segments_number xs = segments_number ys \<longleftrightarrow> xs = ys"
proof (induction xs ys rule: rev_induct2)
  case (4 x xs y ys)
  then show ?case using radix_eq [of x 65536 y "segments_number xs" "segments_number ys"] by simp
qed simp_all

lemma segments_prefix:
  assumes "length ns = length ss" and "k < length ns" and "d \<le> 16"
    and "list_all (\<lambda>x. x < 65536) ns" and "list_all (\<lambda>x. x < 65536) ss"
  shows "segments_number ns div 2 ^ (16 * (length ns - Suc k) + d) = segments_number ss div 2 ^ (16 * (length ns - Suc k) + d)
     \<longleftrightarrow> take k ns = take k ss \<and> ns ! k div 2 ^ d = ss ! k div 2 ^ d"
  using assms
proof (induction ns ss rule: rev_induct2)
  case (4 x xs y ys)
  show ?case
  proof (cases "k = length xs")
    case True
    with 4 show ?thesis
      using split_segment [of x y d "segments_number xs" "segments_number ys"] segments_number_inj [of xs ys] by (auto simp: nth_append)
  next
    case False
    with 4 have k: "k < length xs" "length xs = length ys" by simp_all
    define e where "e = 16 * (length xs - Suc k) + d"
    have len: "16 * (length (xs @ [x]) - Suc k) + d = 16 + e" using k by (simp add: e_def)
    have shift: "(q * 65536 + r) div 2 ^ (16 + e) = q div 2 ^ e" if "r < 65536" for q r :: nat
      using that by (simp add: power_add div_mult2_eq)
    have "segments_number xs div 2 ^ e = segments_number ys div 2 ^ e \<longleftrightarrow>
        take k xs = take k ys \<and> xs ! k div 2 ^ d = ys ! k div 2 ^ d"
      using 4 k unfolding e_def by simp
    then show ?thesis unfolding len using 4(5,6) k by (simp add: shift nth_append)
  qed
qed simp_all

lemma cidr6_iff:
  assumes "k < 8" and "d \<le> 16" and "list_all (\<lambda>x. x < 65536) ss" and "len = 128 - (16 * (7 - k) + d)"
  shows "cidr6 ss len a \<longleftrightarrow> take k (ipv6_segments a) = take k (ss @ replicate 8 0) \<and>
    ipv6_segments a ! k div 2 ^ d = (ss @ replicate 8 0) ! k div 2 ^ d"
proof -
  have bound: "unat (s :: 16 word) < 65536" for s using unsigned_less [of s] by simp
  have segs: "length (ipv6_segments a) = 8" "list_all (\<lambda>x. x < 65536) (ipv6_segments a)"
    by (cases a; simp add: bound)+
  let ?ss = "take 8 (ss @ replicate 8 0)"
  have pre: "length ?ss = 8" "list_all (\<lambda>x. x < 65536) ?ss" using assms(3) by (auto simp: list_all_iff dest!: in_set_takeD)
  from assms(1,2,4) have "128 - len = 16 * (length (ipv6_segments a) - Suc k) + d" using segs by simp
  moreover have "take k ?ss = take k (ss @ replicate 8 0)" "?ss ! k = (ss @ replicate 8 0) ! k" using assms(1) by (simp_all only: take_take nth_take min_absorb1 less_imp_le)
  ultimately show ?thesis
    unfolding cidr6_def using segments_prefix [of "ipv6_segments a" ?ss k d] segs pre assms(1,2) by (simp only:)
qed

lemma low_ipv4_segments: "low_ipv4 (Ipv6 s0 s1 s2 s3 s4 s5 hi lo) = ipv4_of_segments hi lo"
proof -
  have "(of_nat (q * 4294967296 + r) :: 32 word) = of_nat r" for q r :: nat
    unfolding word_of_nat_eq_iff by (simp add: take_bit_eq_mod)
  moreover have "segments_number (ipv6_segments (Ipv6 s0 s1 s2 s3 s4 s5 hi lo)) =
      segments_number (map unat [s0, s1, s2, s3, s4, s5]) * 4294967296 + (unat hi * 65536 + unat lo)"
    by (simp add: segments_number_def)
  ultimately show ?thesis unfolding low_ipv4_def ipv4_of_segments_def by (simp only:)
qed


lemma segment_eq: "unat (s :: 16 word) = n \<longleftrightarrow> s = of_nat n \<and> n < 65536"
  using unsigned_less [of s] by (auto simp: unat_of_nat)

lemma pad_segments: "replicate 8 (0 :: nat) = [0, 0, 0, 0, 0, 0, 0, 0]"
  by (simp add: eval_nat_numeral)

lemma segment_ranges:
  fixes s :: "16 word"
  shows "s < 0x200 \<longleftrightarrow> unat s div 512 = 0" and "s \<le> 0xFFF \<longleftrightarrow> unat s div 4096 = 0"
    and "0x20 \<le> s \<and> s < 0x30 \<longleftrightarrow> unat s div 16 = 2" and "0x30 \<le> s \<and> s \<le> 0x3F \<longleftrightarrow> unat s div 16 = 3"
  unfolding word_less_nat_alt word_le_nat_alt by auto

lemma special_blocks:
  assumes a: "a = Ipv6 s0 s1 s2 s3 s4 s5 s6 s7"
  shows "cidr6 [0x64, 0xFF9B, 1] 48 a \<longleftrightarrow> s0 = 0x64 \<and> s1 = 0xFF9B \<and> s2 = 1"
    and "cidr6 [0x100] 64 a \<longleftrightarrow> s0 = 0x100 \<and> s1 = 0 \<and> s2 = 0 \<and> s3 = 0"
    and "cidr6 [0x100, 0, 0, 1] 64 a \<longleftrightarrow> s0 = 0x100 \<and> s1 = 0 \<and> s2 = 0 \<and> s3 = 1"
    and "cidr6 [0x2001] 23 a \<longleftrightarrow> s0 = 0x2001 \<and> s1 < 0x200"
    and "cidr6 [0x2001, 0xDB8] 32 a \<longleftrightarrow> s0 = 0x2001 \<and> s1 = 0xDB8"
    and "cidr6 [0x2002] 16 a \<longleftrightarrow> s0 = 0x2002"
    and "cidr6 [0x3FFF] 20 a \<longleftrightarrow> s0 = 0x3FFF \<and> s1 \<le> 0xFFF"
    and "cidr6 [0x5F00] 16 a \<longleftrightarrow> s0 = 0x5F00"
    and "cidr6 [0xFC00] 7 a \<longleftrightarrow> s0 AND 0xFE00 = 0xFC00"
    and "cidr6 [0xFE80] 10 a \<longleftrightarrow> s0 AND 0xFFC0 = 0xFE80"
    and "cidr6 [0xFEC0] 10 a \<longleftrightarrow> s0 AND 0xFFC0 = 0xFEC0"
    and "cidr6 [0xFF00] 8 a \<longleftrightarrow> drop_bit 8 s0 = 0xFF"
  unfolding ipv6_masks a
  using cidr6_iff [of 2 0 "[0x64, 0xFF9B, 1]" 48] cidr6_iff [of 3 0 "[0x100]" 64] cidr6_iff [of 3 0 "[0x100, 0, 0, 1]" 64]
    cidr6_iff [of 1 9 "[0x2001]" 23] cidr6_iff [of 1 0 "[0x2001, 0xDB8]" 32] cidr6_iff [of 0 0 "[0x2002]" 16]
    cidr6_iff [of 1 12 "[0x3FFF]" 20] cidr6_iff [of 0 0 "[0x5F00]" 16] cidr6_iff [of 0 9 "[0xFC00]" 7]
    cidr6_iff [of 0 6 "[0xFE80]" 10] cidr6_iff [of 0 6 "[0xFEC0]" 10] cidr6_iff [of 0 8 "[0xFF00]" 8]
  by (simp_all add: pad_segments segment_ranges segment_eq)

lemma reachable_blocks:
  assumes a: "a = Ipv6 s0 s1 s2 s3 s4 s5 s6 s7"
  shows "cidr6 [0x2001, 1, 0, 0, 0, 0, 0, 1] 128 a \<longleftrightarrow>
      s0 = 0x2001 \<and> s1 = 1 \<and> s2 = 0 \<and> s3 = 0 \<and> s4 = 0 \<and> s5 = 0 \<and> s6 = 0 \<and> s7 = 1"
    and "cidr6 [0x2001, 1, 0, 0, 0, 0, 0, 2] 128 a \<longleftrightarrow>
      s0 = 0x2001 \<and> s1 = 1 \<and> s2 = 0 \<and> s3 = 0 \<and> s4 = 0 \<and> s5 = 0 \<and> s6 = 0 \<and> s7 = 2"
    and "cidr6 [0x2001, 1, 0, 0, 0, 0, 0, 3] 128 a \<longleftrightarrow>
      s0 = 0x2001 \<and> s1 = 1 \<and> s2 = 0 \<and> s3 = 0 \<and> s4 = 0 \<and> s5 = 0 \<and> s6 = 0 \<and> s7 = 3"
    and "cidr6 [0x2001, 3] 32 a \<longleftrightarrow> s0 = 0x2001 \<and> s1 = 3"
    and "cidr6 [0x2001, 4, 0x112] 48 a \<longleftrightarrow> s0 = 0x2001 \<and> s1 = 4 \<and> s2 = 0x112"
    and "cidr6 [0x2001, 0x20] 28 a \<longleftrightarrow> s0 = 0x2001 \<and> 0x20 \<le> s1 \<and> s1 < 0x30"
    and "cidr6 [0x2001, 0x30] 28 a \<longleftrightarrow> s0 = 0x2001 \<and> 0x30 \<le> s1 \<and> s1 \<le> 0x3F"
    and "cidr6 [] 96 a \<longleftrightarrow> s0 = 0 \<and> s1 = 0 \<and> s2 = 0 \<and> s3 = 0 \<and> s4 = 0 \<and> s5 = 0"
    and "cidr6 [0, 0, 0, 0, 0, 0xFFFF] 96 a \<longleftrightarrow> s0 = 0 \<and> s1 = 0 \<and> s2 = 0 \<and> s3 = 0 \<and> s4 = 0 \<and> s5 = 0xFFFF"
    and "cidr6 [0x64, 0xFF9B] 96 a \<longleftrightarrow> s0 = 0x64 \<and> s1 = 0xFF9B \<and> s2 = 0 \<and> s3 = 0 \<and> s4 = 0 \<and> s5 = 0"
  unfolding a
  using cidr6_iff [of 7 0 "[0x2001, 1, 0, 0, 0, 0, 0, 1]" 128] cidr6_iff [of 7 0 "[0x2001, 1, 0, 0, 0, 0, 0, 2]" 128]
    cidr6_iff [of 7 0 "[0x2001, 1, 0, 0, 0, 0, 0, 3]" 128] cidr6_iff [of 1 0 "[0x2001, 3]" 32]
    cidr6_iff [of 2 0 "[0x2001, 4, 0x112]" 48] cidr6_iff [of 1 4 "[0x2001, 0x20]" 28] cidr6_iff [of 1 4 "[0x2001, 0x30]" 28]
    cidr6_iff [of 5 0 "[]" 96] cidr6_iff [of 5 0 "[0, 0, 0, 0, 0, 0xFFFF]" 96] cidr6_iff [of 5 0 "[0x64, 0xFF9B]" 96]
  by (simp_all add: pad_segments segment_ranges segment_eq)

lemma reachable_iff:
  assumes "a = Ipv6 s0 s1 s2 s3 s4 s5 s6 s7"
  shows "list_ex (\<lambda>block. block a) reachable_ipv6 \<longleftrightarrow> s0 = 0x2001 \<and> s1 < 0x200 \<and> \<not> is_non_public_ietf_protocol_assignment a"
proof -
  have s7: "1 \<le> s7 \<and> s7 \<le> 3 \<longleftrightarrow> s7 = 1 \<or> s7 = 2 \<or> s7 = 3"
    unfolding word_le_nat_alt word_eq_iff_unsigned [where ?'a = nat] by auto
  have s1: "0x20 \<le> s1 \<and> s1 \<le> 0x3F \<longleftrightarrow> 0x20 \<le> s1 \<and> s1 < 0x30 \<or> 0x30 \<le> s1 \<and> s1 \<le> 0x3F"
    "s1 \<le> 0x3F \<Longrightarrow> s1 < 0x200" "s1 < 0x30 \<Longrightarrow> s1 < 0x200" "s1 \<ge> 0x200 \<longleftrightarrow> \<not> s1 < 0x200"
    unfolding word_le_nat_alt word_less_nat_alt by auto
  have "s1 = 1 \<Longrightarrow> s1 < 0x200" "s1 = 3 \<Longrightarrow> s1 < 0x200" "s1 = 4 \<Longrightarrow> s1 < 0x200" by simp_all
  note small = this s1(2,3)
  show ?thesis
    unfolding assms reachable_ipv6_def list_ex_Cons_iff list_ex_Nil_iff reachable_blocks [OF refl]
      is_non_public_ietf_protocol_assignment_def s7 s1(1,4) ipv6_addr.case if_bool_eq_conj
    using small by argo
qed

lemma case_if_Some: "(case if b then Some x else None of None \<Rightarrow> False | Some v \<Rightarrow> P v) \<longleftrightarrow> b \<and> P x"
  by simp

lemma non_public_ipv6_blocks:
  "is_non_public_ipv6 a \<longleftrightarrow>
     list_ex (\<lambda>block. block a) special_purpose_ipv6 \<and> \<not> list_ex (\<lambda>block. block a) reachable_ipv6
     \<or> list_ex (\<lambda>block. block a) ipv4_embedding_ipv6 \<and> is_non_public_ipv4 (low_ipv4 a)"
proof (cases a)
  case a: (Ipv6 s0 s1 s2 s3 s4 s5 s6 s7)
  note blocks = special_blocks [OF a] reachable_blocks(8,9,10) [OF a]
  have "is_non_public_ipv4 0" "is_non_public_ipv4 1" by (simp_all add: is_non_public_ipv4_def)
  then have zero: "is_non_public_ipv4 (ipv4_of_segments 0 0)" "is_non_public_ipv4 (ipv4_of_segments 0 1)"
    by (simp_all add: ipv4_of_segments_def)
  have ietf: "is_non_public_ietf_protocol_assignment a \<longleftrightarrow>
      s0 = 0x2001 \<and> s1 < 0x200 \<and> \<not> list_ex (\<lambda>block. block a) reachable_ipv6"
    using reachable_iff [OF a] by (auto simp: is_non_public_ietf_protocol_assignment_def a not_le)
  have apart: "s0 = 0x2001 \<and> s1 < 0x200" if "list_ex (\<lambda>block. block a) reachable_ipv6"
    using that unfolding reachable_iff [OF a] by blast
  have embedded: "ipv6_to_ipv4 a = (if cidr6 [] 96 a \<or> cidr6 [0, 0, 0, 0, 0, 0xFFFF] 96 a then Some (low_ipv4 a) else None)"
    "well_known_nat64_ipv4 a = (if cidr6 [0x64, 0xFF9B] 96 a then Some (low_ipv4 a) else None)"
    unfolding blocks by (auto simp: a low_ipv4_segments well_known_nat64_ipv4_def)
  have trivial: "ipv6_is_loopback a \<or> ipv6_is_unspecified a \<Longrightarrow> cidr6 [] 96 a \<and> is_non_public_ipv4 (low_ipv4 a)"
    unfolding blocks using zero by (auto simp: ipv6_is_loopback_def ipv6_is_unspecified_def a low_ipv4_segments)
  have first: "segment0 a = s0" by (simp add: a)
  note code = is_non_public_ipv6_def ietf ipv6_is_multicast_def ipv6_is_unique_local_def ipv6_is_unicast_link_local_def first
  show ?thesis
  proof (cases "list_ex (\<lambda>block. block a) reachable_ipv6")
    case True
    note s = apart [OF True]
    then have "\<not> list_ex (\<lambda>block. block a) ipv4_embedding_ipv6" "s1 \<noteq> 0xDB8"
      unfolding ipv4_embedding_ipv6_def list_ex_Cons_iff list_ex_Nil_iff blocks by auto
    then show ?thesis
      using True s trivial unfolding code embedded ipv4_embedding_ipv6_def list_ex_Cons_iff list_ex_Nil_iff
      by (simp add: a ipv6_is_loopback_def ipv6_is_unspecified_def)
  next
    case False
    then show ?thesis
      using trivial unfolding code embedded case_if_Some ipv4_embedding_ipv6_def special_purpose_ipv6_def list_ex_Cons_iff
        list_ex_Nil_iff special_blocks [OF a] ipv6_addr.case [of _ s0 s1 s2 s3 s4 s5 s6 s7, folded a] by argo
  qed
qed

section \<open>Normalization of hosts\<close>

text \<open>What the code relies on of the Unicode tables: a letter or digit is neither white space nor a
  control character.\<close>

definition sane_tables :: "unicode_data \<Rightarrow> bool" where
  "sane_tables U \<longleftrightarrow> (\<forall>c. uc_alphanumeric U c \<longrightarrow> \<not> char_is_whitespace c \<and> \<not> char_is_control c)"

definition host_char :: "nat \<Rightarrow> bool" where
  "host_char c \<longleftrightarrow> \<not> char_is_whitespace c \<and> \<not> char_is_control c \<and> c \<notin> {0x23, 0x2A, 0x2F, 0x3F, 0x5B, 0x5C, 0x5D, 0x7B, 0x7D}"

lemma host_char_alphanumeric: "sane_tables U \<Longrightarrow> char_is_alphanumeric U c \<Longrightarrow> host_char c"
  by (auto simp: host_char_def char_is_alphanumeric_def sane_tables_def char_is_whitespace_def char_is_control_def
      split: if_splits)

lemma host_char_separators [simp]: "host_char 0x2D" "host_char 0x5F" "host_char 0x2E"
  by (simp_all add: host_char_def char_is_whitespace_def char_is_control_def)

lemma ip_char_bounds: "ip_char c \<Longrightarrow> is_ascii c \<and> host_char (byte c)"
  by (auto simp: ip_char_def to_digit_def Let_def is_ascii_def host_char_def char_is_whitespace_def
      char_is_control_def split: if_splits)

lemma parse_ip_literal_no_scope: "CHR ''%'' \<notin> set h \<Longrightarrow> parse_ip_literal h = parse_ip_addr h"
  by (auto simp: parse_ip_literal_def dest: split_once_Some split: option.splits)

lemma normalize_ip_literal_no_scope:
  "CHR ''%'' \<notin> set h \<Longrightarrow> normalize_ip_literal h = (if parse_ip_addr h \<noteq> None then Some h else None)"
  by (auto simp: normalize_ip_literal_def scoped_literal_def dest: split_once_Some split: option.splits)

lemma normalize_ip_literal_cases:
  "normalize_ip_literal h = Some ip \<Longrightarrow> ip = h \<and> parse_ip_addr h \<noteq> None \<or> CHR ''%'' \<in> set ip"
  by (auto simp: normalize_ip_literal_def scoped_literal_def split: option.splits if_splits)

lemma valid_host_chars:
  assumes "sane_tables U" and "valid_concrete_host U h" and "CHR ''%'' \<notin> set h"
  shows "list_all host_char (str_chars h)" and "h \<noteq> []"
proof -
  consider ip where "parse_ip_addr h = Some ip" | "list_all (valid_host_label U) (split_on (CHR ''.'') h)"
    using assms by (auto simp: valid_concrete_host_def parse_ip_literal_no_scope split: if_splits)
  then have "list_all host_char (str_chars h) \<and> h \<noteq> []"
  proof cases
    case 1
    then have "\<forall>c \<in> set h. is_ascii c \<and> host_char (byte c)"
      using parse_ip_addr_chars ip_char_bounds by blast
    then have "list_all is_ascii h" "list_all host_char (map byte h)" by (auto simp: list_all_iff)
    moreover have "parse_ip_addr [] = None" by code_simp
    with 1 have "h \<noteq> []" by auto
    ultimately show ?thesis by (simp add: str_chars_ascii)
  next
    case 2
    have "list_all host_char (str_chars p)" if "p \<in> set (split_on (CHR ''.'') h)" for p
      using 2 that host_char_alphanumeric [OF assms(1)] by (fastforce simp: list_all_iff valid_host_label_def)
    then have "list_all host_char (str_chars h)"
      by (intro list_all_str_chars_split [where c = "CHR ''.''"]) (auto simp: is_ascii_def)
    moreover have "h \<noteq> []" using 2 by (auto simp: valid_host_label_def)
    ultimately show ?thesis by blast
  qed
  then show "list_all host_char (str_chars h)" and "h \<noteq> []" by auto
qed

lemma strip_prefix_absent: "c \<notin> set s \<Longrightarrow> strip_prefix (c # p) s = None"
  by (cases s) (auto simp: strip_prefix_def starts_with_def)

lemma host_bytes:
  assumes "list_all host_char (str_chars h)"
  shows "\<forall>c \<in> {CHR ''#'', CHR ''*'', slash, CHR ''?'', CHR ''['', CHR 0x5C, CHR '']'', CHR ''{'', CHR ''}''}. c \<notin> set h"
proof
  fix c
  assume c: "c \<in> {CHR ''#'', CHR ''*'', slash, CHR ''?'', CHR ''['', CHR 0x5C, CHR '']'', CHR ''{'', CHR ''}''}"
  then have "is_ascii c" and "\<not> host_char (byte c)" by (auto simp: is_ascii_def host_char_def)
  with ascii_in_str_chars [of c h] assms show "c \<notin> set h" by (auto simp: list_all_iff)
qed

lemma valid_syntax:
  assumes "list_all host_char (str_chars h)" and "h \<noteq> []"
  shows "\<not> invalid_domain_syntax h" and "str_trim h = h"
proof -
  have "\<not> sublist ''://'' h"
    using host_bytes [OF assms(1)] by (auto simp: sublist_def)
  with assms host_bytes [OF assms(1)] show "\<not> invalid_domain_syntax h"
    by (auto simp: invalid_domain_syntax_def contains_char_def list_ex_iff list_all_iff host_char_def split_once_None_iff
        simp flip: not_None_eq)
  show "str_trim h = h"
    using assms(1) by (intro str_trim_no_whitespace) (auto simp: list_all_iff host_char_def)
qed

lemma set_trim_end_matches: "set (trim_end_matches c s) \<subseteq> set s"
  by (auto simp: trim_end_matches_def dest: set_dropWhileD)

lemma trim_end_matches_idem: "trim_end_matches c (trim_end_matches c s) = trim_end_matches c s"
  by (simp add: trim_end_matches_def)

lemma ascii_lower_fixed: "ascii_lower s = s \<longleftrightarrow> (\<forall>c \<in> set s. to_ascii_lowercase c = c)"
  by (induction s) (auto simp: ascii_lower_def)

text \<open>A host without scope identifier that normalization produced is a fixed point of its last step.\<close>

lemma normalize_dns_fixed:
  assumes "h = normalize_dns_host_or_ip_literal x" and "CHR ''%'' \<notin> set h"
  shows "normalize_dns_host_or_ip_literal h = h"
proof -
  let ?y = "trim_end_matches (CHR ''.'') (ascii_lower x)"
  have h: "h = ?y"
    using assms normalize_ip_literal_cases [of ?y]
    by (auto simp: normalize_dns_host_or_ip_literal_def Let_def split: option.splits)
  have "\<forall>c \<in> set (ascii_lower x). to_ascii_lowercase c = c" by (auto simp: ascii_lower_def)
  with set_trim_end_matches [of "CHR ''.''" "ascii_lower x"] have "ascii_lower h = h"
    unfolding ascii_lower_fixed h by blast
  moreover have "trim_end_matches (CHR ''.'') h = h" unfolding h by (rule trim_end_matches_idem)
  ultimately show ?thesis
    using normalize_ip_literal_no_scope [OF assms(2)] by (simp add: normalize_dns_host_or_ip_literal_def)
qed

lemma normalize_host_dns: "normalize_host r = Some h \<Longrightarrow> h \<in> range normalize_dns_host_or_ip_literal"
  by (auto simp: normalize_host_def normalize_unbracketed_def Let_def split: if_splits option.splits)

lemma normalize_host_fixed:
  assumes "normalize_dns_host_or_ip_literal h = h" and "CHR ''%'' \<notin> set h"
    and "valid_domain_pattern h" and "list_all host_char (str_chars h)" and "h \<noteq> []"
  shows "normalize_host h = Some h"
proof -
  have "h \<noteq> ''*''" using host_bytes [OF assms(4)] by auto
  with assms(3) have colon: "CHR '':'' \<in> set h \<Longrightarrow> normalize_ip_literal h = Some h \<and> colon_count h \<noteq> 1"
    using normalize_ip_literal_no_scope [OF assms(2)] parse_ip_addr_colons [of h]
    by (auto simp: valid_domain_pattern_def valid_domain_literal_def contains_char_def split: if_splits)
  have "\<not> starts_with ''['' h" using host_bytes [OF assms(4)] by (cases h) (auto simp: starts_with_def)
  then have "normalize_host h = normalize_unbracketed h"
    by (simp add: normalize_host_def valid_syntax [OF assms(4,5)])
  also have "\<dots> = Some h"
  proof (cases "CHR '':'' \<in> set h")
    case True
    with colon have "colon_count h \<noteq> 0" "colon_count h \<noteq> 1" "normalize_ip_literal h = Some h"
      by (auto simp: colon_count_0)
    with assms(1) show ?thesis by (simp add: normalize_unbracketed_def colon_count_def)
  next
    case False
    then have "colon_count h = 0" by (simp add: colon_count_0)
    with assms(1) show ?thesis by (simp add: normalize_unbracketed_def colon_count_def)
  qed
  finally show ?thesis .
qed

lemma normalize_domain_pattern_Inr:
  "normalize_domain_pattern raw = Inr h \<Longrightarrow>
     valid_domain_pattern h \<and> (CHR ''*'' \<in> set h \<or> h \<in> range normalize_dns_host_or_ip_literal)"
  by (auto simp: normalize_domain_pattern_def Let_def dest: normalize_host_dns split: if_splits option.splits)

lemma normalize_domain_fixed:
  assumes "sane_tables U" and "normalize_domain U raw = Inr h" and "CHR ''%'' \<notin> set h"
  shows "normalize_domain U h = Inr h"
proof -
  from assms(2) have pat: "normalize_domain_pattern raw = Inr h" and valid: "valid_concrete_host U h"
    by (auto simp: normalize_domain_def and_then_eq_Inr split: if_splits)
  note chars = valid_host_chars [OF assms(1) valid assms(3)]
  from normalize_domain_pattern_Inr [OF pat] host_bytes [OF chars(1)]
  have h: "valid_domain_pattern h" "h \<in> range normalize_dns_host_or_ip_literal" by auto
  then have "normalize_dns_host_or_ip_literal h = h"
    using normalize_dns_fixed assms(3) h(2) by blast
  then have "normalize_host h = Some h" using normalize_host_fixed assms(3) h(1) chars by blast
  moreover have "strip_prefix ''**.'' h = None" "strip_prefix ''*.'' h = None"
    using host_bytes [OF chars(1)] by (simp_all add: strip_prefix_absent)
  ultimately have "normalize_domain_pattern h = Inr h"
    using h(1) valid_syntax [OF chars] by (simp add: normalize_domain_pattern_def)
  with valid show ?thesis by (simp add: normalize_domain_def)
qed
section \<open>Authorizing a connection\<close>

lemma resolved_decision_Allow:
  assumes "resolved_decision p domain ips = NetAllow" and "ip \<in> set ips"
  shows "net_local_access p = LocalAllow \<or> \<not> is_non_public_ip ip \<or>
     (has_exact_allow p domain \<and>
       (parse_ip_literal domain = Some ip \<or> (domain = ''localhost'' \<and> ip_is_loopback ip)))"
proof (cases "parse_ip_literal domain")
  case None
  with assms show ?thesis
    by (cases "net_local_access p") (auto simp: resolved_decision_def Let_def list_ex_iff split: if_splits)
next
  case (Some literal)
  with assms show ?thesis by (auto simp: resolved_decision_def list_ex_iff split: if_splits)
qed

lemma domain_decision_Allow: "domain_decision p d = NetAllow \<Longrightarrow> net_mode p = NetEnabled"
  by (auto simp: domain_decision_def split: network_mode.splits)

lemma authorize_connection_Allowed:
  assumes "authorize_connection U p t connected = Inr (Allowed a)"
  obtains domain where "a = connected" and "connected \<in> set (target_addresses t)"
    and "normalize_domain U (target_domain t) = Inr domain" and "decision_for_domain U p domain = Inr NetAllow"
    and "resolved_decision p domain (map socket_ip (target_addresses t)) = NetAllow"
proof -
  from assms obtain d where dec: "decision_for_connected_address U p t connected = Inr d"
    and "(case d of NetAllow \<Rightarrow> Allowed connected | NetDeny \<Rightarrow> Denied | NetExternallyEnforced \<Rightarrow> ExternallyEnforced) = Allowed a"
    by (auto simp: authorize_connection_def and_then_eq_Inr)
  then have d: "d = NetAllow" "a = connected" by (cases d; simp)+
  with dec have t: "decision_for_resolved_target U p t = Inr NetAllow" "contains_address t connected"
    by (auto simp: decision_for_connected_address_def and_then_eq_Inr split: if_splits)
  then show ?thesis
    by (auto simp: decision_for_resolved_target_def decision_for_domain_with_resolved_ips_def contains_address_def
        and_then_eq_Inr d(2) split: if_splits intro: that)
qed

section \<open>Normalization of policies\<close>

datatype vote = NoVote | AllowVote | DenyVote

primrec vote_rank :: "vote \<Rightarrow> nat" where
  "vote_rank NoVote = 0"
| "vote_rank AllowVote = 1"
| "vote_rank DenyVote = 2"

lemma inj_vote_rank: "inj vote_rank"
proof (rule injI)
  fix v w
  assume "vote_rank v = vote_rank w"
  then show "v = w" by (cases v; cases w) simp_all
qed

instantiation vote :: comm_monoid_add
begin

definition zero_vote :: vote where "0 = NoVote"

fun plus_vote :: "vote \<Rightarrow> vote \<Rightarrow> vote" where
  "NoVote + v = v"
| "v + NoVote = v"
| "DenyVote + _ = DenyVote"
| "_ + DenyVote = DenyVote"
| "AllowVote + AllowVote = AllowVote"

lemma plus_vote_rank: "vote_rank (v + w) = max (vote_rank v) (vote_rank w)"
  by (induction v w rule: plus_vote.induct) simp_all

instance
  by standard (simp_all add: zero_vote_def inj_eq [OF inj_vote_rank, symmetric] plus_vote_rank ac_simps)

end

fun vote_of :: "domain_access \<Rightarrow> vote" where
  "vote_of DomAllow = AllowVote"
| "vote_of DomDeny = DenyVote"

fun vote_access :: "vote \<Rightarrow> domain_access option" where
  "vote_access NoVote = None"
| "vote_access AllowVote = Some DomAllow"
| "vote_access DenyVote = Some DomDeny"

lemma vote_access_plus: "vote_access (v + vote_of a) = Some (combine_access (vote_access v) a)"
  by (cases v; cases a) simp_all

lemma NoVote_zero: "NoVote = 0"
  by (simp add: zero_vote_def)

lemma fold_votes:
  "foldl (\<lambda>result r. if P r then Some (combine_access result (acc r)) else result) (vote_access v) rs =
     vote_access (v + sum_list (map (\<lambda>r. if P r then vote_of (acc r) else 0) rs))"
proof (induction rs arbitrary: v)
  case (Cons r rs)
  then show ?case using Cons [of "v + vote_of (acc r)"] Cons [of v]
    by (auto simp: vote_access_plus ac_simps)
qed simp

definition domain_vote :: "string \<Rightarrow> domain_rule \<Rightarrow> vote" where
  "domain_vote d r = (if domain_matches (dom_matcher r) d then vote_of (dom_access r) else 0)"

definition socket_vote :: "string \<Rightarrow> unix_socket_rule \<Rightarrow> vote" where
  "socket_vote path r = (if paths_equal path (sock_path r) then vote_of (sock_access r) else 0)"

lemma access_for_normalized_domain_votes:
  "access_for_normalized_domain p d = vote_access (sum_list (map (domain_vote d) (net_domains p)))"
  unfolding access_for_normalized_domain_def domain_vote_def
  using fold_votes [of "\<lambda>r. domain_matches (dom_matcher r) d" dom_access 0] by (simp add: zero_vote_def)

lemma socket_votes:
  "foldl (\<lambda>result r. if paths_equal path (sock_path r) then Some (combine_access result (sock_access r)) else result)
     None rs = vote_access (sum_list (map (socket_vote path) rs))"
  unfolding socket_vote_def
  using fold_votes [of "\<lambda>r. paths_equal path (sock_path r)" sock_access 0] by (simp add: zero_vote_def)

definition wf_domain_rule :: "glob_builder \<Rightarrow> domain_rule \<Rightarrow> bool" where
  "wf_domain_rule build r \<longleftrightarrow> compile_domain_matcher build (dom_pattern r) = Inr (dom_matcher r)"

lemma deny_votes: "v + DenyVote = DenyVote" "DenyVote + v = DenyVote"
  by (cases v; simp)+

lemma vote_idem: "vote_of a + vote_of a = vote_of a"
  by (cases a) simp_all

lemma merge_domain_simps [simp]:
  "dom_pattern (merge_domain a b) = dom_pattern a" "dom_matcher (merge_domain a b) = dom_matcher a"
  "vote_of (dom_access (merge_domain a b)) = vote_of (dom_access a) + vote_of (dom_access b)"
  by (cases "dom_access a"; cases "dom_access b"; simp add: merge_domain_def)+

lemma merge_socket_simps [simp]:
  "sock_path (merge_socket a b) = sock_path a"
  "vote_of (sock_access (merge_socket a b)) = vote_of (sock_access a) + vote_of (sock_access b)"
  by (cases "sock_access a"; cases "sock_access b"; simp add: merge_socket_def)+

lemma merge_ipc_simps [simp]: "ipc_endpoint (merge_ipc a b) = ipc_endpoint a"
  by (simp add: merge_ipc_def)

interpretation domain_votes: keyed_measure dom_pattern merge_domain "domain_vote d" "wf_domain_rule build"
  by unfold_locales (auto simp: domain_vote_def wf_domain_rule_def)

interpretation sock_measure: keyed_measure socket_key merge_socket "socket_vote path" "\<lambda>_. True"
  by unfold_locales
    (auto simp: socket_vote_def socket_key_def paths_equal_lexc native_path_key_eq_iff)

interpretation ipc_merge: keyed_merge ipc_key merge_ipc
  by unfold_locales (simp add: ipc_key_def)

lemma net_normalized_Inr:
  "net_normalized p = Inr q \<longleftrightarrow>
     net_validate p = Inr () \<and>
     q = p\<lparr>net_domains := collapse dom_pattern merge_domain (net_domains p),
            net_unix_sockets := collapse socket_key merge_socket (net_unix_sockets p),
            net_local_ipc := collapse ipc_key merge_ipc (net_local_ipc p)\<rparr>"
  by (auto simp: net_normalized_def and_then_eq_Inr)

text \<open>What a policy built through the public methods satisfies.\<close>

inductive built_network :: "glob_builder \<Rightarrow> network_policy \<Rightarrow> bool" for build where
  disabled: "built_network build net_disabled"
| enabled: "built_network build net_enabled"
| unrestricted: "built_network build net_unrestricted"
| external: "built_network build net_external"
| domain_mode: "built_network build p \<Longrightarrow> built_network build (with_domain_mode p m)"
| unix_socket_mode: "built_network build p \<Longrightarrow> built_network build (with_unix_socket_mode p sm)"
| local_network_access: "built_network build p \<Longrightarrow> built_network build (with_local_network_access p a)"
| domain: "built_network build p \<Longrightarrow> with_domain build p pattern acc = Inr q \<Longrightarrow> built_network build q"
| unix_socket: "built_network build p \<Longrightarrow> with_unix_socket p path acc = Inr q \<Longrightarrow> built_network build q"
| local_ipc: "built_network build p \<Longrightarrow> with_local_ipc p endpoint acc = Inr q \<Longrightarrow> built_network build q"

lemma built_network_wf:
  "built_network build p \<Longrightarrow> (\<forall>r \<in> set (net_domains p). wf_domain_rule build r) \<and>
     distinct (map ipc_key (net_local_ipc p))"
proof (induction rule: built_network.induct)
  case (domain p pattern acc q)
  then show ?case
    by (auto simp: with_domain_def domain_rule_new_def and_then_eq_Inr wf_domain_rule_def split: if_splits)
next
  case (unix_socket p path acc q)
  then show ?case by (auto simp: with_unix_socket_def and_then_eq_Inr split: if_splits)
next
  case (local_ipc p endpoint acc q)
  from local_ipc.hyps(2) have "\<forall>r \<in> set (net_local_ipc p). ipc_key r \<noteq> endpoint_key_of endpoint"
    by (auto simp: with_local_ipc_def list_ex_iff ipc_endpoints.same_iff ipc_key_def split: if_splits)
  then have "endpoint_key_of endpoint \<notin> ipc_key ` set (net_local_ipc p)" by force
  moreover from local_ipc.hyps(2) have "net_domains q = net_domains p"
    "net_local_ipc q = net_local_ipc p @ [\<lparr>ipc_endpoint = endpoint, ipc_access = acc\<rparr>]"
    by (auto simp: with_local_ipc_def local_ipc_rule_new_def add_unix_endpoint_def and_then_eq_Inr Let_def
        split: if_splits option.splits)
  ultimately show ?case using local_ipc.IH by (simp add: ipc_key_def)
qed (simp_all add: net_disabled_def net_enabled_def net_unrestricted_def net_external_def with_domain_mode_def
    with_unix_socket_mode_def with_local_network_access_def)

lemma normalized_modes:
  assumes "net_normalized p = Inr q"
  shows "net_mode q = net_mode p" and "net_domain_mode q = net_domain_mode p"
    and "net_unix_socket_mode q = net_unix_socket_mode p" and "net_local_access q = net_local_access p"
  using assms by (simp_all add: net_normalized_Inr)

lemma normalized_domain_decision:
  assumes "\<forall>r \<in> set (net_domains p). wf_domain_rule build r" and "net_normalized p = Inr q"
  shows "domain_decision q d = domain_decision p d"
proof -
  have "access_for_normalized_domain q d = access_for_normalized_domain p d"
    using assms(2) domain_votes.sum_collapse [OF assms(1)]
    by (simp add: access_for_normalized_domain_votes net_normalized_Inr)
  then show ?thesis unfolding domain_decision_def normalized_modes [OF assms(2)] by (simp only:)
qed

lemma normalized_socket_decision:
  assumes "net_normalized p = Inr q"
  shows "decision_for_unix_socket q path = decision_for_unix_socket p path"
  unfolding decision_for_unix_socket_def normalized_modes [OF assms] socket_votes
  using assms sock_measure.sum_collapse [of "net_unix_sockets p" path] by (simp add: net_normalized_Inr)

text \<open>What the code relies on of the glob compiler here: a pattern without special characters matches
  the text it spells.\<close>

definition plain_globs_match :: "glob_builder \<Rightarrow> bool" where
  "plain_globs_match build \<longleftrightarrow>
     (\<forall>s m. build s = Inr m \<longrightarrow> \<not> contains_glob_meta s \<longrightarrow> CHR 0x5C \<notin> set s \<longrightarrow> m s)"

lemma exact_rule_matches:
  assumes "wf_domain_rule build r" and "plain_globs_match build" and "list_all host_char (str_chars (dom_pattern r))"
  shows "domain_matches (dom_matcher r) (dom_pattern r)"
proof -
  let ?p = "dom_pattern r"
  note bytes = host_bytes [OF assms(3)]
  then have "?p \<noteq> ''*''" by auto
  then obtain m where "FullDomain m = dom_matcher r" "build ?p = Inr m"
    using assms(1) bytes
    by (auto simp: wf_domain_rule_def compile_domain_matcher_def compile_domain_glob_def strip_prefix_absent
        and_then_eq_Inr map_err_eq_Inr)
  moreover have "\<not> contains_glob_meta ?p" using bytes by (auto simp: contains_glob_meta_def list_ex_iff)
  moreover have "CHR 0x5C \<notin> set ?p" using bytes by simp
  ultimately have "m ?p" using assms(2) by (auto simp: plain_globs_match_def)
  then show ?thesis by (simp add: domain_matches_def flip: \<open>FullDomain m = _\<close>)
qed

lemma sum_deny_vote: "r \<in> set rs \<Longrightarrow> f r = DenyVote \<Longrightarrow> sum_list (map f rs) = DenyVote"
  by (induction rs) (auto simp: deny_votes)

lemma allowed_without_deny:
  assumes "domain_decision p d = NetAllow" and "r \<in> set (net_domains p)" and "domain_matches (dom_matcher r) d"
  shows "dom_access r = DomAllow"
proof (rule ccontr)
  assume "dom_access r \<noteq> DomAllow"
  then have "dom_access r = DomDeny" by (cases "dom_access r") auto
  with assms(3) have "domain_vote d r = DenyVote" by (simp add: domain_vote_def)
  with assms(2) have "access_for_normalized_domain p d = Some DomDeny"
    by (simp add: access_for_normalized_domain_votes sum_deny_vote)
  with assms(1) show False
    by (simp add: domain_decision_def split: network_mode.splits domain_mode.splits)
qed

lemma has_exact_allow_when_allowed:
  assumes "domain_decision p d = NetAllow" and "\<forall>r \<in> set (net_domains p). wf_domain_rule build r"
    and "plain_globs_match build" and "list_all host_char (str_chars d)"
  shows "has_exact_allow p d \<longleftrightarrow> d \<in> dom_pattern ` set (net_domains p)"
proof
  assume "d \<in> dom_pattern ` set (net_domains p)"
  then obtain r where r: "r \<in> set (net_domains p)" "d = dom_pattern r" by blast
  with assms exact_rule_matches have "domain_matches (dom_matcher r) d" by blast
  with allowed_without_deny [OF assms(1) r(1)] r host_bytes [OF assms(4)] show "has_exact_allow p d"
    by (auto simp: has_exact_allow_def list_ex_iff contains_char_def)
qed (auto simp: has_exact_allow_def list_ex_iff)

lemma wf_normalized:
  assumes "\<forall>r \<in> set (net_domains p). wf_domain_rule build r" and "net_normalized p = Inr q"
  shows "\<forall>r \<in> set (net_domains q). wf_domain_rule build r"
  using assms domain_votes.collapse_invariant [of "net_domains p" "wf_domain_rule build"] domain_votes.ok_merge
  by (auto simp: net_normalized_Inr)

lemma normalized_resolved:
  assumes "\<forall>r \<in> set (net_domains p). wf_domain_rule build r" and "net_normalized p = Inr q"
    and "plain_globs_match build" and "list_all host_char (str_chars d)" and "domain_decision p d = NetAllow"
  shows "resolved_decision q d ips = resolved_decision p d ips"
proof -
  have "has_exact_allow q d = has_exact_allow p d"
    using has_exact_allow_when_allowed [OF assms(5,1,3,4)]
      has_exact_allow_when_allowed [OF _ wf_normalized [OF assms(1,2)] assms(3,4)]
      normalized_domain_decision [OF assms(1,2)] assms(2,5)
      domain_votes.keys_collapse [of "net_domains p"]
    by (simp add: net_normalized_Inr)
  then show ?thesis unfolding resolved_decision_def normalized_modes [OF assms(2)] by (simp only:)
qed

lemma normalized_idem: "net_normalized p = Inr q \<Longrightarrow> net_normalized q = Inr q"
  using domain_votes.collapse_idem sock_measure.collapse_idem ipc_merge.collapse_idem
  by (auto simp: net_normalized_Inr net_validate_def split: if_splits)

lemma normalized_connected:
  assumes "sane_tables U" and "\<forall>r \<in> set (net_domains p). wf_domain_rule build r" and "net_normalized p = Inr q"
    and "plain_globs_match build" and "\<forall>d. normalize_domain U (target_domain t) = Inr d \<longrightarrow> CHR ''%'' \<notin> set d"
  shows "authorize_connection U q t a = authorize_connection U p t a"
proof -
  have "decision_for_resolved_target U q t = decision_for_resolved_target U p t"
  proof (cases "normalize_domain U (target_domain t)")
    case (Inr d)
    with assms(5) have scope: "CHR ''%'' \<notin> set d" by blast
    have fixed: "normalize_domain U d = Inr d" by (rule normalize_domain_fixed [OF assms(1) Inr scope])
    then have "valid_concrete_host U d" by (auto simp: normalize_domain_def and_then_eq_Inr split: if_splits)
    note chars = valid_host_chars(1) [OF assms(1) this scope]
    have same: "domain_decision q d = domain_decision p d" by (rule normalized_domain_decision [OF assms(2,3)])
    have "resolved_decision q d ips = resolved_decision p d ips" if "domain_decision p d = NetAllow" for ips
      using normalized_resolved [OF assms(2,3,4) chars that] .
    with same Inr fixed show ?thesis
      by (simp add: decision_for_resolved_target_def decision_for_domain_with_resolved_ips_def decision_for_domain_def)
  qed (simp add: decision_for_resolved_target_def decision_for_domain_with_resolved_ips_def)
  then show ?thesis by (simp add: authorize_connection_def decision_for_connected_address_def)
qed
section \<open>Properties\<close>

text \<open>C12: A connection is authorized only to an address of the resolution snapshot it was checked
  against, under an enabled policy whose rules allow the target's domain, and only when every
  resolved address of that snapshot is public, local access is allowed as a whole, or the domain is
  allowed by an exact rule that names this very address or names \<open>localhost\<close> for a loopback
  address. A name that resolves to a public and a private address is refused even for the public
  one.\<close>

theorem connection_authorized_safely:
  assumes "authorize_connection U p t connected = Inr (Allowed a)"
  shows "a = connected \<and> connected \<in> set (target_addresses t) \<and> net_mode p = NetEnabled \<and>
     (\<exists>domain. normalize_domain U (target_domain t) = Inr domain \<and> decision_for_domain U p domain = Inr NetAllow \<and>
       (\<forall>address \<in> set (target_addresses t).
          net_local_access p = LocalAllow \<or> \<not> is_non_public_ip (socket_ip address) \<or>
          (has_exact_allow p domain \<and>
            (parse_ip_literal domain = Some (socket_ip address) \<or>
             (domain = ''localhost'' \<and> ip_is_loopback (socket_ip address))))))"
proof -
  from assms obtain domain where d: "a = connected" "connected \<in> set (target_addresses t)"
    "normalize_domain U (target_domain t) = Inr domain" "decision_for_domain U p domain = Inr NetAllow"
    "resolved_decision p domain (map socket_ip (target_addresses t)) = NetAllow"
    by (rule authorize_connection_Allowed)
  from d(4) have "net_mode p = NetEnabled"
    by (auto simp: decision_for_domain_def and_then_eq_Inr dest: domain_decision_Allow)
  with d resolved_decision_Allow [OF d(5)] show ?thesis by auto
qed

definition example_target :: resolved_target where
  "example_target = \<lparr>target_domain = ''example.com'', target_addresses = [SocketAddrV4 0x5DB8D822 443]\<rparr>"

theorem connection_authorized_safely_witness:
  "authorize_connection ascii_tables net_enabled example_target (SocketAddrV4 0x5DB8D822 443)
     = Inr (Allowed (SocketAddrV4 0x5DB8D822 443)) \<and> \<not> is_non_public_ip (V4 0x5DB8D822)"
proof -
  have auth: "authorize_connection ascii_tables net_enabled example_target (SocketAddrV4 0x5DB8D822 443)
     = Inr (Allowed (SocketAddrV4 0x5DB8D822 443))" by code_simp
  from connection_authorized_safely [OF this] show ?thesis
    using auth by (auto simp: example_target_def net_enabled_def has_exact_allow_def)
qed

text \<open>C32: The address classes, exactly. An IPv4 address is non-public exactly when it lies in one of the
  special-purpose blocks, except for the two globally reachable addresses of \<open>192.0.0.0/24\<close>. An IPv6 address is
  non-public exactly when it lies in one of the special-purpose IPv6 blocks (local-use NAT64, discard-only, dummy, IETF
  protocol assignments, documentation, 6to4, segment routing, unique-local, link-local, site-local, multicast) and not in
  one of the globally reachable assignments of \<open>2001::/23\<close>, or when it embeds a non-public IPv4 address: compatible
  (with the unspecified and the loopback address), mapped, or behind the well-known NAT64 prefix. The blocks are written in CIDR notation, as
  numbers of 32 and 128 bits.\<close>

theorem non_public_addresses:
  "(is_non_public_ip (V4 a) \<longleftrightarrow>
      list_ex (\<lambda>block. block a) special_purpose_ipv4 \<and>
      a \<noteq> ipv4_of_octets 192 0 0 9 \<and> a \<noteq> ipv4_of_octets 192 0 0 10) \<and>
   (is_non_public_ip (V6 b) \<longleftrightarrow>
      list_ex (\<lambda>block. block b) special_purpose_ipv6 \<and> \<not> list_ex (\<lambda>block. block b) reachable_ipv6
      \<or> list_ex (\<lambda>block. block b) ipv4_embedding_ipv6 \<and> is_non_public_ip (V4 (low_ipv4 b)))"
  using non_public_ipv4_blocks non_public_ipv6_blocks by simp

theorem non_public_addresses_witness:
  "is_non_public_ip (V6 (Ipv6 0x2002 0x7F00 1 0 0 0 0 0)) \<and> is_non_public_ip (V6 (Ipv6 0 0 0 0 0 0xFFFF 0x7F00 1))
     \<and> \<not> is_non_public_ip (V6 (Ipv6 0x2001 3 0 0 0 0 0 1))"
proof -
  have "list_ex (\<lambda>block. block (Ipv6 0 0 0 0 0 0xFFFF 0x7F00 1)) ipv4_embedding_ipv6"
    "list_ex (\<lambda>block. block (Ipv6 0x2002 0x7F00 1 0 0 0 0 0)) special_purpose_ipv6"
    "\<not> list_ex (\<lambda>block. block (Ipv6 0x2002 0x7F00 1 0 0 0 0 0)) reachable_ipv6"
    "list_ex (\<lambda>block. block (Ipv6 0x2001 3 0 0 0 0 0 1)) reachable_ipv6"
    "\<not> list_ex (\<lambda>block. block (Ipv6 0x2001 3 0 0 0 0 0 1)) ipv4_embedding_ipv6"
    unfolding ipv4_embedding_ipv6_def special_purpose_ipv6_def reachable_ipv6_def list_ex_Cons_iff
      special_blocks [OF refl] reachable_blocks [OF refl] by simp_all
  moreover have "list_ex (\<lambda>block. block 0x7F000001) special_purpose_ipv4"
    by (simp add: special_purpose_ipv4_def cidr_def)
  moreover have "low_ipv4 (Ipv6 0 0 0 0 0 0xFFFF 0x7F00 1) = 0x7F000001"
    by (simp add: low_ipv4_segments ipv4_of_segments_def)
  moreover have "0x7F000001 \<noteq> ipv4_of_octets 192 0 0 9" "0x7F000001 \<noteq> ipv4_of_octets 192 0 0 10"
    by (simp_all add: ipv4_of_octets_def)
  ultimately show ?thesis using non_public_addresses [of "0x7F000001"] by metis
qed

text \<open>Normalizing a host is idempotent. The decision functions normalize a host that their
  caller already normalized; for every host without an IPv6 scope identifier the second pass
  returns it unchanged, so both passes speak of the same name.\<close>

theorem normalize_domain_idempotent:
  assumes "sane_tables U" and "normalize_domain U raw = Inr h" and "CHR ''%'' \<notin> set h"
  shows "normalize_domain U h = Inr h"
  by (rule normalize_domain_fixed [OF assms])

lemma sane_ascii_tables: "sane_tables ascii_tables"
  by (simp add: sane_tables_def ascii_tables_def)

theorem normalize_domain_idempotent_witness:
  "normalize_domain ascii_tables '' Example.COM.:443'' = Inr ''example.com'' \<and>
   normalize_domain ascii_tables ''example.com'' = Inr ''example.com''"
proof -
  have norm: "normalize_domain ascii_tables '' Example.COM.:443'' = Inr ''example.com''" by code_simp
  from normalize_domain_idempotent [OF sane_ascii_tables this] norm show ?thesis by simp
qed

text \<open>C33: For a policy built through the public methods \<open>normalized\<close> leaves one rule per pattern,
  socket and endpoint, is idempotent and changes no decision: not for a domain, not for a local
  socket, and not for a connection to a target whose host has no scope identifier. The glob library
  is only required to let a pattern without special characters match its own text.\<close>

theorem normalized_network_keeps_decisions:
  assumes "built_network build p" and "net_normalized p = Inr q" and "plain_globs_match build" and "sane_tables U"
    and "\<forall>d. normalize_domain U (target_domain t) = Inr d \<longrightarrow> CHR ''%'' \<notin> set d"
  shows "net_normalized q = Inr q \<and> distinct (map dom_pattern (net_domains q)) \<and>
     distinct (map socket_key (net_unix_sockets q)) \<and> net_local_ipc q = net_local_ipc p \<and>
     decision_for_domain U q raw = decision_for_domain U p raw \<and>
     decision_for_unix_socket q path = decision_for_unix_socket p path \<and>
     authorize_connection U q t a = authorize_connection U p t a"
proof -
  note wf = conjunct1 [OF built_network_wf [OF assms(1)]]
  have "distinct (map dom_pattern (net_domains q))" "distinct (map socket_key (net_unix_sockets q))"
    using assms(2) domain_votes.distinct_collapse sock_measure.distinct_collapse by (auto simp: net_normalized_Inr)
  moreover have "net_local_ipc q = net_local_ipc p"
    using assms(2) ipc_merge.collapse_distinct_id built_network_wf [OF assms(1)] by (simp add: net_normalized_Inr)
  moreover have "decision_for_domain U q raw = decision_for_domain U p raw"
    using normalized_domain_decision [OF wf assms(2)] by (simp add: decision_for_domain_def)
  ultimately show ?thesis
    using normalized_idem [OF assms(2)] normalized_socket_decision [OF assms(2)]
      normalized_connected [OF assms(4) wf assms(2,3,5)] by blast
qed

lemma plain_example_build: "plain_globs_match example_build"
  by (auto simp: plain_globs_match_def example_build_def)

theorem normalized_network_keeps_decisions_witness:
  "\<exists>p q. with_domain example_build net_enabled ''Example.com'' DomDeny = Inr p \<and> net_normalized p = Inr q \<and>
     decision_for_domain ascii_tables q ''example.com'' = decision_for_domain ascii_tables p ''example.com''"
proof -
  have "is_ok (with_domain example_build net_enabled ''Example.com'' DomDeny)" by code_simp
  then obtain p where p: "with_domain example_build net_enabled ''Example.com'' DomDeny = Inr p"
    by (auto simp: is_ok_iff)
  then have built: "built_network example_build p" by (rule built_network.domain [OF built_network.enabled])
  from p have "net_mode p = NetEnabled" by (auto simp: with_domain_def net_enabled_def and_then_eq_Inr)
  then obtain q where q: "net_normalized p = Inr q" by (auto simp: net_normalized_Inr net_validate_def)
  have "normalize_domain ascii_tables ''example.com'' = Inr ''example.com''" by code_simp
  then have "\<forall>d. normalize_domain ascii_tables (target_domain example_target) = Inr d \<longrightarrow> CHR ''%'' \<notin> set d"
    by (simp add: example_target_def)
  from normalized_network_keeps_decisions [OF built q plain_example_build sane_ascii_tables this] p q
  show ?thesis by blast
qed

end
