(* ===== verification/Sandbox_Policy.thy ===== *)
theory Sandbox_Policy
  imports Filesystem_Policy Network_Policy
begin

text \<open>
  The combined sandbox policy and its presets (\<open>cageforge-policy/src/policy.rs\<close>). The property
  says what the presets promise: the read-only preset grants no write anywhere, the workspace
  preset grants writes only below the workspace roots and the temporary directories and never below
  \<open>.git\<close>, and neither reaches the network.
\<close>

section \<open>Policies (policy.rs)\<close>

record sandbox_policy =
  sb_filesystem :: filesystem_policy
  sb_network :: network_policy

definition sandbox_new :: "filesystem_policy \<Rightarrow> network_policy \<Rightarrow> sandbox_policy" where
  "sandbox_new filesystem network = \<lparr>sb_filesystem = filesystem, sb_network = network\<rparr>"

definition sandbox_read_only :: sandbox_policy where
  "sandbox_read_only =
     sandbox_new
       (fs_restricted
          [rule_new Root Read, rule_new Minimal Read, rule_new selector_workspace_root Read,
           rule_new Tmpdir Read, rule_new SlashTmp Read])
       net_disabled"

definition sandbox_workspace :: sandbox_policy where
  "sandbox_workspace =
     sandbox_new
       (fs_restricted
          [rule_new Root Read, rule_new Minimal Read, rule_new selector_workspace_root Write,
           rule_new Tmpdir Write, rule_new SlashTmp Write])
       net_disabled"

definition sandbox_full_access :: sandbox_policy where
  "sandbox_full_access = sandbox_new fs_unrestricted net_unrestricted"

definition sandbox_validate :: "sandbox_policy \<Rightarrow> (policy_error, unit) rust_result" where
  "sandbox_validate p = and_then (fs_validate (sb_filesystem p)) (\<lambda>_. net_validate (sb_network p))"

definition sandbox_normalized :: "sandbox_policy \<Rightarrow> (policy_error, sandbox_policy) rust_result" where
  "sandbox_normalized p =
     and_then (fs_normalized (sb_filesystem p))
       (\<lambda>f. and_then (net_normalized (sb_network p)) (\<lambda>n. Inr (sandbox_new f n)))"

section \<open>Writes need a writable rule\<close>

lemma write_needs_rule:
  assumes "fs_mode p = FsRestricted" and "fs_access_for_path p path c = Inr FsWrite"
  obtains r where "r \<in> set (fs_entries p)" and "rule_access r = Write" and "target_match path c (rule_target r) \<noteq> None"
    and "\<not> is_protected_path p path"
proof -
  let ?ms = "matching p path c"
  let ?v = "sum_list (map (\<lambda>m. match_verdict (Some m)) ?ms)"
  from assms have "path_rejected path = None" and dec: "verdict_decision p path ?v = FsWrite"
    by (auto simp: fs_access_for_path_verdict sum_rule_verdicts matching_def split: option.splits)
  then have "verdict_access ?v = Write" and safe: "\<not> is_protected_path p path"
    by (auto simp: verdict_decision_def split: if_splits)
  then have ne: "?ms \<noteq> []" and no_deny: "\<not> (\<exists>m \<in> set ?ms. match_access m = Deny)"
    and no_read: "\<not> (\<exists>m \<in> set ?ms. match_specificity m = Max (match_specificity ` set ?ms) \<and> match_access m = Read)"
    unfolding sum_match_verdicts by (auto split: if_splits)
  have "Max (match_specificity ` set ?ms) \<in> match_specificity ` set ?ms" using ne by (intro Max_in) auto
  then obtain m where m: "m \<in> set ?ms" "match_specificity m = Max (match_specificity ` set ?ms)" by auto
  with no_deny no_read have "match_access m = Write" by (cases "match_access m") auto
  moreover from m(1) obtain r where r: "r \<in> set (fs_entries p)" "matches_path r path c = Some m"
    by (auto simp: matching_def List.map_filter_def)
  ultimately have "rule_access r = Write"
    by (auto simp: matches_path_def split: option.splits if_splits prod.splits)
  moreover have "target_match path c (rule_target r) \<noteq> None"
    using r(2) by (auto simp: matches_path_def split: option.splits)
  ultimately show ?thesis using that [OF r(1)] safe by blast
qed

lemma iter_max_None: "iter_max xs = None \<longleftrightarrow> xs = []"
  by (cases xs) (auto split: option.splits)

lemma scope_match_within:
  "scope_match path c s \<noteq> None \<longleftrightarrow> (\<exists>root \<in> set (selector_resolve s c). is_within path root)"
  by (auto simp: scope_match_def iter_max_None filter_empty_conv)

lemma workspace_root_within:
  "(\<exists>root \<in> set (selector_resolve selector_workspace_root c). is_within path root) \<longleftrightarrow>
     (\<exists>root \<in> set (workspace_roots c). is_within path root)"
proof -
  have "parts ''.'' = []" and "\<not> is_absolute ''.''" by code_simp+
  then have "paths_equal (path_join root ''.'') root" for root by (simp add: paths_equal_lexc lexc_push)
  then have "is_within path (path_join root ''.'') = is_within path root" for root
    using is_within_cong [of path path "path_join root ''.''" root] by (simp add: paths_equal_lexc)
  then show ?thesis by (simp add: selector_workspace_root_def)
qed

lemma distinct_rules_normalized:
  assumes "distinct (map rule_key rs)" and "\<forall>r \<in> set rs. built_rule build r"
  shows "fs_normalized (fs_restricted rs) = Inr (fs_restricted rs)"
proof -
  have "fs_validate (fs_restricted rs) = Inr ()"
    using built_policy_valid [OF built_policy.restricted [OF assms(2)]] by blast
  then show ?thesis
    using fs_merge.collapse_distinct_id [OF assms(1)] by (simp add: fs_normalized_def fs_restricted_def)
qed

lemma presets_normalized:
  "sandbox_normalized sandbox_read_only = Inr sandbox_read_only"
  "sandbox_normalized sandbox_workspace = Inr sandbox_workspace"
proof -
  let ?rules = "\<lambda>a. [rule_new Root Read, rule_new Minimal Read, rule_new selector_workspace_root a,
      rule_new Tmpdir a, rule_new SlashTmp a]"
  have fs: "fs_normalized (fs_restricted (?rules a)) = Inr (fs_restricted (?rules a))" for a
    by (rule distinct_rules_normalized [where build = example_build])
      (auto simp: rule_key_def rule_new_def target_key_def selector_hash_def selector_workspace_root_def
        intro: built_rule.new [of example_build, unfolded rule_new_def])
  have "net_normalized net_disabled = Inr net_disabled"
    by (simp add: net_normalized_def net_validate_def net_disabled_def)
  with fs show "sandbox_normalized sandbox_read_only = Inr sandbox_read_only"
    "sandbox_normalized sandbox_workspace = Inr sandbox_workspace"
    by (simp_all add: sandbox_normalized_def sandbox_read_only_def sandbox_workspace_def sandbox_new_def)
qed

lemma workspace_preset_writes:
  assumes "fs_access_for_path (sb_filesystem sandbox_workspace) path c = Inr FsWrite"
  shows "\<exists>root \<in> set (workspace_roots c) \<union> set_option (tmpdir c) \<union> set_option (slash_tmp c). is_within path root"
    and "\<not> contains_component_path path ''.git''"
proof -
  have "fs_mode (sb_filesystem sandbox_workspace) = FsRestricted"
    by (simp add: sandbox_workspace_def sandbox_new_def fs_restricted_def)
  from write_needs_rule [OF this assms] obtain r where r: "r \<in> set (fs_entries (sb_filesystem sandbox_workspace))"
    "rule_access r = Write" "target_match path c (rule_target r) \<noteq> None"
    and safe: "\<not> is_protected_path (sb_filesystem sandbox_workspace) path" .
  from r(1,2) have "rule_target r \<in> Scope ` {selector_workspace_root, Tmpdir, SlashTmp}"
    by (auto simp: sandbox_workspace_def sandbox_new_def fs_restricted_def rule_new_def)
  with r(3) obtain s where s: "s \<in> {selector_workspace_root, Tmpdir, SlashTmp}" "scope_match path c s \<noteq> None"
    by (force simp: target_match_def)
  then show "\<exists>root \<in> set (workspace_roots c) \<union> set_option (tmpdir c) \<union> set_option (slash_tmp c). is_within path root"
    unfolding scope_match_within using workspace_root_within [of c path] by (auto split: option.splits)
  show "\<not> contains_component_path path ''.git''"
    using safe by (simp add: is_protected_path_def sandbox_workspace_def sandbox_new_def fs_restricted_def)
qed

lemma disabled_network_denies:
  "decision_for_domain U net_disabled host = Inr NetDeny \<or>
     (\<exists>e. normalize_domain U host = Inl e \<and> decision_for_domain U net_disabled host = Inl e)"
  "if valid_absolute socket then decision_for_unix_socket net_disabled socket = Inr NetDeny
   else \<exists>e. decision_for_unix_socket net_disabled socket = Inl e"
proof -
  show "decision_for_domain U net_disabled host = Inr NetDeny \<or>
      (\<exists>e. normalize_domain U host = Inl e \<and> decision_for_domain U net_disabled host = Inl e)"
    by (cases "normalize_domain U host") (simp_all add: decision_for_domain_def domain_decision_def net_disabled_def)
  have "\<exists>e. selector_absolute socket = Inl e" if "\<not> valid_absolute socket"
    using that selector_absolute_Inr [of socket] by (cases "selector_absolute socket") auto
  then show "if valid_absolute socket then decision_for_unix_socket net_disabled socket = Inr NetDeny
      else \<exists>e. decision_for_unix_socket net_disabled socket = Inl e"
    using selector_absolute_Inr [of socket "Absolute socket"]
    by (auto simp: decision_for_unix_socket_def net_disabled_def)
qed

section \<open>Properties\<close>

text \<open>C27: What the presets promise. Under the read-only preset no path is writable in any context. Under the
  workspace preset a writable path lies below a workspace root or a temporary directory of the
  context and contains no \<open>.git\<close> component. Each of the two presets normalizes to itself, denies every host
  that is well formed and every local socket whose path is valid, and answers an error for the others.\<close>

theorem presets_confine:
  "fs_access_for_path (sb_filesystem sandbox_read_only) path c \<noteq> Inr FsWrite \<and>
   (fs_access_for_path (sb_filesystem sandbox_workspace) path c = Inr FsWrite \<longrightarrow>
      (\<exists>root \<in> set (workspace_roots c) \<union> set_option (tmpdir c) \<union> set_option (slash_tmp c). is_within path root) \<and>
      \<not> contains_component_path path ''.git'') \<and>
   (\<forall>preset \<in> {sandbox_read_only, sandbox_workspace}.
      sandbox_normalized preset = Inr preset \<and>
      (decision_for_domain U (sb_network preset) host = Inr NetDeny \<or>
         (\<exists>e. normalize_domain U host = Inl e \<and> decision_for_domain U (sb_network preset) host = Inl e)) \<and>
      (if valid_absolute socket then decision_for_unix_socket (sb_network preset) socket = Inr NetDeny
       else \<exists>e. decision_for_unix_socket (sb_network preset) socket = Inl e))"
proof -
  have modes: "fs_mode (sb_filesystem sandbox_workspace) = FsRestricted" "fs_mode (sb_filesystem sandbox_read_only) = FsRestricted"
    by (simp_all add: sandbox_workspace_def sandbox_read_only_def sandbox_new_def fs_restricted_def)
  have "fs_access_for_path (sb_filesystem sandbox_read_only) path c \<noteq> Inr FsWrite"
  proof
    assume "fs_access_for_path (sb_filesystem sandbox_read_only) path c = Inr FsWrite"
    from write_needs_rule [OF modes(2) this] obtain r
      where "r \<in> set (fs_entries (sb_filesystem sandbox_read_only))" "rule_access r = Write" .
    then show False by (auto simp: sandbox_read_only_def sandbox_new_def fs_restricted_def rule_new_def)
  qed
  moreover have "sb_network preset = net_disabled \<and> sandbox_normalized preset = Inr preset"
    if "preset \<in> {sandbox_read_only, sandbox_workspace}" for preset
    using that presets_normalized by (auto simp: sandbox_read_only_def sandbox_workspace_def sandbox_new_def)
  ultimately show ?thesis
    using workspace_preset_writes disabled_network_denies(1) [of U host] disabled_network_denies(2) [of socket] by auto
qed

text \<open>A context with one workspace root.\<close>

definition example_context :: path_context where
  "example_context = context_new\<lparr>workspace_roots := [''/w''], workspace_root_keys := {native_path_key ''/w''}\<rparr>"

theorem presets_confine_witness:
  "fs_access_for_path (sb_filesystem sandbox_workspace) ''/w/f'' example_context = Inr FsWrite \<and>
   (\<exists>root \<in> {''/w''}. is_within ''/w/f'' root)"
proof -
  have dec: "fs_access_for_path (sb_filesystem sandbox_workspace) ''/w/f'' example_context = Inr FsWrite" by code_simp
  with presets_confine [of "''/w/f''" example_context ascii_tables "[]" "[]"] show ?thesis
    by (simp add: example_context_def context_new_def)
qed

end
