(* ===== verification/Environment.thy ===== *)
theory Environment
  imports Collections Utf8
begin

text \<open>
  Environment construction (\<open>cageforge-command/src/environment.rs\<close>, \<open>environment/model.rs\<close>,
  \<open>error.rs\<close>): name identities, wildcard filters, overrides and the application of a
  specification to a base environment. A \<open>BTreeMap\<close> beside a \<open>HashMap\<close> from folded names to
  spellings is a pair of lists kept in step by \<open>remove_environment_name\<close>; its meaning is the
  \<open>name_view\<close>, one case-insensitive namespace. \<open>apply_to\<close> is proved to implement the specification
  \<open>namespace_apply\<close> on that namespace. The wildcard matcher is the parameter \<open>wild\<close>, the Unicode
  tables the parameter \<open>U\<close>.
\<close>

section \<open>Types (environment/model.rs, error.rs)\<close>

datatype environment_base = EnvAll | EnvCore | EnvNone

datatype environment_override = SetVar string | RemoveVar

datatype environment_filter_action = Include | Exclude

type_synonym folded_text = "nat list list"

datatype environment_name_key = Folded folded_text | NativeBytes string

type_synonym wild_matcher = "string \<Rightarrow> string \<Rightarrow> bool"

record environment_pattern =
  pat_original :: string
  pat_canonical :: folded_text
  pat_matcher :: "string \<Rightarrow> bool"

record environment_spec =
  env_base :: environment_base
  env_overrides :: "(string \<times> environment_override) list"
  env_override_names :: "(environment_name_key \<times> string) list"
  env_filters :: "(environment_pattern \<times> environment_filter_action) list"

record environment_input =
  input_base :: environment_base
  input_variables :: "(string \<times> string) list"

record core_environment =
  core_variables :: "(string \<times> string) list"

datatype command_error =
    EmptyProgram
  | ProgramContainsNul
  | ArgumentContainsNul
  | EmptyWorkingDirectory
  | WorkingDirectoryContainsNul
  | WorkingDirectoryParentTraversal string
  | EmptyEnvironmentName
  | EnvironmentNameContainsEquals
  | EnvironmentNameContainsNul
  | EnvironmentValueContainsNul
  | EmptyEnvironmentPattern
  | EnvironmentPatternContainsNul
  | EnvironmentPatternContainsEquals
  | EnvironmentBaseTooPermissive environment_base environment_base

section \<open>Operations (environment.rs)\<close>

definition os_contains_nul :: "string \<Rightarrow> bool" where
  "os_contains_nul s \<longleftrightarrow> CHR 0x00 \<in> set s"

definition case_folded_text :: "unicode_data \<Rightarrow> string \<Rightarrow> folded_text" where
  "case_folded_text U s = map (char_to_lowercase U) (str_chars s)"

definition environment_name_identity :: "unicode_data \<Rightarrow> string \<Rightarrow> environment_name_key" where
  "environment_name_identity U name =
     (case to_str name of Some n \<Rightarrow> Folded (case_folded_text U n) | None \<Rightarrow> NativeBytes name)"

definition env_pattern_new ::
  "unicode_data \<Rightarrow> wild_matcher \<Rightarrow> string \<Rightarrow> (command_error, environment_pattern) rust_result" where
  "env_pattern_new U wild pattern =
     (if pattern = [] then Inl EmptyEnvironmentPattern
      else if os_contains_nul pattern then Inl EnvironmentPatternContainsNul
      else if CHR ''='' \<in> set pattern then Inl EnvironmentPatternContainsEquals
      else Inr \<lparr>pat_original = pattern, pat_canonical = case_folded_text U pattern, pat_matcher = wild pattern\<rparr>)"

definition env_pattern_eq :: "environment_pattern \<Rightarrow> environment_pattern \<Rightarrow> bool" where
  "env_pattern_eq a b \<longleftrightarrow> pat_canonical a = pat_canonical b"

definition env_pattern_matches :: "environment_pattern \<Rightarrow> string \<Rightarrow> bool" where
  "env_pattern_matches p name = pat_matcher p name"

definition validate_name :: "string \<Rightarrow> (command_error, unit) rust_result" where
  "validate_name name =
     (if name = [] then Inl EmptyEnvironmentName
      else if os_contains_nul name then Inl EnvironmentNameContainsNul
      else if CHR ''='' \<in> set (to_string_lossy name) then Inl EnvironmentNameContainsEquals
      else Inr ())"

definition remove_environment_name ::
  "unicode_data \<Rightarrow> (string \<times> 'v) list \<times> (environment_name_key \<times> string) list \<Rightarrow> string
     \<Rightarrow> (string \<times> 'v) list \<times> (environment_name_key \<times> string) list" where
  "remove_environment_name U st name =
     (case st of (values, names) \<Rightarrow>
       (case map_of names (environment_name_identity U name) of
          Some existing \<Rightarrow> (bt_remove id existing values, AList.delete (environment_name_identity U name) names)
        | None \<Rightarrow> (values, names)))"

definition set_environment_name ::
  "unicode_data \<Rightarrow> (string \<times> 'v) list \<times> (environment_name_key \<times> string) list \<Rightarrow> string \<times> 'v
     \<Rightarrow> (string \<times> 'v) list \<times> (environment_name_key \<times> string) list" where
  "set_environment_name U st entry =
     (case entry of (name, v) \<Rightarrow>
       (case remove_environment_name U st name of (values, names) \<Rightarrow>
          (bt_insert id name v values, AList.update (environment_name_identity U name) name names)))"

definition collect_step ::
  "unicode_data \<Rightarrow> (string \<times> string) list \<times> (environment_name_key \<times> string) list \<Rightarrow> string \<times> string
     \<Rightarrow> (command_error, (string \<times> string) list \<times> (environment_name_key \<times> string) list) rust_result" where
  "collect_step U st entry =
     and_then (validate_name (fst entry))
       (\<lambda>_. if os_contains_nul (snd entry) then Inl EnvironmentValueContainsNul
             else Inr (set_environment_name U st entry))"

definition collect_environment ::
  "unicode_data \<Rightarrow> (string \<times> string) list \<Rightarrow> (command_error, (string \<times> string) list) rust_result" where
  "collect_environment U variables =
     and_then (try_fold (collect_step U) ([], []) variables) (\<lambda>st. Inr (fst st))"

definition core_from_selected ::
  "unicode_data \<Rightarrow> (string \<times> string) list \<Rightarrow> (command_error, core_environment) rust_result" where
  "core_from_selected U variables =
     and_then (collect_environment U variables) (\<lambda>vs. Inr \<lparr>core_variables = vs\<rparr>)"

definition input_all ::
  "unicode_data \<Rightarrow> (string \<times> string) list \<Rightarrow> (command_error, environment_input) rust_result" where
  "input_all U variables =
     and_then (collect_environment U variables) (\<lambda>vs. Inr \<lparr>input_base = EnvAll, input_variables = vs\<rparr>)"

definition input_core :: "core_environment \<Rightarrow> environment_input" where
  "input_core environment = \<lparr>input_base = EnvCore, input_variables = core_variables environment\<rparr>"

definition input_empty :: environment_input where
  "input_empty = \<lparr>input_base = EnvNone, input_variables = []\<rparr>"

definition inherit_all :: environment_spec where
  "inherit_all = \<lparr>env_base = EnvAll, env_overrides = [], env_override_names = [], env_filters = []\<rparr>"

definition spec_empty :: environment_spec where
  "spec_empty = \<lparr>env_base = EnvNone, env_overrides = [], env_override_names = [], env_filters = []\<rparr>"

definition inherit_core :: environment_spec where
  "inherit_core = \<lparr>env_base = EnvCore, env_overrides = [], env_override_names = [], env_filters = []\<rparr>"

definition override_for :: "unicode_data \<Rightarrow> environment_spec \<Rightarrow> string \<Rightarrow> environment_override option" where
  "override_for U spec name =
     (case map_of (env_override_names spec) (environment_name_identity U name) of
        None \<Rightarrow> None
      | Some n \<Rightarrow> bt_get id (env_overrides spec) n)"

fun filter_action_loop ::
  "string \<Rightarrow> bool \<Rightarrow> (environment_pattern \<times> environment_filter_action) list \<Rightarrow> environment_filter_action option" where
  "filter_action_loop name include_matches [] = (if include_matches then Some Include else None)"
| "filter_action_loop name include_matches ((pattern, action) # rest) =
     (if env_pattern_matches pattern name
      then (case action of
              Include \<Rightarrow> filter_action_loop name True rest
            | Exclude \<Rightarrow> Some Exclude)
      else filter_action_loop name include_matches rest)"

definition filter_action_for :: "environment_spec \<Rightarrow> string \<Rightarrow> environment_filter_action option" where
  "filter_action_for spec name = filter_action_loop name False (env_filters spec)"

fun base_is_at_most :: "environment_base \<Rightarrow> environment_base \<Rightarrow> bool" where
  "base_is_at_most supplied EnvNone = (supplied = EnvNone)"
| "base_is_at_most supplied EnvCore = (supplied \<noteq> EnvAll)"
| "base_is_at_most supplied EnvAll = True"

definition filter_matches :: "environment_spec \<Rightarrow> environment_filter_action \<Rightarrow> string \<Rightarrow> bool" where
  "filter_matches spec action name =
     list_ex (\<lambda>(pattern, a). a = action \<and> env_pattern_matches pattern name) (env_filters spec)"

definition retain_not_excluded :: "environment_spec \<Rightarrow> string \<Rightarrow> bool" where
  "retain_not_excluded spec name \<longleftrightarrow>
     env_filters spec = [] \<or> (case to_str name of None \<Rightarrow> False | Some n \<Rightarrow> \<not> filter_matches spec Exclude n)"

definition apply_override ::
  "unicode_data \<Rightarrow> (string \<times> string) list \<times> (environment_name_key \<times> string) list \<Rightarrow> string \<times> environment_override
     \<Rightarrow> (string \<times> string) list \<times> (environment_name_key \<times> string) list" where
  "apply_override U st entry =
     (case snd entry of
        SetVar v \<Rightarrow> set_environment_name U st (fst entry, v)
      | RemoveVar \<Rightarrow> remove_environment_name U st (fst entry))"

definition retain_included :: "environment_spec \<Rightarrow> string \<Rightarrow> bool" where
  "retain_included spec name =
     (if list_ex (\<lambda>(_, a). a = Include) (env_filters spec)
      then (case to_str name of None \<Rightarrow> False | Some n \<Rightarrow> filter_matches spec Include n)
      else if env_filters spec \<noteq> [] then to_str name \<noteq> None
      else True)"

definition apply_to ::
  "unicode_data \<Rightarrow> environment_spec \<Rightarrow> environment_input \<Rightarrow> (command_error, environment_input) rust_result" where
  "apply_to U spec input =
     (if \<not> base_is_at_most (input_base input) (env_base spec)
      then Inl (EnvironmentBaseTooPermissive (env_base spec) (input_base input))
      else let (environment, environment_names) = foldl (set_environment_name U) ([], []) (input_variables input);
               environment1 = filter (\<lambda>(name, _). retain_not_excluded spec name) environment;
               (environment2, _) = foldl (apply_override U) (environment1, environment_names) (env_overrides spec)
           in Inr \<lparr>input_base = input_base input,
                   input_variables = filter (\<lambda>(name, _). retain_included spec name) environment2\<rparr>)"

definition with_override :: "unicode_data \<Rightarrow> environment_spec \<Rightarrow> string \<Rightarrow> environment_override \<Rightarrow> environment_spec" where
  "with_override U spec name value =
     (case set_environment_name U (env_overrides spec, env_override_names spec) (name, value) of
        (values, names) \<Rightarrow> spec\<lparr>env_overrides := values, env_override_names := names\<rparr>)"

definition with_var ::
  "unicode_data \<Rightarrow> environment_spec \<Rightarrow> string \<Rightarrow> string \<Rightarrow> (command_error, environment_spec) rust_result" where
  "with_var U spec name value =
     and_then (validate_name name)
       (\<lambda>_. if os_contains_nul value then Inl EnvironmentValueContainsNul
             else Inr (with_override U spec name (SetVar value)))"

definition without_var ::
  "unicode_data \<Rightarrow> environment_spec \<Rightarrow> string \<Rightarrow> (command_error, environment_spec) rust_result" where
  "without_var U spec name =
     and_then (validate_name name) (\<lambda>_. Inr (with_override U spec name RemoveVar))"

definition with_filter ::
  "unicode_data \<Rightarrow> wild_matcher \<Rightarrow> environment_spec \<Rightarrow> string \<Rightarrow> environment_filter_action
     \<Rightarrow> (command_error, environment_spec) rust_result" where
  "with_filter U wild spec pattern action =
     and_then (env_pattern_new U wild pattern)
       (\<lambda>p. Inr (spec\<lparr>env_filters := bt_insert pat_canonical p action (bt_remove pat_canonical p (env_filters spec))\<rparr>))"

definition with_include_pattern ::
  "unicode_data \<Rightarrow> wild_matcher \<Rightarrow> environment_spec \<Rightarrow> string \<Rightarrow> (command_error, environment_spec) rust_result" where
  "with_include_pattern U wild spec pattern = with_filter U wild spec pattern Include"

definition with_exclude_pattern ::
  "unicode_data \<Rightarrow> wild_matcher \<Rightarrow> environment_spec \<Rightarrow> string \<Rightarrow> (command_error, environment_spec) rust_result" where
  "with_exclude_pattern U wild spec pattern = with_filter U wild spec pattern Exclude"

definition filters_eq ::
  "(environment_pattern \<times> environment_filter_action) list \<Rightarrow> (environment_pattern \<times> environment_filter_action) list \<Rightarrow> bool" where
  "filters_eq a b = list_all2 (\<lambda>(p, x) (q, y). env_pattern_eq p q \<and> x = y) a b"

definition environment_spec_eq :: "environment_spec \<Rightarrow> environment_spec \<Rightarrow> bool" where
  "environment_spec_eq a b \<longleftrightarrow>
     env_base a = env_base b \<and> filters_eq (env_filters a) (env_filters b)
     \<and> length (env_override_names a) = length (env_override_names b)
     \<and> list_all (\<lambda>(k, name). case map_of (env_override_names b) k of
            None \<Rightarrow> False
          | Some other_name \<Rightarrow> bt_get id (env_overrides a) name = bt_get id (env_overrides b) other_name)
        (env_override_names a)"

section \<open>One namespace\<close>

text \<open>The entry of each name identity. The two collections agree when the index records names under
  their own identity and every entry is the one its identity is recorded for.\<close>

abbreviation name_id :: "unicode_data \<Rightarrow> string \<Rightarrow> environment_name_key" where
  "name_id \<equiv> environment_name_identity"

definition name_view ::
  "unicode_data \<Rightarrow> (string \<times> 'v) list \<Rightarrow> environment_name_key \<Rightarrow> (string \<times> 'v) option" where
  "name_view U vs k = map_of (map (\<lambda>e. (name_id U (fst e), e)) vs) k"

definition names_agree ::
  "unicode_data \<Rightarrow> (string \<times> 'v) list \<times> (environment_name_key \<times> string) list \<Rightarrow> bool" where
  "names_agree U st \<longleftrightarrow>
     bt_sorted id (fst st) \<and> distinct (map fst (snd st)) \<and>
     (\<forall>k n. map_of (snd st) k = Some n \<longrightarrow> name_id U n = k) \<and>
     (\<forall>e \<in> set (fst st). map_of (snd st) (name_id U (fst e)) = Some (fst e))"

text \<open>The index is exact when it records no name without an entry.\<close>

definition names_exact :: "(string \<times> 'v) list \<times> (environment_name_key \<times> string) list \<Rightarrow> bool" where
  "names_exact st \<longleftrightarrow> (\<forall>k n. map_of (snd st) k = Some n \<longrightarrow> n \<in> fst ` set (fst st))"

definition unique_names :: "unicode_data \<Rightarrow> (string \<times> 'v) list \<Rightarrow> bool" where
  "unique_names U vs \<longleftrightarrow> distinct (map (\<lambda>e. name_id U (fst e)) vs)"

lemma names_agree_Nil [simp]: "names_agree U ([], [])" "names_exact ([], [])"
  by (simp_all add: names_agree_def names_exact_def)

lemma names_agree_entry:
  "names_agree U (vs, ns) \<Longrightarrow> e \<in> set vs \<Longrightarrow> map_of ns (name_id U (fst e)) = Some (fst e)"
  by (simp add: names_agree_def)

lemma names_agree_unique: "names_agree U (vs, ns) \<Longrightarrow> unique_names U vs"
proof -
  assume agree: "names_agree U (vs, ns)"
  have dist: "distinct (map fst vs)"
    using agree bt_sorted_distinct [of id vs] by (simp add: names_agree_def)
  have "inj_on (\<lambda>e. name_id U (fst e)) (set vs)"
  proof (rule inj_onI)
    fix x y
    assume xy: "x \<in> set vs" "y \<in> set vs" "name_id U (fst x) = name_id U (fst y)"
    have "Some (fst x) = Some (fst y)"
      using names_agree_entry [OF agree xy(1)] names_agree_entry [OF agree xy(2)] xy(3) by metis
    then have "fst x = fst y" by (rule option.inject [THEN iffD1])
    with dist xy(1,2) show "x = y" unfolding distinct_map by (blast dest: inj_onD)
  qed
  with dist show ?thesis by (simp add: unique_names_def distinct_map)
qed

lemma name_view_Nil [simp]: "name_view U [] k = None"
  by (simp add: name_view_def)

lemma name_view_iff:
  "unique_names U vs \<Longrightarrow> name_view U vs k = Some e \<longleftrightarrow> e \<in> set vs \<and> name_id U (fst e) = k"
  by (auto simp: name_view_def unique_names_def comp_def)

lemma name_view_eqI:
  assumes "unique_names U vs" and "\<And>e. e \<in> set vs \<and> name_id U (fst e) = k \<longleftrightarrow> m = Some e"
  shows "name_view U vs k = m"
proof (cases m)
  case None
  with assms have "name_view U vs k \<noteq> Some e" for e by (simp add: name_view_iff)
  with None show ?thesis by (cases "name_view U vs k") auto
next
  case (Some e)
  with assms show ?thesis by (simp add: name_view_iff)
qed

lemma unique_names_filter: "unique_names U vs \<Longrightarrow> unique_names U (filter P vs)"
  by (simp add: unique_names_def distinct_map_filter)

lemma name_view_filter:
  assumes "unique_names U vs"
  shows "name_view U (filter P vs) k = (case name_view U vs k of None \<Rightarrow> None | Some e \<Rightarrow> if P e then Some e else None)"
proof (rule name_view_eqI [OF unique_names_filter [OF assms]])
  fix e
  have "e \<in> set (filter P vs) \<and> name_id U (fst e) = k \<longleftrightarrow> name_view U vs k = Some e \<and> P e"
    using name_view_iff [OF assms, of k e] by auto
  also have "\<dots> \<longleftrightarrow> (case name_view U vs k of None \<Rightarrow> None | Some e \<Rightarrow> if P e then Some e else None) = Some e"
    by (cases "name_view U vs k") auto
  finally show "e \<in> set (filter P vs) \<and> name_id U (fst e) = k \<longleftrightarrow>
      (case name_view U vs k of None \<Rightarrow> None | Some e \<Rightarrow> if P e then Some e else None) = Some e" .
qed

lemma names_agree_filter: "names_agree U (vs, ns) \<Longrightarrow> names_agree U (filter P vs, ns)"
  by (auto simp: names_agree_def bt_sorted_filter)

lemma set_remove_environment_name:
  assumes "names_agree U (vs, ns)"
  shows "set (fst (remove_environment_name U (vs, ns) name)) = {e \<in> set vs. name_id U (fst e) \<noteq> name_id U name}"
proof (cases "map_of ns (name_id U name)")
  case None
  have "name_id U (fst e) \<noteq> name_id U name" if "e \<in> set vs" for e
    using names_agree_entry [OF assms that] None by (metis option.distinct(1))
  with None show ?thesis by (auto simp: remove_environment_name_def)
next
  case (Some n)
  then have n: "name_id U n = name_id U name" using assms by (simp add: names_agree_def)
  have "fst e = n \<longleftrightarrow> name_id U (fst e) = name_id U name" if "e \<in> set vs" for e
    using names_agree_entry [OF assms that] Some n by (metis option.inject)
  then have "{e \<in> set vs. fst e \<noteq> n} = {e \<in> set vs. name_id U (fst e) \<noteq> name_id U name}" by blast
  with Some show ?thesis by (simp add: remove_environment_name_def set_bt_remove)
qed

lemma index_remove_environment_name:
  assumes "names_agree U (vs, ns)"
  shows "map_of (snd (remove_environment_name U (vs, ns) name)) = (map_of ns)(name_id U name := None)"
  by (cases "map_of ns (name_id U name)")
    (auto simp: remove_environment_name_def delete_conv' fun_upd_idem)

lemma names_agree_remove:
  assumes "names_agree U (vs, ns)"
  shows "names_agree U (remove_environment_name U (vs, ns) name)"
proof -
  let ?r = "remove_environment_name U (vs, ns) name"
  have "bt_sorted id (fst ?r)" and "distinct (map fst (snd ?r))"
    using assms by (auto simp: remove_environment_name_def names_agree_def bt_sorted_remove distinct_delete
        split: option.splits)
  moreover have "map_of (snd ?r) k = Some n \<Longrightarrow> name_id U n = k" for k n
    using assms unfolding index_remove_environment_name [OF assms] by (auto simp: names_agree_def split: if_splits)
  moreover have "map_of (snd ?r) (name_id U (fst e)) = Some (fst e)" if "e \<in> set (fst ?r)" for e
    using that names_agree_entry [OF assms, of e]
    unfolding index_remove_environment_name [OF assms] set_remove_environment_name [OF assms] by simp
  ultimately show ?thesis by (simp add: names_agree_def)
qed

lemma name_view_remove:
  assumes "names_agree U (vs, ns)"
  shows "name_view U (fst (remove_environment_name U (vs, ns) name)) = (name_view U vs)(name_id U name := None)"
proof
  fix k
  have u: "unique_names U (fst (remove_environment_name U (vs, ns) name))"
    using names_agree_remove [OF assms] names_agree_unique by (metis prod.collapse)
  show "name_view U (fst (remove_environment_name U (vs, ns) name)) k = ((name_view U vs)(name_id U name := None)) k"
    by (rule name_view_eqI [OF u])
      (auto simp: set_remove_environment_name [OF assms] name_view_iff [OF names_agree_unique [OF assms]])
qed

lemma set_environment_name_facts:
  assumes "names_agree U (vs, ns)"
  shows "set (fst (set_environment_name U (vs, ns) (name, v))) =
      insert (name, v) (set (fst (remove_environment_name U (vs, ns) name)))"
    and "map_of (snd (set_environment_name U (vs, ns) (name, v))) = (map_of ns)(name_id U name \<mapsto> name)"
proof -
  let ?r = "remove_environment_name U (vs, ns) name"
  have "\<forall>e \<in> set (fst ?r). id (fst e) \<noteq> id name"
    using set_remove_environment_name [OF assms] by auto
  then show "set (fst (set_environment_name U (vs, ns) (name, v))) = insert (name, v) (set (fst ?r))"
    using set_bt_insert_new [of "fst ?r" id name v] by (simp add: set_environment_name_def case_prod_beta)
  show "map_of (snd (set_environment_name U (vs, ns) (name, v))) = (map_of ns)(name_id U name \<mapsto> name)"
    using index_remove_environment_name [OF assms, of name]
    by (simp add: set_environment_name_def update_conv' case_prod_beta)
qed

lemma names_agree_set:
  assumes "names_agree U (vs, ns)"
  shows "names_agree U (set_environment_name U (vs, ns) (name, v))"
proof -
  let ?s = "set_environment_name U (vs, ns) (name, v)"
  obtain vs' ns' where r: "remove_environment_name U (vs, ns) name = (vs', ns')" by (rule prod.exhaust)
  then have agree: "names_agree U (vs', ns')" using names_agree_remove [OF assms] by metis
  then have "bt_sorted id (fst ?s)" and "distinct (map fst (snd ?s))"
    by (simp_all add: set_environment_name_def r names_agree_def bt_sorted_insert distinct_update)
  moreover have "map_of (snd ?s) k = Some n \<Longrightarrow> name_id U n = k" for k n
    using assms unfolding set_environment_name_facts [OF assms] by (auto simp: names_agree_def split: if_splits)
  moreover have "map_of (snd ?s) (name_id U (fst e)) = Some (fst e)" if "e \<in> set (fst ?s)" for e
    using that names_agree_entry [OF assms, of e] set_remove_environment_name [OF assms]
    unfolding set_environment_name_facts [OF assms] by auto
  ultimately show ?thesis by (simp add: names_agree_def)
qed

lemma name_view_set:
  assumes "names_agree U (vs, ns)"
  shows "name_view U (fst (set_environment_name U (vs, ns) (name, v))) = (name_view U vs)(name_id U name \<mapsto> (name, v))"
proof
  fix k
  have u: "unique_names U (fst (set_environment_name U (vs, ns) (name, v)))"
    using names_agree_set [OF assms] names_agree_unique by (metis prod.collapse)
  show "name_view U (fst (set_environment_name U (vs, ns) (name, v))) k = ((name_view U vs)(name_id U name \<mapsto> (name, v))) k"
    by (rule name_view_eqI [OF u])
      (auto simp: set_environment_name_facts [OF assms] set_remove_environment_name [OF assms]
        name_view_iff [OF names_agree_unique [OF assms]])
qed

lemma names_exact_set:
  assumes "names_agree U (vs, ns)" and "names_exact (vs, ns)"
  shows "names_exact (set_environment_name U (vs, ns) (name, v))"
  unfolding names_exact_def set_environment_name_facts [OF assms(1)] set_remove_environment_name [OF assms(1)]
proof (intro allI impI)
  fix k n
  assume k: "((map_of ns)(name_id U name \<mapsto> name)) k = Some n"
  show "n \<in> fst ` insert (name, v) {e \<in> set vs. name_id U (fst e) \<noteq> name_id U name}"
  proof (cases "k = name_id U name")
    case False
    with k have "map_of ns k = Some n" by simp
    with assms have "n \<in> fst ` set vs" "name_id U n = k"
      unfolding names_exact_def names_agree_def fst_conv snd_conv by blast+
    with False show ?thesis by auto
  qed (use k in auto)
qed

section \<open>Folding assignments\<close>

lemma unique_names_snoc:
  "unique_names U (xs @ [x]) \<longleftrightarrow> unique_names U xs \<and> name_view U xs (name_id U (fst x)) = None"
  by (auto simp: unique_names_def name_view_def map_of_eq_None_iff image_iff)

lemma name_view_snoc:
  "name_view U xs (name_id U (fst x)) = None \<Longrightarrow> name_view U (xs @ [x]) = (name_view U xs)(name_id U (fst x) \<mapsto> x)"
  by (auto simp: name_view_def fun_eq_iff map_add_def split: option.splits)

lemma foldl_set_names:
  assumes "unique_names U xs"
  shows "names_agree U (foldl (set_environment_name U) ([], []) xs)"
    and "name_view U (fst (foldl (set_environment_name U) ([], []) xs)) = name_view U xs"
proof -
  have "names_agree U (foldl (set_environment_name U) ([], []) xs) \<and>
      name_view U (fst (foldl (set_environment_name U) ([], []) xs)) = name_view U xs"
    using assms
  proof (induction xs rule: rev_induct)
    case (snoc x xs)
    obtain vs ns where st: "foldl (set_environment_name U) ([], []) xs = (vs, ns)" by (rule prod.exhaust)
    obtain n v where x: "x = (n, v)" by (rule prod.exhaust)
    from snoc have IH: "names_agree U (vs, ns)" "name_view U vs = name_view U xs"
      by (simp_all add: unique_names_snoc st)
    from snoc.prems have "name_view U xs (name_id U n) = None" by (simp add: unique_names_snoc x)
    with IH names_agree_set [OF IH(1), of n v] name_view_set [OF IH(1), of n v] show ?case
      by (simp add: st x name_view_snoc)
  qed (simp add: name_view_def)
  then show "names_agree U (foldl (set_environment_name U) ([], []) xs)"
    and "name_view U (fst (foldl (set_environment_name U) ([], []) xs)) = name_view U xs" by auto
qed

text \<open>The effect of the overrides on one name.\<close>

definition overridden ::
  "(string \<times> environment_override) option \<Rightarrow> (string \<times> string) option \<Rightarrow> (string \<times> string) option" where
  "overridden o' inherited =
     (case o' of None \<Rightarrow> inherited | Some (n, SetVar v) \<Rightarrow> Some (n, v) | Some (_, RemoveVar) \<Rightarrow> None)"

lemma foldl_apply_override:
  assumes "names_agree U st" and "unique_names U ovs"
  shows "names_agree U (foldl (apply_override U) st ovs)"
    and "name_view U (fst (foldl (apply_override U) st ovs)) = (\<lambda>k. overridden (name_view U ovs k) (name_view U (fst st) k))"
proof -
  have "names_agree U (foldl (apply_override U) st ovs) \<and>
    name_view U (fst (foldl (apply_override U) st ovs)) = (\<lambda>k. overridden (name_view U ovs k) (name_view U (fst st) k))"
    using assms(2)
  proof (induction ovs rule: rev_induct)
    case (snoc x ovs)
    obtain vs ns where st: "foldl (apply_override U) st ovs = (vs, ns)" by (rule prod.exhaust)
    obtain n a where x: "x = (n, a)" by (rule prod.exhaust)
    from snoc have IH: "names_agree U (vs, ns)"
      "name_view U vs = (\<lambda>k. overridden (name_view U ovs k) (name_view U (fst st) k))"
      by (simp_all add: unique_names_snoc st)
    from snoc.prems have new: "name_view U ovs (name_id U n) = None" by (simp add: unique_names_snoc x)
    show ?case
    proof (cases a)
      case (SetVar v)
      then have "apply_override U (vs, ns) (n, a) = set_environment_name U (vs, ns) (n, v)"
        by (simp add: apply_override_def)
      with SetVar IH(2) names_agree_set [OF IH(1), of n v] name_view_set [OF IH(1), of n v] new show ?thesis
        by (auto simp: st x name_view_snoc overridden_def fun_eq_iff)
    next
      case RemoveVar
      then have "apply_override U (vs, ns) (n, a) = remove_environment_name U (vs, ns) n"
        by (simp add: apply_override_def)
      with RemoveVar IH(2) names_agree_remove [OF IH(1), of n] name_view_remove [OF IH(1), of n] new show ?thesis
        by (auto simp: st x name_view_snoc overridden_def fun_eq_iff)
    qed
  qed (use assms(1) in \<open>simp add: overridden_def\<close>)
  then show "names_agree U (foldl (apply_override U) st ovs)"
    and "name_view U (fst (foldl (apply_override U) st ovs)) = (\<lambda>k. overridden (name_view U ovs k) (name_view U (fst st) k))"
    by auto
qed

section \<open>What a specification means\<close>

text \<open>The contract of \<open>apply_to\<close> on one namespace: exclude, then set or remove, then include.\<close>

definition keep :: "(string \<Rightarrow> bool) \<Rightarrow> (string \<times> 'v) option \<Rightarrow> (string \<times> 'v) option" where
  "keep P e = (case e of None \<Rightarrow> None | Some (n, v) \<Rightarrow> if P n then Some (n, v) else None)"

definition namespace_apply ::
  "unicode_data \<Rightarrow> environment_spec \<Rightarrow> (environment_name_key \<Rightarrow> (string \<times> string) option)
     \<Rightarrow> environment_name_key \<Rightarrow> (string \<times> string) option" where
  "namespace_apply U spec inherited k =
     keep (retain_included spec)
       (overridden (name_view U (env_overrides spec) k) (keep (retain_not_excluded spec) (inherited k)))"

definition wf_environment :: "unicode_data \<Rightarrow> environment_spec \<Rightarrow> bool" where
  "wf_environment U spec \<longleftrightarrow>
     names_agree U (env_overrides spec, env_override_names spec) \<and>
     names_exact (env_overrides spec, env_override_names spec) \<and> bt_sorted pat_canonical (env_filters spec)"

definition wf_input :: "unicode_data \<Rightarrow> environment_input \<Rightarrow> bool" where
  "wf_input U input \<longleftrightarrow> bt_sorted id (input_variables input) \<and> unique_names U (input_variables input)"

lemma name_view_keep:
  "unique_names U vs \<Longrightarrow> name_view U (filter (\<lambda>(n, _). P n) vs) k = keep P (name_view U vs k)"
  by (simp add: name_view_filter keep_def split: option.splits prod.splits)

lemma apply_to_refines:
  assumes "wf_environment U spec" and "wf_input U input" and "apply_to U spec input = Inr out"
  shows "wf_input U out" and "name_view U (input_variables out) = namespace_apply U spec (name_view U (input_variables input))"
    and "input_base out = input_base input"
proof -
  obtain vs ns where st: "foldl (set_environment_name U) ([], []) (input_variables input) = (vs, ns)"
    by (rule prod.exhaust)
  let ?vs = "filter (\<lambda>(n, _). retain_not_excluded spec n) vs"
  obtain vs' ns' where st': "foldl (apply_override U) (?vs, ns) (env_overrides spec) = (vs', ns')" by (rule prod.exhaust)
  from assms(3) have out: "out = \<lparr>input_base = input_base input,
      input_variables = filter (\<lambda>(n, _). retain_included spec n) vs'\<rparr>"
    by (simp add: apply_to_def st st' split: if_splits)
  have in_u: "unique_names U (input_variables input)" using assms(2) by (simp add: wf_input_def)
  have agree: "names_agree U (vs, ns)" and view: "name_view U vs = name_view U (input_variables input)"
    using foldl_set_names [OF in_u] by (simp_all add: st)
  have agree1: "names_agree U (?vs, ns)" by (rule names_agree_filter [OF agree])
  have view1: "name_view U ?vs k = keep (retain_not_excluded spec) (name_view U (input_variables input) k)" for k
    using name_view_keep [OF names_agree_unique [OF agree]] by (simp add: view)
  have ovs: "unique_names U (env_overrides spec)"
    using assms(1) names_agree_unique by (auto simp: wf_environment_def)
  note overrides = foldl_apply_override [OF agree1 ovs]
  have agree2: "names_agree U (vs', ns')"
    and view2: "name_view U vs' k = overridden (name_view U (env_overrides spec) k) (name_view U ?vs k)" for k
    using overrides by (simp_all add: st')
  have u2: "unique_names U vs'" by (rule names_agree_unique [OF agree2])
  show "wf_input U out"
    using agree2 u2 unique_names_filter by (simp add: out wf_input_def names_agree_def bt_sorted_filter)
  show "name_view U (input_variables out) = namespace_apply U spec (name_view U (input_variables input))"
    using name_view_keep [OF u2] by (simp add: out fun_eq_iff namespace_apply_def view1 view2)
  show "input_base out = input_base input" by (simp add: out)
qed

section \<open>Values built through the public interface\<close>

inductive built_environment :: "unicode_data \<Rightarrow> wild_matcher \<Rightarrow> environment_spec \<Rightarrow> bool" for U wild where
  inherit_all: "built_environment U wild inherit_all"
| empty: "built_environment U wild spec_empty"
| inherit_core: "built_environment U wild inherit_core"
| var: "built_environment U wild s \<Longrightarrow> with_var U s name v = Inr s' \<Longrightarrow> built_environment U wild s'"
| removal: "built_environment U wild s \<Longrightarrow> without_var U s name = Inr s' \<Longrightarrow> built_environment U wild s'"
| filter: "built_environment U wild s \<Longrightarrow> with_filter U wild s pattern action = Inr s' \<Longrightarrow> built_environment U wild s'"

inductive built_input :: "unicode_data \<Rightarrow> environment_input \<Rightarrow> bool" for U where
  all: "input_all U vars = Inr i \<Longrightarrow> built_input U i"
| core: "core_from_selected U vars = Inr c \<Longrightarrow> built_input U (input_core c)"
| empty: "built_input U input_empty"

lemma wf_with_override:
  assumes "wf_environment U spec"
  shows "wf_environment U (with_override U spec name value)"
proof -
  let ?st = "(env_overrides spec, env_override_names spec)"
  have "names_agree U (set_environment_name U ?st (name, value))" "names_exact (set_environment_name U ?st (name, value))"
    using assms names_agree_set names_exact_set by (auto simp: wf_environment_def)
  with assms show ?thesis by (auto simp: wf_environment_def with_override_def split: prod.splits)
qed

lemma built_environment_wf: "built_environment U wild spec \<Longrightarrow> wf_environment U spec"
proof (induction rule: built_environment.induct)
  case (var s name v s')
  then show ?case using wf_with_override by (auto simp: with_var_def and_then_eq_Inr split: if_splits)
next
  case (removal s name s')
  then show ?case using wf_with_override by (auto simp: without_var_def and_then_eq_Inr)
next
  case (filter s pattern action s')
  then show ?case
    by (auto simp: with_filter_def and_then_eq_Inr wf_environment_def bt_sorted_insert bt_sorted_remove)
qed (simp_all add: wf_environment_def inherit_all_def spec_empty_def inherit_core_def)

lemma collect_environment_wf:
  assumes "collect_environment U vars = Inr vs"
  shows "bt_sorted id vs" and "unique_names U vs"
proof -
  from assms obtain ns where st: "try_fold (collect_step U) ([], []) vars = Inr (vs, ns)"
    by (auto simp: collect_environment_def and_then_eq_Inr)
  have "names_agree U (vs, ns)"
  proof (rule try_fold_invariant [OF st])
    fix s x s'
    assume "names_agree U s" "collect_step U s x = Inr s'"
    then show "names_agree U s'"
      using names_agree_set [of U "fst s" "snd s" "fst x" "snd x"]
      by (auto simp: collect_step_def and_then_eq_Inr split: if_splits)
  qed simp
  then show "bt_sorted id vs" and "unique_names U vs"
    using names_agree_unique by (auto simp: names_agree_def)
qed

lemma built_input_wf: "built_input U i \<Longrightarrow> wf_input U i"
  by (induction rule: built_input.induct)
    (auto simp: input_all_def core_from_selected_def input_core_def input_empty_def and_then_eq_Inr wf_input_def
      unique_names_def collect_environment_wf [unfolded unique_names_def])

lemma filter_action_loop_Exclude:
  "filter_action_loop name inc fs = Some Exclude \<longleftrightarrow> list_ex (\<lambda>(p, a). a = Exclude \<and> env_pattern_matches p name) fs"
proof (induction fs arbitrary: inc)
  case (Cons x fs)
  then show ?case by (cases x; cases "snd x") auto
qed simp

lemma retain_not_excluded_iff:
  "retain_not_excluded spec n \<longleftrightarrow> env_filters spec = [] \<or> (is_utf8 n \<and> filter_action_for spec n \<noteq> Some Exclude)"
  by (auto simp: retain_not_excluded_def to_str_def filter_action_for_def filter_action_loop_Exclude filter_matches_def)

fun breadth :: "environment_base \<Rightarrow> nat" where
  "breadth EnvNone = 0"
| "breadth EnvCore = 1"
| "breadth EnvAll = 2"

lemma base_is_at_most_breadth: "base_is_at_most s r \<longleftrightarrow> breadth s \<le> breadth r"
  by (cases s; cases r) auto

text \<open>The stored overrides as a function of the name identity.\<close>

definition override_view :: "unicode_data \<Rightarrow> environment_spec \<Rightarrow> environment_name_key \<Rightarrow> environment_override option" where
  "override_view U spec k = map_option snd (name_view U (env_overrides spec) k)"

lemma index_override:
  assumes "wf_environment U spec" and "map_of (env_override_names spec) k = Some n"
  shows "override_view U spec k = bt_get id (env_overrides spec) n" and "override_view U spec k \<noteq> None"
proof -
  have agree: "names_agree U (env_overrides spec, env_override_names spec)" using assms(1) by (simp add: wf_environment_def)
  from assms obtain e where e: "e \<in> set (env_overrides spec)" "fst e = n" "name_id U n = k"
    unfolding wf_environment_def names_agree_def names_exact_def by force
  then have "name_view U (env_overrides spec) k = Some e"
    using name_view_iff [OF names_agree_unique [OF agree]] by blast
  moreover have "bt_get id (env_overrides spec) n = Some (snd e)"
  proof -
    have "(n, snd e) \<in> set (env_overrides spec)" using e(1,2) by (metis prod.collapse)
    then show ?thesis using agree bt_get_iff [of id "env_overrides spec"] by (auto simp: names_agree_def)
  qed
  ultimately show "override_view U spec k = bt_get id (env_overrides spec) n" and "override_view U spec k \<noteq> None"
    by (simp_all add: override_view_def)
qed

lemma index_override_None:
  assumes "wf_environment U spec" and "map_of (env_override_names spec) k = None"
  shows "override_view U spec k = None"
proof (rule ccontr)
  assume "override_view U spec k \<noteq> None"
  then obtain e where "name_view U (env_overrides spec) k = Some e" by (auto simp: override_view_def)
  moreover have agree: "names_agree U (env_overrides spec, env_override_names spec)"
    using assms(1) by (simp add: wf_environment_def)
  ultimately have "e \<in> set (env_overrides spec)" "name_id U (fst e) = k"
    using name_view_iff [OF names_agree_unique [OF agree]] by blast+
  with names_agree_entry [OF agree, of e] assms(2) show False by (metis option.distinct(1))
qed

lemma override_for_view: "wf_environment U spec \<Longrightarrow> override_for U spec name = override_view U spec (name_id U name)"
  using index_override [of U spec "name_id U name"] index_override_None [of U spec "name_id U name"]
  by (cases "map_of (env_override_names spec) (name_id U name)") (auto simp: override_for_def)

lemma index_dom:
  assumes "wf_environment U spec"
  shows "fst ` set (env_override_names spec) = {k. override_view U spec k \<noteq> None}"
proof -
  have "map_of (env_override_names spec) k \<noteq> None \<longleftrightarrow> override_view U spec k \<noteq> None" for k
    using index_override(2) [OF assms, of k] index_override_None [OF assms, of k]
    by (cases "map_of (env_override_names spec) k") auto
  then show ?thesis unfolding dom_map_of_conv_image_fst [symmetric] dom_def by blast
qed

lemma environment_spec_eq_view:
  assumes a: "wf_environment U a" and b: "wf_environment U b"
  shows "environment_spec_eq a b \<longleftrightarrow>
     env_base a = env_base b \<and> filters_eq (env_filters a) (env_filters b) \<and> override_view U a = override_view U b"
proof -
  let ?na = "env_override_names a" and ?nb = "env_override_names b"
  have dist: "distinct (map fst ?na)" "distinct (map fst ?nb)"
    using a b by (simp_all add: wf_environment_def names_agree_def)
  then have len: "length ?na = card (fst ` set ?na)" "length ?nb = card (fst ` set ?nb)"
    by (metis distinct_card length_map set_map)+
  have entry: "(case map_of ?nb k of None \<Rightarrow> False
        | Some m \<Rightarrow> bt_get id (env_overrides a) n = bt_get id (env_overrides b) m) \<longleftrightarrow>
      override_view U a k = override_view U b k" if "(k, n) \<in> set ?na" for k n
  proof -
    have n: "map_of ?na k = Some n" using dist(1) that by simp
    note va = index_override [OF a n]
    show ?thesis
    proof (cases "map_of ?nb k")
      case None
      with index_override_None [OF b None] va(2) show ?thesis by simp
    next
      case (Some m)
      with index_override(1) [OF b Some] va(1) show ?thesis by simp
    qed
  qed
  have "length ?na = length ?nb \<and> (\<forall>k \<in> fst ` set ?na. override_view U a k = override_view U b k) \<longleftrightarrow>
      override_view U a = override_view U b"
  proof (intro iffI conjI)
    assume *: "length ?na = length ?nb \<and> (\<forall>k \<in> fst ` set ?na. override_view U a k = override_view U b k)"
    then have "fst ` set ?na \<subseteq> fst ` set ?nb" using index_dom [OF a] index_dom [OF b] by auto
    moreover have "card (fst ` set ?na) = card (fst ` set ?nb)" using * len by simp
    ultimately have "fst ` set ?na = fst ` set ?nb" by (intro card_subset_eq) auto
    then have dom: "{k. override_view U a k \<noteq> None} = {k. override_view U b k \<noteq> None}"
      unfolding index_dom [OF a] index_dom [OF b] .
    then have same: "override_view U a k = None \<longleftrightarrow> override_view U b k = None" for k
      by (metis (mono_tags, lifting) mem_Collect_eq)
    show "override_view U a = override_view U b"
    proof
      fix k
      show "override_view U a k = override_view U b k"
        using * same [of k] unfolding index_dom [OF a] by (cases "override_view U a k") auto
    qed
  next
    assume "override_view U a = override_view U b"
    then show "length ?na = length ?nb" using len index_dom [OF a] index_dom [OF b] by simp
  qed auto
  moreover have "list_all (\<lambda>(k, n). case map_of ?nb k of None \<Rightarrow> False
        | Some m \<Rightarrow> bt_get id (env_overrides a) n = bt_get id (env_overrides b) m) ?na \<longleftrightarrow>
      (\<forall>k \<in> fst ` set ?na. override_view U a k = override_view U b k)"
    using entry by (auto simp: list_all_iff)
  ultimately show ?thesis by (simp add: environment_spec_eq_def)
qed

section \<open>Properties\<close>

text \<open>C20: Applying a specification built through the public interface to a base environment
  implements its contract on one case-insensitive namespace: a variable is inherited unless an
  exclude filter matches it, an explicit assignment or removal then decides, and the include filters
  then keep only what they match. The result again has one spelling per name.\<close>

theorem apply_to_implements_contract:
  assumes "built_environment U wild spec" and "built_input U input" and "apply_to U spec input = Inr out"
  shows "name_view U (input_variables out) = namespace_apply U spec (name_view U (input_variables input)) \<and>
     unique_names U (input_variables out) \<and> bt_sorted id (input_variables out) \<and> input_base out = input_base input"
  using apply_to_refines [OF built_environment_wf [OF assms(1)] built_input_wf [OF assms(2)] assms(3)]
  by (simp add: wf_input_def)

text \<open>A matcher for examples: a pattern matches its own text, and \<open>*\<close> everything.\<close>

definition example_wild :: wild_matcher where
  "example_wild pattern name \<longleftrightarrow> pattern = ''*'' \<or> pattern = name"

definition example_environment :: "(command_error, environment_spec) rust_result" where
  "example_environment =
     and_then (with_exclude_pattern ascii_tables example_wild inherit_all ''SECRET'')
       (\<lambda>s. with_var ascii_tables s ''Path'' ''/bin'')"

definition example_input :: "(command_error, environment_input) rust_result" where
  "example_input = input_all ascii_tables [(''SECRET'', ''x''), (''PATH'', ''/usr/bin''), (''HOME'', ''/h'')]"

lemma example_environment_built:
  "example_environment = Inr s \<Longrightarrow> built_environment ascii_tables example_wild s"
  by (auto simp: example_environment_def with_exclude_pattern_def and_then_eq_Inr
      dest!: built_environment.filter [OF built_environment.inherit_all] dest: built_environment.var)

theorem apply_to_implements_contract_witness:
  "\<exists>s i out. example_environment = Inr s \<and> example_input = Inr i \<and> apply_to ascii_tables s i = Inr out \<and>
     input_variables out = [(''HOME'', ''/h''), (''Path'', ''/bin'')] \<and>
     name_view ascii_tables (input_variables out) = namespace_apply ascii_tables s (name_view ascii_tables (input_variables i))"
proof -
  have "map_option input_variables (case example_environment of Inl _ \<Rightarrow> None | Inr s \<Rightarrow>
      (case example_input of Inl _ \<Rightarrow> None | Inr i \<Rightarrow> (case apply_to ascii_tables s i of Inl _ \<Rightarrow> None | Inr out \<Rightarrow> Some out)))
      = Some [(''HOME'', ''/h''), (''Path'', ''/bin'')]"
    by code_simp
  then obtain s i out where run: "example_environment = Inr s" "example_input = Inr i" "apply_to ascii_tables s i = Inr out"
    and vars: "input_variables out = [(''HOME'', ''/h''), (''Path'', ''/bin'')]"
    by (auto split: sum.splits)
  have "built_input ascii_tables i" using run(2) by (auto simp: example_input_def intro: built_input.all)
  from apply_to_implements_contract [OF example_environment_built [OF run(1)] this run(3)] run vars show ?thesis by blast
qed

text \<open>The base is enforced. \<open>apply_to\<close> fails exactly when the supplied environment is broader
  than the base the specification asks for; otherwise every variable of the result is either an
  inherited one that no exclude filter matches or set explicitly by an override, and a removed name
  does not occur.\<close>

theorem apply_to_enforces_base:
  assumes "built_environment U wild spec" and "built_input U input"
  shows "(breadth (env_base spec) < breadth (input_base input) \<longleftrightarrow>
       apply_to U spec input = Inl (EnvironmentBaseTooPermissive (env_base spec) (input_base input))) \<and>
     (\<forall>out n v. apply_to U spec input = Inr out \<longrightarrow> (n, v) \<in> set (input_variables out) \<longrightarrow>
       breadth (input_base out) \<le> breadth (env_base spec) \<and> override_for U spec n \<noteq> Some RemoveVar \<and>
       (override_for U spec n = Some (SetVar v) \<or>
        (n, v) \<in> set (input_variables input) \<and>
        (env_filters spec = [] \<or> is_utf8 n \<and> filter_action_for spec n \<noteq> Some Exclude)))"
proof (intro conjI allI impI)
  show "breadth (env_base spec) < breadth (input_base input) \<longleftrightarrow>
      apply_to U spec input = Inl (EnvironmentBaseTooPermissive (env_base spec) (input_base input))"
    by (auto simp: apply_to_def base_is_at_most_breadth Let_def split: prod.splits)
next
  fix out n v
  assume run: "apply_to U spec input = Inr out" and nv: "(n, v) \<in> set (input_variables out)"
  note wf = built_environment_wf [OF assms(1)] built_input_wf [OF assms(2)]
  note ref = apply_to_refines [OF wf run]
  show "breadth (input_base out) \<le> breadth (env_base spec)"
    using run by (auto simp: apply_to_def base_is_at_most_breadth Let_def split: prod.splits if_splits)
  let ?o = "name_view U (env_overrides spec) (name_id U n)" and ?i = "name_view U (input_variables input) (name_id U n)"
  have "unique_names U (input_variables out)" using ref(1) by (simp add: wf_input_def)
  with nv have "name_view U (input_variables out) (name_id U n) = Some (n, v)" by (simp add: name_view_iff)
  then have cases: "overridden ?o (keep (retain_not_excluded spec) ?i) = Some (n, v)"
    unfolding ref(2) by (auto simp: namespace_apply_def keep_def split: option.splits if_splits)
  have o: "override_for U spec n = map_option snd ?o" by (simp add: override_for_view [OF wf(1)] override_view_def)
  show "override_for U spec n \<noteq> Some RemoveVar"
    using cases by (auto simp: o overridden_def split: option.splits environment_override.splits)
  have "unique_names U (input_variables input)" using wf(2) by (simp add: wf_input_def)
  with cases show "override_for U spec n = Some (SetVar v) \<or>
        (n, v) \<in> set (input_variables input) \<and>
        (env_filters spec = [] \<or> is_utf8 n \<and> filter_action_for spec n \<noteq> Some Exclude)"
    unfolding retain_not_excluded_iff [symmetric]
    by (auto simp: o overridden_def keep_def name_view_iff split: option.splits environment_override.splits if_splits)
qed

theorem apply_to_enforces_base_witness:
  "apply_to ascii_tables spec_empty \<lparr>input_base = EnvAll, input_variables = []\<rparr>
     = Inl (EnvironmentBaseTooPermissive EnvNone EnvAll)"
proof -
  have "input_all ascii_tables [] = Inr \<lparr>input_base = EnvAll, input_variables = []\<rparr>" by code_simp
  then have "built_input ascii_tables \<lparr>input_base = EnvAll, input_variables = []\<rparr>" by (rule built_input.all)
  from apply_to_enforces_base [OF built_environment.empty [of ascii_tables example_wild] this] show ?thesis
    by (simp add: spec_empty_def)
qed

text \<open>Equality of specifications, which looks only at the index of one side, is equality of
  meaning: two specifications are equal exactly when they have the same base, the same filters and
  the same override for every name identity, however the names are spelled. Hence it is symmetric.\<close>

theorem environment_equality_is_semantic:
  assumes "built_environment U wild a" and "built_environment U wild b"
  shows "(environment_spec_eq a b \<longleftrightarrow>
       env_base a = env_base b \<and> filters_eq (env_filters a) (env_filters b) \<and>
       (\<forall>k. override_view U a k = override_view U b k)) \<and>
     (environment_spec_eq a b \<longleftrightarrow> environment_spec_eq b a)"
proof -
  note wf = built_environment_wf [OF assms(1)] built_environment_wf [OF assms(2)]
  have "filters_eq (env_filters a) (env_filters b) \<longleftrightarrow> filters_eq (env_filters b) (env_filters a)"
    by (auto simp: filters_eq_def env_pattern_eq_def list_all2_conv_all_nth)
  then show ?thesis
    unfolding environment_spec_eq_view [OF wf] environment_spec_eq_view [OF wf(2,1)] fun_eq_iff by auto
qed

theorem environment_equality_is_semantic_witness:
  "\<exists>a b. with_var ascii_tables spec_empty ''PATH'' ''/bin'' = Inr a \<and> with_var ascii_tables spec_empty ''Path'' ''/bin'' = Inr b \<and>
     environment_spec_eq a b \<and> environment_spec_eq b a"
proof -
  have "(case (with_var ascii_tables spec_empty ''PATH'' ''/bin'', with_var ascii_tables spec_empty ''Path'' ''/bin'') of
      (Inr a, Inr b) \<Rightarrow> environment_spec_eq a b | _ \<Rightarrow> False)" by code_simp
  then obtain a b where ab: "with_var ascii_tables spec_empty ''PATH'' ''/bin'' = Inr a"
    "with_var ascii_tables spec_empty ''Path'' ''/bin'' = Inr b" "environment_spec_eq a b"
    by (auto split: sum.splits)
  then have "built_environment ascii_tables example_wild a" "built_environment ascii_tables example_wild b"
    using built_environment.var [OF built_environment.empty] by blast+
  from environment_equality_is_semantic [OF this] ab show ?thesis by blast
qed

end
