(* ===== verification/Composition.thy ===== *)
theory Composition
  imports Sandbox_Policy Environment
begin

text \<open>
  Composition of a requested policy with a ceiling (\<open>cageforge-policy-compose/src\<close>): the request
  and ceiling models, \<open>compose\<close>, the effective filesystem, network and environment decisions, the
  runtime path context bound to one composition, and the aggregate requirements a backend checks.
  The \<open>Arc\<close> whose address identifies an external owner or a composition is a number; \<open>compose\<close>
  takes the address its fresh allocation gets.
\<close>

section \<open>Types (model/types.rs, filesystem.rs, environment.rs, context.rs, error.rs)\<close>

type_synonym external_owner = nat
type_synonym context_identity = nat

datatype composition_boundary = FilesystemBoundary | NetworkBoundary

datatype composition_error =
    InvalidRequestedPolicy policy_error
  | InvalidCeiling policy_error
  | InvalidWorkspaceRoot string string
  | WorkspaceRootNotGranted string
  | InvalidPathContext policy_error
  | PathContextMismatch
  | ComposedBaseTooPermissive environment_base environment_base
  | EnvironmentApplication command_error
  | EnforcementOwnershipConflict composition_boundary
  | ExternalOwnerMismatch composition_boundary
  | UnexpectedExternalOwner composition_boundary
  | PolicyEvaluation composition_boundary policy_error

record policy_ceiling =
  ceil_policy :: sandbox_policy
  ceil_environment :: environment_spec
  ceil_workspace_roots :: "string list option"
  ceil_external_owner :: "external_owner option"

record composition_request =
  comp_policy :: sandbox_policy
  comp_environment :: environment_spec
  comp_workspace_roots :: "string list option"
  comp_ceiling :: policy_ceiling
  comp_external_owner :: "external_owner option"

record effective_filesystem =
  ef_requested :: filesystem_policy
  ef_ceiling :: filesystem_policy
  ef_identity :: context_identity

record effective_network =
  en_requested :: network_policy
  en_ceiling :: network_policy

record effective_environment =
  ee_requested :: environment_spec
  ee_ceiling :: environment_spec

record effective_sandbox =
  es_filesystem :: effective_filesystem
  es_network :: effective_network
  es_environment :: effective_environment
  es_workspace_roots :: "string list option"
  es_workspace_root_limit :: "string list option"

record effective_path_context =
  epc_context :: path_context
  epc_identity :: context_identity

record composed_workspace_roots =
  cw_selected :: "string list option"
  cw_limit :: "string list option"

record effective_filesystem_requirements =
  fsr_mode :: filesystem_mode
  fsr_scopes :: bool
  fsr_absolute_scopes :: bool
  fsr_workspace_scopes :: bool
  fsr_root_scopes :: bool
  fsr_minimal_scopes :: bool
  fsr_tmpdir_scopes :: bool
  fsr_conventional_temporary_scopes :: bool
  fsr_globs :: bool
  fsr_glob_scan_depth :: bool
  fsr_read_only_subpaths :: bool
  fsr_missing_path_behavior :: bool
  fsr_protected_paths :: bool

record effective_network_requirements =
  nr_mode :: network_mode
  nr_domain_rules :: bool
  nr_local_address_restrictions :: bool
  nr_resolved_targets :: bool
  nr_local_ipc_isolation :: bool
  nr_local_ipc_rules :: bool
  nr_local_ipc_deny_rules :: bool
  nr_windows_named_pipe_rules :: bool

record effective_environment_requirements =
  er_base :: environment_base
  er_filters :: bool
  er_overrides :: bool

section \<open>Requests and ceilings (model.rs)\<close>

definition validate_root :: "string \<Rightarrow> (composition_error, unit) rust_result" where
  "validate_root path =
     (if path = [] then Inl (InvalidWorkspaceRoot path ''root must not be empty'')
      else if CHR 0x00 \<in> set (to_string_lossy path) then Inl (InvalidWorkspaceRoot path ''root must not contain NUL'')
      else if contains_parent_traversal path then Inl (InvalidWorkspaceRoot path ''parent traversal is not allowed'')
      else if \<not> is_absolute path
      then Inl (InvalidWorkspaceRoot path ''root must be absolute at composition time'')
      else Inr ())"

definition normalize_root_step ::
  "native_component_key list set \<times> string list \<Rightarrow> string
     \<Rightarrow> (composition_error, native_component_key list set \<times> string list) rust_result" where
  "normalize_root_step st root =
     and_then (validate_root root) (\<lambda>_. Inr (push_unique native_path_key st root))"

definition normalize_roots :: "string list \<Rightarrow> (composition_error, string list) rust_result" where
  "normalize_roots roots = and_then (try_fold normalize_root_step ({}, []) roots) (\<lambda>st. Inr (snd st))"

definition root_is_within :: "string \<Rightarrow> string list \<Rightarrow> bool" where
  "root_is_within root ceiling_roots = list_ex (\<lambda>ceiling_root. is_within root ceiling_root) ceiling_roots"

definition ceiling_new :: "sandbox_policy \<Rightarrow> environment_spec \<Rightarrow> policy_ceiling" where
  "ceiling_new policy environment =
     \<lparr>ceil_policy = policy, ceil_environment = environment, ceil_workspace_roots = None, ceil_external_owner = None\<rparr>"

definition ceiling_with_workspace_roots ::
  "policy_ceiling \<Rightarrow> string list \<Rightarrow> (composition_error, policy_ceiling) rust_result" where
  "ceiling_with_workspace_roots c roots =
     and_then (normalize_roots roots) (\<lambda>rs. Inr (c\<lparr>ceil_workspace_roots := Some rs\<rparr>))"

definition without_workspace_root_limit :: "policy_ceiling \<Rightarrow> policy_ceiling" where
  "without_workspace_root_limit c = c\<lparr>ceil_workspace_roots := None\<rparr>"

definition ceiling_with_external_owner :: "policy_ceiling \<Rightarrow> external_owner \<Rightarrow> policy_ceiling" where
  "ceiling_with_external_owner c owner = c\<lparr>ceil_external_owner := Some owner\<rparr>"

definition composition_new :: "sandbox_policy \<Rightarrow> environment_spec \<Rightarrow> policy_ceiling \<Rightarrow> composition_request" where
  "composition_new policy environment ceiling =
     \<lparr>comp_policy = policy, comp_environment = environment, comp_workspace_roots = None,
      comp_ceiling = ceiling, comp_external_owner = None\<rparr>"

definition composition_with_workspace_roots ::
  "composition_request \<Rightarrow> string list \<Rightarrow> (composition_error, composition_request) rust_result" where
  "composition_with_workspace_roots r roots =
     and_then (normalize_roots roots) (\<lambda>rs. Inr (r\<lparr>comp_workspace_roots := Some rs\<rparr>))"

definition composition_with_external_owner :: "composition_request \<Rightarrow> external_owner \<Rightarrow> composition_request" where
  "composition_with_external_owner r owner = r\<lparr>comp_external_owner := Some owner\<rparr>"

section \<open>Composing (compose.rs)\<close>

definition fs_delegates :: "filesystem_mode \<Rightarrow> bool" where
  "fs_delegates m \<longleftrightarrow> m = FsExternal"

definition net_delegates :: "network_mode \<Rightarrow> bool" where
  "net_delegates m \<longleftrightarrow> m = NetExternal"

definition validate_ownership :: "bool \<Rightarrow> bool \<Rightarrow> composition_boundary \<Rightarrow> (composition_error, unit) rust_result" where
  "validate_ownership requested_delegates ceiling_delegates boundary =
     (if requested_delegates \<noteq> ceiling_delegates then Inl (EnforcementOwnershipConflict boundary) else Inr ())"

definition validate_external_owner ::
  "bool \<Rightarrow> external_owner option \<Rightarrow> external_owner option \<Rightarrow> composition_boundary \<Rightarrow> (composition_error, unit) rust_result" where
  "validate_external_owner external requested_owner ceiling_owner boundary =
     (if external \<and> (requested_owner \<noteq> ceiling_owner \<or> requested_owner = None)
      then Inl (ExternalOwnerMismatch boundary) else Inr ())"

definition normalize_optional_roots :: "string list option \<Rightarrow> (composition_error, string list option) rust_result" where
  "normalize_optional_roots roots =
     (case roots of None \<Rightarrow> Inr None | Some rs \<Rightarrow> and_then (normalize_roots rs) (\<lambda>ns. Inr (Some ns)))"

definition compose_workspace_roots ::
  "string list option \<Rightarrow> string list option \<Rightarrow> (composition_error, composed_workspace_roots) rust_result" where
  "compose_workspace_roots requested_roots ceiling_roots =
     and_then (normalize_optional_roots requested_roots)
       (\<lambda>requested. and_then (normalize_optional_roots ceiling_roots)
         (\<lambda>ceiling. case (requested, ceiling) of
            (Some req, Some ceil) \<Rightarrow>
              and_then (try_fold (\<lambda>_ root. if \<not> root_is_within root ceil
                                     then Inl (WorkspaceRootNotGranted root) else Inr ()) () req)
                (\<lambda>_. Inr \<lparr>cw_selected = Some req, cw_limit = Some ceil\<rparr>)
          | _ \<Rightarrow> Inr \<lparr>cw_selected = requested, cw_limit = ceiling\<rparr>))"

definition compose :: "context_identity \<Rightarrow> composition_request \<Rightarrow> (composition_error, effective_sandbox) rust_result" where
  "compose fresh request =
     and_then (map_err InvalidRequestedPolicy (sandbox_normalized (comp_policy request)))
     (\<lambda>requested.
     and_then (map_err InvalidCeiling (sandbox_normalized (ceil_policy (comp_ceiling request))))
     (\<lambda>ceiling.
     let rf = sb_filesystem requested; cf = sb_filesystem ceiling;
         rn = sb_network requested; cn = sb_network ceiling;
         owner = comp_external_owner request; ceiling_owner = ceil_external_owner (comp_ceiling request)
     in
     and_then (validate_ownership (fs_delegates (fs_mode rf)) (fs_delegates (fs_mode cf)) FilesystemBoundary) (\<lambda>_.
     and_then (validate_ownership (net_delegates (net_mode rn)) (net_delegates (net_mode cn)) NetworkBoundary) (\<lambda>_.
     and_then (validate_external_owner (fs_mode rf = FsExternal) owner ceiling_owner FilesystemBoundary) (\<lambda>_.
     and_then (validate_external_owner (net_mode rn = NetExternal) owner ceiling_owner NetworkBoundary) (\<lambda>_.
     if fs_mode rf \<noteq> FsExternal \<and> net_mode rn \<noteq> NetExternal \<and> (owner \<noteq> None \<or> ceiling_owner \<noteq> None)
     then Inl (UnexpectedExternalOwner FilesystemBoundary)
     else
     and_then (compose_workspace_roots (comp_workspace_roots request) (ceil_workspace_roots (comp_ceiling request)))
     (\<lambda>roots. Inr \<lparr>es_filesystem = \<lparr>ef_requested = rf, ef_ceiling = cf, ef_identity = fresh\<rparr>,
                    es_network = \<lparr>en_requested = rn, en_ceiling = cn\<rparr>,
                    es_environment = \<lparr>ee_requested = comp_environment request,
                                      ee_ceiling = ceil_environment (comp_ceiling request)\<rparr>,
                    es_workspace_roots = cw_selected roots,
                    es_workspace_root_limit = cw_limit roots\<rparr>)))))))"

fun combine_filesystem_decisions :: "filesystem_decision \<Rightarrow> filesystem_decision \<Rightarrow> filesystem_decision" where
  "combine_filesystem_decisions FsExternallyEnforced FsExternallyEnforced = FsExternallyEnforced"
| "combine_filesystem_decisions FsExternallyEnforced _ = FsDeny"
| "combine_filesystem_decisions _ FsExternallyEnforced = FsDeny"
| "combine_filesystem_decisions l r =
     (case (as_access_mode l, as_access_mode r) of
        (Some a, Some b) \<Rightarrow> decision_of_access (most_restrictive a b)
      | _ \<Rightarrow> FsDeny)"

fun combine_network_decisions :: "network_decision \<Rightarrow> network_decision \<Rightarrow> network_decision" where
  "combine_network_decisions NetExternallyEnforced NetExternallyEnforced = NetExternallyEnforced"
| "combine_network_decisions NetExternallyEnforced _ = NetDeny"
| "combine_network_decisions _ NetExternallyEnforced = NetDeny"
| "combine_network_decisions NetAllow NetAllow = NetAllow"
| "combine_network_decisions _ _ = NetDeny"

fun combine_connection_authorizations ::
  "connection_authorization \<Rightarrow> connection_authorization \<Rightarrow> connection_authorization" where
  "combine_connection_authorizations (Allowed a) (Allowed _) = Allowed a"
| "combine_connection_authorizations ExternallyEnforced ExternallyEnforced = ExternallyEnforced"
| "combine_connection_authorizations _ _ = Denied"

definition owns_context :: "effective_filesystem \<Rightarrow> effective_path_context \<Rightarrow> bool" where
  "owns_context f c \<longleftrightarrow> epc_identity c = ef_identity f"

definition effective_access_for_path ::
  "effective_filesystem \<Rightarrow> string \<Rightarrow> effective_path_context \<Rightarrow> (composition_error, filesystem_decision) rust_result" where
  "effective_access_for_path f path c =
     (if \<not> owns_context f c then Inl PathContextMismatch
      else and_then (map_err (PolicyEvaluation FilesystemBoundary) (fs_access_for_path (ef_requested f) path (epc_context c)))
        (\<lambda>requested. and_then (map_err (PolicyEvaluation FilesystemBoundary) (fs_access_for_path (ef_ceiling f) path (epc_context c)))
          (\<lambda>ceiling. Inr (combine_filesystem_decisions requested ceiling))))"

definition effective_access_step ::
  "effective_filesystem \<Rightarrow> effective_path_context \<Rightarrow> filesystem_decision option \<Rightarrow> string
     \<Rightarrow> (composition_error, filesystem_decision option) rust_result" where
  "effective_access_step f c result path =
     and_then (effective_access_for_path f path c)
       (\<lambda>decision. Inr (Some (case result of
           Some previous \<Rightarrow> combine_filesystem_decisions previous decision
         | None \<Rightarrow> decision)))"

definition effective_access_for ::
  "effective_filesystem \<Rightarrow> path_selector \<Rightarrow> effective_path_context \<Rightarrow> (composition_error, filesystem_decision) rust_result" where
  "effective_access_for f selector c =
     (if \<not> owns_context f c then Inl PathContextMismatch
      else if fs_mode (ef_requested f) = FsExternal \<and> fs_mode (ef_ceiling f) = FsExternal then Inr FsExternallyEnforced
      else and_then (try_fold (effective_access_step f c) None (selector_resolve selector (epc_context c)))
             (\<lambda>result. Inr (case result of None \<Rightarrow> FsDeny | Some d \<Rightarrow> d)))"

definition both_network ::
  "(network_policy \<Rightarrow> (policy_error, 'd) rust_result) \<Rightarrow> ('d \<Rightarrow> 'd \<Rightarrow> 'd) \<Rightarrow> effective_network \<Rightarrow> (composition_error, 'd) rust_result" where
  "both_network decide combine n =
     and_then (map_err (PolicyEvaluation NetworkBoundary) (decide (en_requested n)))
       (\<lambda>requested. and_then (map_err (PolicyEvaluation NetworkBoundary) (decide (en_ceiling n)))
         (\<lambda>ceiling. Inr (combine requested ceiling)))"

definition effective_decision_for_domain ::
  "unicode_data \<Rightarrow> effective_network \<Rightarrow> string \<Rightarrow> (composition_error, network_decision) rust_result" where
  "effective_decision_for_domain U n domain =
     both_network (\<lambda>p. decision_for_domain U p domain) combine_network_decisions n"

definition effective_decision_with_ips ::
  "unicode_data \<Rightarrow> effective_network \<Rightarrow> string \<Rightarrow> ip_addr list \<Rightarrow> (composition_error, network_decision) rust_result" where
  "effective_decision_with_ips U n domain ips =
     both_network (\<lambda>p. decision_for_domain_with_resolved_ips U p domain ips) combine_network_decisions n"

definition effective_authorize_connection ::
  "unicode_data \<Rightarrow> effective_network \<Rightarrow> resolved_target \<Rightarrow> socket_addr \<Rightarrow> (composition_error, connection_authorization) rust_result" where
  "effective_authorize_connection U n t connected =
     both_network (\<lambda>p. authorize_connection U p t connected) combine_connection_authorizations n"

definition effective_decision_for_unix_socket ::
  "effective_network \<Rightarrow> string \<Rightarrow> (composition_error, network_decision) rust_result" where
  "effective_decision_for_unix_socket n socket =
     both_network (\<lambda>p. decision_for_unix_socket p socket) combine_network_decisions n"

section \<open>The bound context (model.rs, context.rs)\<close>

definition extend_context ::
  "(path_context \<Rightarrow> string \<Rightarrow> (policy_error, path_context) rust_result) \<Rightarrow> string list \<Rightarrow> path_context
     \<Rightarrow> (composition_error, path_context) rust_result" where
  "extend_context step paths c = map_err InvalidPathContext (try_fold step c paths)"

definition effective_path_context_of ::
  "effective_sandbox \<Rightarrow> path_context \<Rightarrow> (composition_error, effective_path_context) rust_result" where
  "effective_path_context_of s base =
     (let requested = (case es_workspace_roots s of None \<Rightarrow> workspace_roots base | Some roots \<Rightarrow> roots);
          permitted = filter (\<lambda>path. case es_workspace_root_limit s of
                         None \<Rightarrow> True | Some limit \<Rightarrow> root_is_within path limit) requested
      in and_then (extend_context with_root (root_paths base) context_new) (\<lambda>c.
         and_then (extend_context with_workspace_root permitted c) (\<lambda>c.
         and_then (extend_context with_minimal_path (minimal_paths base) c) (\<lambda>c.
         and_then (extend_context with_executable_root (executable_roots base) c) (\<lambda>c.
         and_then (extend_context with_tmpdir (case tmpdir base of None \<Rightarrow> [] | Some p \<Rightarrow> [p]) c) (\<lambda>c.
         and_then (extend_context with_slash_tmp (case slash_tmp base of None \<Rightarrow> [] | Some p \<Rightarrow> [p]) c) (\<lambda>c.
         and_then (extend_context with_current_directory (case current_directory base of None \<Rightarrow> [] | Some p \<Rightarrow> [p]) c) (\<lambda>c.
         Inr \<lparr>epc_context = c, epc_identity = ef_identity (es_filesystem s)\<rparr>))))))))"

definition effective_resolve :: "effective_path_context \<Rightarrow> path_selector \<Rightarrow> string list" where
  "effective_resolve c selector = selector_resolve selector (epc_context c)"

definition glob_search_roots :: "effective_path_context \<Rightarrow> path_pattern \<Rightarrow> string list" where
  "glob_search_roots c pattern =
     (if pat_absolute pattern then [literal_prefix pattern]
      else map (\<lambda>root. path_join root (literal_prefix pattern)) (workspace_roots (epc_context c)))"

definition effective_pattern_matches :: "effective_path_context \<Rightarrow> path_pattern \<Rightarrow> string \<Rightarrow> bool" where
  "effective_pattern_matches c pattern path = pattern_matches pattern path (epc_context c)"

section \<open>Requirements (model.rs, filesystem.rs, environment.rs)\<close>

definition effective_network_mode :: "network_mode \<Rightarrow> network_mode \<Rightarrow> network_mode" where
  "effective_network_mode l r =
     (if l = NetExternal \<and> r = NetExternal then NetExternal
      else if l = NetDisabled \<or> r = NetDisabled then NetDisabled
      else if l = NetEnabled \<and> r = NetEnabled then NetEnabled
      else NetDisabled)"

definition denies_all_unix_sockets :: "network_policy \<Rightarrow> bool" where
  "denies_all_unix_sockets p \<longleftrightarrow>
     net_unix_socket_mode p = SocketsDisabled
     \<or> (net_unix_socket_mode p = SocketsRestricted
        \<and> \<not> list_ex (\<lambda>r. sock_access r = DomAllow) (net_unix_sockets p))"

definition network_requirements :: "effective_network \<Rightarrow> effective_network_requirements" where
  "network_requirements n =
     (let policies = [en_requested n, en_ceiling n];
          mode = effective_network_mode (net_mode (en_requested n)) (net_mode (en_ceiling n));
          enabled = (mode = NetEnabled);
          domain_rules = (enabled \<and> list_ex (\<lambda>p. net_domains p \<noteq> [] \<or> net_domain_mode p \<noteq> DomainEnabled) policies);
          local_address_restrictions = (enabled \<and> list_ex (\<lambda>p. net_local_access p = LocalDeny) policies);
          local_ipc_isolation = (enabled \<and> list_ex denies_all_unix_sockets policies);
          local_ipc_rules = (enabled \<and> \<not> local_ipc_isolation
            \<and> list_ex (\<lambda>p. net_unix_socket_mode p = SocketsRestricted) policies);
          local_ipc_deny_rules = (enabled \<and> \<not> local_ipc_isolation
            \<and> list_all (\<lambda>p. net_unix_socket_mode p = SocketsEnabled) policies
            \<and> list_ex (\<lambda>p. list_ex (\<lambda>r. sock_access r = DomDeny) (net_unix_sockets p)) policies);
          windows_named_pipe_rules =
            list_ex (\<lambda>p. list_ex (\<lambda>r. endpoint_named_pipe (ipc_endpoint r) \<noteq> None) (net_local_ipc p)) policies
      in \<lparr>nr_mode = mode, nr_domain_rules = domain_rules,
          nr_local_address_restrictions = local_address_restrictions,
          nr_resolved_targets = (domain_rules \<or> local_address_restrictions),
          nr_local_ipc_isolation = local_ipc_isolation, nr_local_ipc_rules = local_ipc_rules,
          nr_local_ipc_deny_rules = local_ipc_deny_rules,
          nr_windows_named_pipe_rules = windows_named_pipe_rules\<rparr>)"

definition effective_mode :: "filesystem_mode \<Rightarrow> filesystem_mode \<Rightarrow> filesystem_mode" where
  "effective_mode l r =
     (if l = FsExternal \<and> r = FsExternal then FsExternal
      else if l = FsRestricted \<or> r = FsRestricted then FsRestricted
      else if l = FsUnrestricted \<and> r = FsUnrestricted then FsUnrestricted
      else FsRestricted)"

definition add_selector_requirements ::
  "effective_filesystem_requirements \<Rightarrow> path_selector \<Rightarrow> effective_filesystem_requirements" where
  "add_selector_requirements req selector =
     (let req = req\<lparr>fsr_scopes := True\<rparr>
      in if is_absolute_scope selector then req\<lparr>fsr_absolute_scopes := True\<rparr>
         else if is_workspace_scope selector then req\<lparr>fsr_workspace_scopes := True\<rparr>
         else if is_root_scope selector then req\<lparr>fsr_root_scopes := True\<rparr>
         else if is_minimal_scope selector then req\<lparr>fsr_minimal_scopes := True\<rparr>
         else if is_tmpdir_scope selector then req\<lparr>fsr_tmpdir_scopes := True\<rparr>
         else if is_slash_tmp_scope selector then req\<lparr>fsr_conventional_temporary_scopes := True\<rparr>
         else req)"

definition add_rule_requirements ::
  "effective_filesystem_requirements \<Rightarrow> filesystem_rule \<Rightarrow> effective_filesystem_requirements" where
  "add_rule_requirements req rule =
     (let req = req\<lparr>fsr_missing_path_behavior := fsr_missing_path_behavior req \<or> \<not> is_glob (rule_target rule)\<rparr>;
          req = (case rule_target rule of
                   Scope selector \<Rightarrow> add_selector_requirements req selector
                 | Glob pattern \<Rightarrow>
                     (let req = req\<lparr>fsr_scopes := True, fsr_globs := True\<rparr>;
                          req = (if pat_absolute pattern then req\<lparr>fsr_absolute_scopes := True\<rparr>
                                 else req\<lparr>fsr_workspace_scopes := True\<rparr>)
                      in req\<lparr>fsr_glob_scan_depth := fsr_glob_scan_depth req \<or> rule_access rule = Deny\<rparr>));
          req = foldl add_selector_requirements req (rule_read_only_subpaths rule)
      in req\<lparr>fsr_read_only_subpaths := fsr_read_only_subpaths req \<or> rule_read_only_subpaths rule \<noteq> []\<rparr>)"

definition add_policy_requirements ::
  "effective_filesystem_requirements \<Rightarrow> filesystem_policy \<Rightarrow> effective_filesystem_requirements" where
  "add_policy_requirements req policy =
     foldl add_rule_requirements
       (req\<lparr>fsr_protected_paths := fsr_protected_paths req \<or> fs_protected policy \<noteq> []\<rparr>) (fs_entries policy)"

definition filesystem_requirements :: "effective_filesystem \<Rightarrow> effective_filesystem_requirements" where
  "filesystem_requirements f =
     foldl add_policy_requirements
       \<lparr>fsr_mode = effective_mode (fs_mode (ef_requested f)) (fs_mode (ef_ceiling f)),
        fsr_scopes = False, fsr_absolute_scopes = False, fsr_workspace_scopes = False,
        fsr_root_scopes = False, fsr_minimal_scopes = False, fsr_tmpdir_scopes = False,
        fsr_conventional_temporary_scopes = False, fsr_globs = False, fsr_glob_scan_depth = False,
        fsr_read_only_subpaths = False, fsr_missing_path_behavior = False, fsr_protected_paths = False\<rparr>
       [ef_requested f, ef_ceiling f]"

definition effective_glob_scan_depth :: "filesystem_policy \<Rightarrow> nat option option" where
  "effective_glob_scan_depth p =
     (if list_ex (\<lambda>r. is_glob (rule_target r) \<and> rule_access r = Deny) (fs_entries p)
      then Some (fs_glob_scan_max_depth p) else None)"

fun merge_glob_scan_depth :: "nat option option \<Rightarrow> nat option option \<Rightarrow> nat option" where
  "merge_glob_scan_depth (Some None) _ = None"
| "merge_glob_scan_depth _ (Some None) = None"
| "merge_glob_scan_depth (Some (Some l)) (Some (Some r)) = Some (max l r)"
| "merge_glob_scan_depth (Some (Some d)) None = Some d"
| "merge_glob_scan_depth None (Some (Some d)) = Some d"
| "merge_glob_scan_depth None None = None"

definition effective_glob_scan_max_depth :: "effective_filesystem \<Rightarrow> nat option" where
  "effective_glob_scan_max_depth f =
     merge_glob_scan_depth (effective_glob_scan_depth (ef_requested f)) (effective_glob_scan_depth (ef_ceiling f))"

definition least_permissive_base :: "environment_base \<Rightarrow> environment_base \<Rightarrow> environment_base" where
  "least_permissive_base l r =
     (if l = EnvNone \<or> r = EnvNone then EnvNone
      else if l = EnvCore \<or> r = EnvCore then EnvCore
      else EnvAll)"

definition effective_base :: "effective_environment \<Rightarrow> environment_base" where
  "effective_base e = least_permissive_base (env_base (ee_requested e)) (env_base (ee_ceiling e))"

definition environment_requirements :: "effective_environment \<Rightarrow> effective_environment_requirements" where
  "environment_requirements e =
     \<lparr>er_base = effective_base e,
      er_filters = (env_filters (ee_requested e) \<noteq> [] \<or> env_filters (ee_ceiling e) \<noteq> []),
      er_overrides = (env_overrides (ee_requested e) \<noteq> [] \<or> env_overrides (ee_ceiling e) \<noteq> [])\<rparr>"

definition requested_matches :: "effective_environment \<Rightarrow> environment_spec \<Rightarrow> bool" where
  "requested_matches e environment = environment_spec_eq (ee_requested e) environment"

fun environment_application_error :: "command_error \<Rightarrow> composition_error" where
  "environment_application_error (EnvironmentBaseTooPermissive required supplied) = ComposedBaseTooPermissive required supplied"
| "environment_application_error other = EnvironmentApplication other"

definition effective_apply_to ::
  "unicode_data \<Rightarrow> effective_environment \<Rightarrow> environment_input \<Rightarrow> (composition_error, (string \<times> string) list) rust_result" where
  "effective_apply_to U e input =
     (if \<not> base_is_at_most (input_base input) (effective_base e)
      then Inl (ComposedBaseTooPermissive (effective_base e) (input_base input))
      else and_then (map_err environment_application_error (apply_to U (ee_requested e) input))
        (\<lambda>requested. and_then (map_err environment_application_error (apply_to U (ee_ceiling e) requested))
          (\<lambda>ceiling. Inr (filter (\<lambda>(name, _). environment_name_identity U name
                              \<in> environment_name_identity U ` set (map fst (input_variables requested)))
                            (input_variables ceiling)))))"

section \<open>Lowering views (lowering.rs)\<close>

record filesystem_lowering =
  fl_layers :: "filesystem_policy list"
  fl_glob_scan_max_depth :: "nat option"

definition effective_filesystem_lowering :: "effective_filesystem \<Rightarrow> filesystem_lowering" where
  "effective_filesystem_lowering f =
     \<lparr>fl_layers = [ef_requested f, ef_ceiling f], fl_glob_scan_max_depth = effective_glob_scan_max_depth f\<rparr>"

definition effective_network_lowering :: "effective_network \<Rightarrow> network_policy list" where
  "effective_network_lowering n = [en_requested n, en_ceiling n]"

section \<open>Decisions narrow\<close>

interpretation effective_fs: narrowing combine_filesystem_decisions
proof
  show "combine_filesystem_decisions (combine_filesystem_decisions a b) c =
      combine_filesystem_decisions a (combine_filesystem_decisions b c)" for a b c
    by (cases a; cases b; cases c) simp_all
  show "combine_filesystem_decisions a b = combine_filesystem_decisions b a" for a b
    by (cases a; cases b) simp_all
  show "combine_filesystem_decisions a a = a" for a by (cases a) simp_all
qed

interpretation effective_net: narrowing combine_network_decisions
proof
  show "combine_network_decisions (combine_network_decisions a b) c =
      combine_network_decisions a (combine_network_decisions b c)" for a b c
    by (cases a; cases b; cases c) simp_all
  show "combine_network_decisions a b = combine_network_decisions b a" for a b
    by (cases a; cases b) simp_all
  show "combine_network_decisions a a = a" for a by (cases a) simp_all
qed

lemma below_filesystem [simp]:
  "effective_fs.below FsWrite d \<longleftrightarrow> d = FsWrite"
  "effective_fs.below FsRead d \<longleftrightarrow> d = FsRead \<or> d = FsWrite"
  "effective_fs.below FsExternallyEnforced d \<longleftrightarrow> d = FsExternallyEnforced"
  by (cases d; simp add: effective_fs.below_def)+

lemma combine_filesystem_deny: "a = FsDeny \<or> b = FsDeny \<Longrightarrow> combine_filesystem_decisions a b = FsDeny"
  by (cases a; cases b) auto

lemma combine_network_iff [simp]:
  "combine_network_decisions a b = NetAllow \<longleftrightarrow> a = NetAllow \<and> b = NetAllow"
  "combine_network_decisions a b = NetExternallyEnforced \<longleftrightarrow> a = NetExternallyEnforced \<and> b = NetExternallyEnforced"
  by (cases a; cases b; simp)+

lemma combine_authorizations_Allowed:
  "combine_connection_authorizations x y = Allowed a \<longleftrightarrow> x = Allowed a \<and> (\<exists>b. y = Allowed b)"
  by (cases x; cases y) auto

section \<open>What composition returns\<close>

lemma sandbox_normalized_Inr:
  "sandbox_normalized p = Inr q \<longleftrightarrow>
     fs_normalized (sb_filesystem p) = Inr (sb_filesystem q) \<and> net_normalized (sb_network p) = Inr (sb_network q)"
  by (cases q) (auto simp: sandbox_normalized_def sandbox_new_def and_then_eq_Inr)

lemma fs_normalized_mode: "fs_normalized p = Inr q \<Longrightarrow> fs_mode q = fs_mode p"
  by (auto simp: fs_normalized_Inr)

lemma net_normalized_mode: "net_normalized p = Inr q \<Longrightarrow> net_mode q = net_mode p"
  by (auto simp: net_normalized_Inr)

lemma validate_ownership_Inr [result_simps]: "validate_ownership a b boundary = Inr u \<longleftrightarrow> a = b"
  by (simp add: validate_ownership_def)

lemma validate_external_owner_Inr [result_simps]:
  "validate_external_owner ext a b boundary = Inr u \<longleftrightarrow> (ext \<longrightarrow> a = b \<and> a \<noteq> None)"
  by (auto simp: validate_external_owner_def)

lemma compose_Inr:
  "compose fresh r = Inr s \<longleftrightarrow>
     (\<exists>rf cf rn cn roots.
        fs_normalized (sb_filesystem (comp_policy r)) = Inr rf \<and> net_normalized (sb_network (comp_policy r)) = Inr rn \<and>
        fs_normalized (sb_filesystem (ceil_policy (comp_ceiling r))) = Inr cf \<and>
        net_normalized (sb_network (ceil_policy (comp_ceiling r))) = Inr cn \<and>
        (fs_mode rf = FsExternal \<longleftrightarrow> fs_mode cf = FsExternal) \<and> (net_mode rn = NetExternal \<longleftrightarrow> net_mode cn = NetExternal) \<and>
        comp_external_owner r = ceil_external_owner (comp_ceiling r) \<and>
        (comp_external_owner r \<noteq> None \<longleftrightarrow> fs_mode rf = FsExternal \<or> net_mode rn = NetExternal) \<and>
        compose_workspace_roots (comp_workspace_roots r) (ceil_workspace_roots (comp_ceiling r)) = Inr roots \<and>
        s = \<lparr>es_filesystem = \<lparr>ef_requested = rf, ef_ceiling = cf, ef_identity = fresh\<rparr>,
             es_network = \<lparr>en_requested = rn, en_ceiling = cn\<rparr>,
             es_environment = \<lparr>ee_requested = comp_environment r, ee_ceiling = ceil_environment (comp_ceiling r)\<rparr>,
             es_workspace_roots = cw_selected roots, es_workspace_root_limit = cw_limit roots\<rparr>)"
  (is "_ \<longleftrightarrow> ?rhs")
proof
  assume "compose fresh r = Inr s"
  then obtain q k roots where *: "sandbox_normalized (comp_policy r) = Inr q"
    "sandbox_normalized (ceil_policy (comp_ceiling r)) = Inr k"
    "compose_workspace_roots (comp_workspace_roots r) (ceil_workspace_roots (comp_ceiling r)) = Inr roots"
    "fs_delegates (fs_mode (sb_filesystem q)) = fs_delegates (fs_mode (sb_filesystem k))"
    "net_delegates (net_mode (sb_network q)) = net_delegates (net_mode (sb_network k))"
    "fs_mode (sb_filesystem q) = FsExternal \<longrightarrow>
       comp_external_owner r = ceil_external_owner (comp_ceiling r) \<and> comp_external_owner r \<noteq> None"
    "net_mode (sb_network q) = NetExternal \<longrightarrow>
       comp_external_owner r = ceil_external_owner (comp_ceiling r) \<and> comp_external_owner r \<noteq> None"
    "\<not> (fs_mode (sb_filesystem q) \<noteq> FsExternal \<and> net_mode (sb_network q) \<noteq> NetExternal \<and>
        (comp_external_owner r \<noteq> None \<or> ceil_external_owner (comp_ceiling r) \<noteq> None))"
    "\<lparr>es_filesystem = \<lparr>ef_requested = sb_filesystem q, ef_ceiling = sb_filesystem k, ef_identity = fresh\<rparr>,
             es_network = \<lparr>en_requested = sb_network q, en_ceiling = sb_network k\<rparr>,
             es_environment = \<lparr>ee_requested = comp_environment r, ee_ceiling = ceil_environment (comp_ceiling r)\<rparr>,
             es_workspace_roots = cw_selected roots, es_workspace_root_limit = cw_limit roots\<rparr> = s"
    unfolding compose_def Let_def result_simps guard_eq_Inr by (elim exE conjE) (rule that; (assumption | simp))
  show ?rhs
    by (rule exI [of _ "sb_filesystem q"], rule exI [of _ "sb_filesystem k"], rule exI [of _ "sb_network q"],
        rule exI [of _ "sb_network k"], rule exI [of _ roots])
      (use * in \<open>auto simp: sandbox_normalized_Inr fs_delegates_def net_delegates_def\<close>)
next
  assume ?rhs
  then obtain rf cf rn cn roots where *:
    "fs_normalized (sb_filesystem (comp_policy r)) = Inr rf" "net_normalized (sb_network (comp_policy r)) = Inr rn"
    "fs_normalized (sb_filesystem (ceil_policy (comp_ceiling r))) = Inr cf"
    "net_normalized (sb_network (ceil_policy (comp_ceiling r))) = Inr cn"
    and rest: "fs_mode rf = FsExternal \<longleftrightarrow> fs_mode cf = FsExternal" "net_mode rn = NetExternal \<longleftrightarrow> net_mode cn = NetExternal"
      "comp_external_owner r = ceil_external_owner (comp_ceiling r)"
      "comp_external_owner r \<noteq> None \<longleftrightarrow> fs_mode rf = FsExternal \<or> net_mode rn = NetExternal"
      "compose_workspace_roots (comp_workspace_roots r) (ceil_workspace_roots (comp_ceiling r)) = Inr roots"
    and s: "s = \<lparr>es_filesystem = \<lparr>ef_requested = rf, ef_ceiling = cf, ef_identity = fresh\<rparr>,
             es_network = \<lparr>en_requested = rn, en_ceiling = cn\<rparr>,
             es_environment = \<lparr>ee_requested = comp_environment r, ee_ceiling = ceil_environment (comp_ceiling r)\<rparr>,
             es_workspace_roots = cw_selected roots, es_workspace_root_limit = cw_limit roots\<rparr>"
    by blast
  have n: "sandbox_normalized (comp_policy r) = Inr (sandbox_new rf rn)"
    "sandbox_normalized (ceil_policy (comp_ceiling r)) = Inr (sandbox_new cf cn)"
    using * by (simp_all add: sandbox_normalized_def)
  have f: "sb_filesystem (sandbox_new a b) = a" "sb_network (sandbox_new a b) = b" for a b
    by (simp_all add: sandbox_new_def)
  show "compose fresh r = Inr s"
    using rest by (auto simp: compose_def n f s validate_ownership_def validate_external_owner_def
        fs_delegates_def net_delegates_def)
qed

lemma compose_fields:
  assumes "compose fresh r = Inr s"
  shows "fs_normalized (sb_filesystem (comp_policy r)) = Inr (ef_requested (es_filesystem s))"
    and "fs_normalized (sb_filesystem (ceil_policy (comp_ceiling r))) = Inr (ef_ceiling (es_filesystem s))"
    and "net_normalized (sb_network (comp_policy r)) = Inr (en_requested (es_network s))"
    and "net_normalized (sb_network (ceil_policy (comp_ceiling r))) = Inr (en_ceiling (es_network s))"
    and "ef_identity (es_filesystem s) = fresh"
    and "compose_workspace_roots (comp_workspace_roots r) (ceil_workspace_roots (comp_ceiling r)) =
      Inr \<lparr>cw_selected = es_workspace_roots s, cw_limit = es_workspace_root_limit s\<rparr>"
  using assms unfolding compose_Inr by (elim exE conjE; simp)+

section \<open>Workspace roots\<close>

lemma normalize_roots_Inr:
  assumes "normalize_roots roots = Inr ns"
  shows "set ns \<subseteq> set roots" and "\<forall>root \<in> set roots. validate_root root = Inr ()"
    and "\<forall>root \<in> set roots. \<exists>n \<in> set ns. paths_equal root n"
proof -
  define P :: "string list \<Rightarrow> native_component_key list set \<times> string list \<Rightarrow> bool" where
    "P done st \<longleftrightarrow> fst st = native_path_key ` set (snd st) \<and> set (snd st) \<subseteq> set done \<and>
       (\<forall>root \<in> set done. validate_root root = Inr () \<and> native_path_key root \<in> fst st)" for "done" st
  have step: "P (done @ [root]) st'" if "P done st" and "normalize_root_step st root = Inr st'" for "done" st root st'
    using that by (cases st) (auto simp: P_def normalize_root_step_def push_unique_def and_then_eq_Inr split: if_splits)
  from assms obtain ks where "try_fold normalize_root_step ({}, []) roots = Inr (ks, ns)"
    by (auto simp: normalize_roots_def and_then_eq_Inr)
  then have P: "P roots (ks, ns)" by (rule try_fold_seen [where P = P]) (simp add: P_def, rule step)
  then show "set ns \<subseteq> set roots" and "\<forall>root \<in> set roots. validate_root root = Inr ()" by (auto simp: P_def)
  show "\<forall>root \<in> set roots. \<exists>n \<in> set ns. paths_equal root n"
  proof
    fix root
    assume "root \<in> set roots"
    with P have "native_path_key root \<in> native_path_key ` set ns" by (auto simp: P_def)
    then show "\<exists>n \<in> set ns. paths_equal root n" by (auto simp: native_path_key_eq_iff paths_equal_lexc)
  qed
qed

lemma granted_roots:
  "try_fold (\<lambda>_ root. if \<not> root_is_within root ceil then Inl (WorkspaceRootNotGranted root) else Inr ()) () req = Inr u
     \<longleftrightarrow> (\<forall>root \<in> set req. root_is_within root ceil)"
  by (induction req) auto

lemma compose_workspace_roots_Inr:
  "compose_workspace_roots requested ceiling = Inr w \<longleftrightarrow>
     normalize_optional_roots requested = Inr (cw_selected w) \<and> normalize_optional_roots ceiling = Inr (cw_limit w) \<and>
     (case (cw_selected w, cw_limit w) of
        (Some req, Some ceil) \<Rightarrow> \<forall>root \<in> set req. root_is_within root ceil | _ \<Rightarrow> True)"
proof (cases "normalize_optional_roots requested"; cases "normalize_optional_roots ceiling")
  fix req ceil
  assume "normalize_optional_roots requested = Inr req" "normalize_optional_roots ceiling = Inr ceil"
  then show ?thesis
    by (cases req; cases ceil; cases w) (auto simp: compose_workspace_roots_def and_then_eq_Inr granted_roots)
qed (simp_all add: compose_workspace_roots_def)

lemma optional_roots_subset:
  "normalize_optional_roots roots = Inr ns \<Longrightarrow>
     (roots = None \<longleftrightarrow> ns = None) \<and> (\<forall>rs n. roots = Some rs \<longrightarrow> ns = Some n \<longrightarrow> set n \<subseteq> set rs)"
  by (auto simp: normalize_optional_roots_def and_then_eq_Inr dest: normalize_roots_Inr(1) split: option.splits)

lemma validate_root_ok: "validate_root root = Inr () \<longleftrightarrow> valid_absolute root"
proof -
  have "\<not> is_absolute []" by code_simp
  then show ?thesis by (auto simp: validate_root_def valid_absolute_def contains_nul_lossy)
qed

lemma normalize_roots_ok: "is_ok (normalize_roots roots) \<longleftrightarrow> list_all valid_absolute roots"
proof
  assume "is_ok (normalize_roots roots)"
  then show "list_all valid_absolute roots"
    using normalize_roots_Inr(2) by (auto simp: is_ok_iff list_all_iff validate_root_ok)
next
  have "\<exists>st'. try_fold normalize_root_step st roots = Inr st'" if "list_all valid_absolute roots" for st
    using that by (induction roots arbitrary: st) (auto simp: normalize_root_step_def validate_root_ok [THEN iffD2])
  moreover assume "list_all valid_absolute roots"
  ultimately obtain st where "try_fold normalize_root_step ({}, []) roots = Inr st" by blast
  then show "is_ok (normalize_roots roots)" by (simp add: normalize_roots_def is_ok_iff)
qed

lemma granted_normalized:
  assumes "normalize_roots requested = Inr req" and "normalize_roots ceiling = Inr ceil"
  shows "(\<forall>root \<in> set req. root_is_within root ceil) \<longleftrightarrow> list_all (\<lambda>root. list_ex (is_within root) ceiling) requested"
proof -
  note req = normalize_roots_Inr [OF assms(1)] and ceil = normalize_roots_Inr [OF assms(2)]
  have "list_ex (is_within root) ceiling" if "root \<in> set requested" "\<forall>root \<in> set req. root_is_within root ceil" for root
  proof -
    from that(1) req(3) obtain n where n: "n \<in> set req" "paths_equal root n" by blast
    with that(2) obtain k where "k \<in> set ceil" "is_within n k" by (auto simp: root_is_within_def list_ex_iff)
    with n(2) ceil(1) show ?thesis using is_within_cong [of root n k k] by (auto simp: list_ex_iff paths_equal_lexc)
  qed
  moreover have "root_is_within root ceil" if "root \<in> set req" "list_all (\<lambda>root. list_ex (is_within root) ceiling) requested" for root
  proof -
    from that req(1) obtain k where "k \<in> set ceiling" "is_within root k" by (auto simp: list_all_iff list_ex_iff)
    moreover from this ceil(3) obtain n where "n \<in> set ceil" "paths_equal k n" by blast
    ultimately show ?thesis using is_within_cong [of root root k n] by (auto simp: root_is_within_def list_ex_iff paths_equal_lexc)
  qed
  ultimately show ?thesis by (auto simp: list_all_iff)
qed

lemma compose_workspace_roots_ok:
  "is_ok (compose_workspace_roots requested ceiling) \<longleftrightarrow>
     pred_option (list_all valid_absolute) requested \<and> pred_option (list_all valid_absolute) ceiling \<and>
     (case (requested, ceiling) of (Some roots, Some limit) \<Rightarrow> list_all (\<lambda>root. list_ex (is_within root) limit) roots | _ \<Rightarrow> True)"
proof -
  have ok: "is_ok (normalize_optional_roots roots) \<longleftrightarrow> pred_option (list_all valid_absolute) roots" for roots
    by (cases roots) (auto simp: normalize_optional_roots_def is_ok_iff and_then_eq_Inr simp flip: normalize_roots_ok)
  have pair: "(\<exists>w. P (cw_selected w) (cw_limit w)) \<longleftrightarrow> (\<exists>a b. P a b)" for P
    by (metis composed_workspace_roots.select_convs(1,2))
  have "is_ok (compose_workspace_roots requested ceiling) \<longleftrightarrow>
    (\<exists>req ceil. normalize_optional_roots requested = Inr req \<and> normalize_optional_roots ceiling = Inr ceil \<and>
      (case (req, ceil) of (Some req, Some ceil) \<Rightarrow> \<forall>root \<in> set req. root_is_within root ceil | _ \<Rightarrow> True))"
    unfolding is_ok_iff compose_workspace_roots_Inr by (rule pair)
  also have "\<dots> \<longleftrightarrow> is_ok (normalize_optional_roots requested) \<and> is_ok (normalize_optional_roots ceiling) \<and>
     (case (requested, ceiling) of (Some roots, Some limit) \<Rightarrow> list_all (\<lambda>root. list_ex (is_within root) limit) roots | _ \<Rightarrow> True)"
    by (cases requested; cases ceiling)
      (auto simp: is_ok_iff normalize_optional_roots_def and_then_eq_Inr granted_normalized)
  finally show ?thesis unfolding ok .
qed

lemma root_is_within_mono: "root_is_within root a \<Longrightarrow> set a \<subseteq> set b \<Longrightarrow> root_is_within root b"
  by (auto simp: root_is_within_def list_ex_iff)

lemma extend_context_field:
  assumes "extend_context step paths c = Inr c'"
    and "\<And>c p c'. step c p = Inr c' \<Longrightarrow> workspace_roots c' = workspace_roots c"
  shows "workspace_roots c' = workspace_roots c"
  using assms(1) unfolding extend_context_def map_err_eq_Inr
  by (rule try_fold_invariant) (auto simp: assms(2))

lemma extend_workspace_roots:
  assumes "extend_context with_workspace_root paths c = Inr c'"
  shows "set (workspace_roots c') \<subseteq> set (workspace_roots c) \<union> set paths"
  using assms unfolding extend_context_def map_err_eq_Inr
proof (rule try_fold_invariant)
  show "set (workspace_roots s') \<subseteq> set (workspace_roots c) \<union> set paths"
    if "x \<in> set paths" "set (workspace_roots s) \<subseteq> set (workspace_roots c) \<union> set paths" "with_workspace_root s x = Inr s'"
    for s x s'
    using that by (auto simp: with_workspace_root_def push_unique_def result_simps split: if_splits)
qed simp

lemma effective_context_roots:
  assumes "effective_path_context_of s base = Inr c"
  shows "epc_identity c = ef_identity (es_filesystem s)"
    and "set (workspace_roots (epc_context c)) \<subseteq>
      {path \<in> set (case es_workspace_roots s of None \<Rightarrow> workspace_roots base | Some roots \<Rightarrow> roots).
         case es_workspace_root_limit s of None \<Rightarrow> True | Some limit \<Rightarrow> root_is_within path limit}"
proof -
  let ?permitted = "filter (\<lambda>path. case es_workspace_root_limit s of
      None \<Rightarrow> True | Some limit \<Rightarrow> root_is_within path limit)
      (case es_workspace_roots s of None \<Rightarrow> workspace_roots base | Some roots \<Rightarrow> roots)"
  from assms obtain c1 c2 c3 c4 c5 c6 c7 where steps:
    "extend_context with_root (root_paths base) context_new = Inr c1" "extend_context with_workspace_root ?permitted c1 = Inr c2"
    "extend_context with_minimal_path (minimal_paths base) c2 = Inr c3"
    "extend_context with_executable_root (executable_roots base) c3 = Inr c4"
    "extend_context with_tmpdir (case tmpdir base of None \<Rightarrow> [] | Some p \<Rightarrow> [p]) c4 = Inr c5"
    "extend_context with_slash_tmp (case slash_tmp base of None \<Rightarrow> [] | Some p \<Rightarrow> [p]) c5 = Inr c6"
    "extend_context with_current_directory (case current_directory base of None \<Rightarrow> [] | Some p \<Rightarrow> [p]) c6 = Inr c7"
    and c: "c = \<lparr>epc_context = c7, epc_identity = ef_identity (es_filesystem s)\<rparr>"
    unfolding effective_path_context_of_def Let_def and_then_eq_Inr sum.inject by (elim exE conjE) (rule that; (assumption | erule sym))
  show "epc_identity c = ef_identity (es_filesystem s)" by (simp add: c)
  have "workspace_roots c1 = workspace_roots context_new" "workspace_roots c3 = workspace_roots c2"
    "workspace_roots c4 = workspace_roots c3" "workspace_roots c5 = workspace_roots c4"
    "workspace_roots c6 = workspace_roots c5" "workspace_roots c7 = workspace_roots c6"
    by (rule steps(1,3-) [THEN extend_context_field]; auto simp: context_builder_defs result_simps split: prod.splits)+
  then have "workspace_roots c7 = workspace_roots c2" and "workspace_roots c1 = []" by (simp_all add: context_new_def)
  then show "set (workspace_roots (epc_context c)) \<subseteq>
      {path \<in> set (case es_workspace_roots s of None \<Rightarrow> workspace_roots base | Some roots \<Rightarrow> roots).
         case es_workspace_root_limit s of None \<Rightarrow> True | Some limit \<Rightarrow> root_is_within path limit}"
    using extend_workspace_roots [OF steps(2)] by (auto simp: c)
qed

section \<open>Requirements of a composition\<close>

lemma add_selector_flags [simp]:
  "fsr_globs (add_selector_requirements r s) = fsr_globs r"
  "fsr_glob_scan_depth (add_selector_requirements r s) = fsr_glob_scan_depth r"
  "fsr_read_only_subpaths (add_selector_requirements r s) = fsr_read_only_subpaths r"
  "fsr_missing_path_behavior (add_selector_requirements r s) = fsr_missing_path_behavior r"
  "fsr_protected_paths (add_selector_requirements r s) = fsr_protected_paths r"
  "fsr_mode (add_selector_requirements r s) = fsr_mode r"
  by (simp_all add: add_selector_requirements_def Let_def)

lemmas foldl_selector_flags [simp] =
  foldl_keeps [where field = fsr_globs and step = add_selector_requirements, OF add_selector_flags(1)]
  foldl_keeps [where field = fsr_glob_scan_depth and step = add_selector_requirements, OF add_selector_flags(2)]
  foldl_keeps [where field = fsr_read_only_subpaths and step = add_selector_requirements, OF add_selector_flags(3)]
  foldl_keeps [where field = fsr_missing_path_behavior and step = add_selector_requirements, OF add_selector_flags(4)]
  foldl_keeps [where field = fsr_protected_paths and step = add_selector_requirements, OF add_selector_flags(5)]
  foldl_keeps [where field = fsr_mode and step = add_selector_requirements, OF add_selector_flags(6)]

definition deny_glob :: "filesystem_rule \<Rightarrow> bool" where
  "deny_glob r \<longleftrightarrow> is_glob (rule_target r) \<and> rule_access r = Deny"

lemma add_rule_flags:
  "fsr_globs (add_rule_requirements q r) \<longleftrightarrow> fsr_globs q \<or> is_glob (rule_target r)"
  "fsr_glob_scan_depth (add_rule_requirements q r) \<longleftrightarrow> fsr_glob_scan_depth q \<or> deny_glob r"
  "fsr_read_only_subpaths (add_rule_requirements q r) \<longleftrightarrow> fsr_read_only_subpaths q \<or> rule_read_only_subpaths r \<noteq> []"
  "fsr_missing_path_behavior (add_rule_requirements q r) \<longleftrightarrow> fsr_missing_path_behavior q \<or> \<not> is_glob (rule_target r)"
  "fsr_protected_paths (add_rule_requirements q r) = fsr_protected_paths q"
  "fsr_mode (add_rule_requirements q r) = fsr_mode q"
  by (simp_all add: add_rule_requirements_def Let_def is_glob_def deny_glob_def split: filesystem_target.splits)

lemma add_selector_scopes:
  "fsr_scopes (add_selector_requirements q s)"
  "fsr_absolute_scopes (add_selector_requirements q s) \<longleftrightarrow> fsr_absolute_scopes q \<or> is_absolute_scope s"
  "fsr_root_scopes (add_selector_requirements q s) \<longleftrightarrow> fsr_root_scopes q \<or> is_root_scope s"
  "fsr_minimal_scopes (add_selector_requirements q s) \<longleftrightarrow> fsr_minimal_scopes q \<or> is_minimal_scope s"
  "fsr_tmpdir_scopes (add_selector_requirements q s) \<longleftrightarrow> fsr_tmpdir_scopes q \<or> is_tmpdir_scope s"
  "fsr_workspace_scopes (add_selector_requirements q s) \<longleftrightarrow> fsr_workspace_scopes q \<or> is_workspace_scope s"
  "fsr_conventional_temporary_scopes (add_selector_requirements q s) \<longleftrightarrow> fsr_conventional_temporary_scopes q \<or> is_slash_tmp_scope s"
  by (cases s; simp add: add_selector_requirements_def Let_def is_absolute_scope_def is_root_scope_def
      is_minimal_scope_def is_tmpdir_scope_def is_workspace_scope_def is_slash_tmp_scope_def)+

lemma add_policy_flags:
  "fsr_globs (add_policy_requirements q p) \<longleftrightarrow> fsr_globs q \<or> list_ex (\<lambda>r. is_glob (rule_target r)) (fs_entries p)"
  "fsr_glob_scan_depth (add_policy_requirements q p) \<longleftrightarrow> fsr_glob_scan_depth q \<or> list_ex deny_glob (fs_entries p)"
  "fsr_read_only_subpaths (add_policy_requirements q p) \<longleftrightarrow>
     fsr_read_only_subpaths q \<or> list_ex (\<lambda>r. rule_read_only_subpaths r \<noteq> []) (fs_entries p)"
  "fsr_missing_path_behavior (add_policy_requirements q p) \<longleftrightarrow>
     fsr_missing_path_behavior q \<or> list_ex (\<lambda>r. \<not> is_glob (rule_target r)) (fs_entries p)"
  "fsr_protected_paths (add_policy_requirements q p) \<longleftrightarrow> fsr_protected_paths q \<or> fs_protected p \<noteq> []"
  "fsr_mode (add_policy_requirements q p) = fsr_mode q"
  unfolding add_policy_requirements_def
  by (simp_all add: foldl_flag [where step = add_rule_requirements, OF add_rule_flags(1)]
      foldl_flag [where step = add_rule_requirements, OF add_rule_flags(2)]
      foldl_flag [where step = add_rule_requirements, OF add_rule_flags(3)]
      foldl_flag [where step = add_rule_requirements, OF add_rule_flags(4)]
      foldl_keeps [where step = add_rule_requirements, OF add_rule_flags(5)]
      foldl_keeps [where step = add_rule_requirements, OF add_rule_flags(6)])

text \<open>The selectors a rule mentions, as its target or as a read-only subpath.\<close>

definition rule_selectors :: "filesystem_rule \<Rightarrow> path_selector list" where
  "rule_selectors r = (case rule_target r of Scope s \<Rightarrow> [s] | Glob _ \<Rightarrow> []) @ rule_read_only_subpaths r"

definition rule_glob :: "(path_pattern \<Rightarrow> bool) \<Rightarrow> filesystem_rule \<Rightarrow> bool" where
  "rule_glob P r = (case rule_target r of Scope _ \<Rightarrow> False | Glob pattern \<Rightarrow> P pattern)"

lemmas foldl_selector_scopes =
  foldl_flag [where step = add_selector_requirements, OF add_selector_scopes(2)]
  foldl_flag [where step = add_selector_requirements, OF add_selector_scopes(3)]
  foldl_flag [where step = add_selector_requirements, OF add_selector_scopes(4)]
  foldl_flag [where step = add_selector_requirements, OF add_selector_scopes(5)]
  foldl_flag [where step = add_selector_requirements, OF add_selector_scopes(6)]
  foldl_flag [where step = add_selector_requirements, OF add_selector_scopes(7)]

lemma add_rule_scopes:
  "fsr_absolute_scopes (add_rule_requirements q r) \<longleftrightarrow>
     fsr_absolute_scopes q \<or> list_ex is_absolute_scope (rule_selectors r) \<or> rule_glob pat_absolute r"
  "fsr_workspace_scopes (add_rule_requirements q r) \<longleftrightarrow>
     fsr_workspace_scopes q \<or> list_ex is_workspace_scope (rule_selectors r) \<or> rule_glob (\<lambda>p. \<not> pat_absolute p) r"
  "fsr_root_scopes (add_rule_requirements q r) \<longleftrightarrow> fsr_root_scopes q \<or> list_ex is_root_scope (rule_selectors r)"
  "fsr_minimal_scopes (add_rule_requirements q r) \<longleftrightarrow> fsr_minimal_scopes q \<or> list_ex is_minimal_scope (rule_selectors r)"
  "fsr_tmpdir_scopes (add_rule_requirements q r) \<longleftrightarrow> fsr_tmpdir_scopes q \<or> list_ex is_tmpdir_scope (rule_selectors r)"
  "fsr_conventional_temporary_scopes (add_rule_requirements q r) \<longleftrightarrow>
     fsr_conventional_temporary_scopes q \<or> list_ex is_slash_tmp_scope (rule_selectors r)"
  by (auto simp: add_rule_requirements_def Let_def rule_selectors_def rule_glob_def foldl_selector_scopes add_selector_scopes
      split: filesystem_target.splits)

lemma foldl_selector_any: "fsr_scopes q \<Longrightarrow> fsr_scopes (foldl add_selector_requirements q ss)"
  by (induction ss arbitrary: q) (auto simp: add_selector_scopes(1))

lemma add_rule_any: "fsr_scopes (add_rule_requirements q r)"
  by (auto simp: add_rule_requirements_def Let_def foldl_selector_any add_selector_scopes(1) split: filesystem_target.splits)

lemma add_policy_scopes:
  "fsr_scopes (add_policy_requirements q p) \<longleftrightarrow> fsr_scopes q \<or> fs_entries p \<noteq> []"
  "fsr_absolute_scopes (add_policy_requirements q p) \<longleftrightarrow>
     fsr_absolute_scopes q \<or> list_ex (\<lambda>r. list_ex is_absolute_scope (rule_selectors r) \<or> rule_glob pat_absolute r) (fs_entries p)"
  "fsr_workspace_scopes (add_policy_requirements q p) \<longleftrightarrow>
     fsr_workspace_scopes q \<or>
       list_ex (\<lambda>r. list_ex is_workspace_scope (rule_selectors r) \<or> rule_glob (\<lambda>p. \<not> pat_absolute p) r) (fs_entries p)"
  "fsr_root_scopes (add_policy_requirements q p) \<longleftrightarrow>
     fsr_root_scopes q \<or> list_ex (\<lambda>r. list_ex is_root_scope (rule_selectors r)) (fs_entries p)"
  "fsr_minimal_scopes (add_policy_requirements q p) \<longleftrightarrow>
     fsr_minimal_scopes q \<or> list_ex (\<lambda>r. list_ex is_minimal_scope (rule_selectors r)) (fs_entries p)"
  "fsr_tmpdir_scopes (add_policy_requirements q p) \<longleftrightarrow>
     fsr_tmpdir_scopes q \<or> list_ex (\<lambda>r. list_ex is_tmpdir_scope (rule_selectors r)) (fs_entries p)"
  "fsr_conventional_temporary_scopes (add_policy_requirements q p) \<longleftrightarrow>
     fsr_conventional_temporary_scopes q \<or> list_ex (\<lambda>r. list_ex is_slash_tmp_scope (rule_selectors r)) (fs_entries p)"
proof -
  have "fsr_scopes (foldl add_rule_requirements q rs) \<longleftrightarrow> fsr_scopes q \<or> rs \<noteq> []" for q rs
    by (cases rs rule: rev_cases) (simp_all add: add_rule_any)
  then show "fsr_scopes (add_policy_requirements q p) \<longleftrightarrow> fsr_scopes q \<or> fs_entries p \<noteq> []"
    by (simp add: add_policy_requirements_def)
qed (simp_all add: add_policy_requirements_def
    foldl_flag [where step = add_rule_requirements, OF add_rule_scopes(1)]
    foldl_flag [where step = add_rule_requirements, OF add_rule_scopes(2)]
    foldl_flag [where step = add_rule_requirements, OF add_rule_scopes(3)]
    foldl_flag [where step = add_rule_requirements, OF add_rule_scopes(4)]
    foldl_flag [where step = add_rule_requirements, OF add_rule_scopes(5)]
    foldl_flag [where step = add_rule_requirements, OF add_rule_scopes(6)])

lemma requirements_scopes:
  fixes f
  defines "rules \<equiv> fs_entries (ef_requested f) @ fs_entries (ef_ceiling f)"
  shows "fsr_scopes (filesystem_requirements f) \<longleftrightarrow> rules \<noteq> []"
    and "fsr_absolute_scopes (filesystem_requirements f) \<longleftrightarrow>
      list_ex (\<lambda>r. list_ex is_absolute_scope (rule_selectors r) \<or> rule_glob pat_absolute r) rules"
    and "fsr_workspace_scopes (filesystem_requirements f) \<longleftrightarrow>
      list_ex (\<lambda>r. list_ex is_workspace_scope (rule_selectors r) \<or> rule_glob (\<lambda>p. \<not> pat_absolute p) r) rules"
    and "fsr_root_scopes (filesystem_requirements f) \<longleftrightarrow> list_ex (\<lambda>r. list_ex is_root_scope (rule_selectors r)) rules"
    and "fsr_minimal_scopes (filesystem_requirements f) \<longleftrightarrow> list_ex (\<lambda>r. list_ex is_minimal_scope (rule_selectors r)) rules"
    and "fsr_tmpdir_scopes (filesystem_requirements f) \<longleftrightarrow> list_ex (\<lambda>r. list_ex is_tmpdir_scope (rule_selectors r)) rules"
    and "fsr_conventional_temporary_scopes (filesystem_requirements f) \<longleftrightarrow>
      list_ex (\<lambda>r. list_ex is_slash_tmp_scope (rule_selectors r)) rules"
    and "fsr_glob_scan_depth (filesystem_requirements f) \<longleftrightarrow> list_ex deny_glob rules"
    and "fsr_missing_path_behavior (filesystem_requirements f) \<longleftrightarrow> list_ex (\<lambda>r. \<not> is_glob (rule_target r)) rules"
  by (simp_all add: filesystem_requirements_def add_policy_scopes add_policy_flags rules_def)

lemma merge_depth_covers:
  "merge_glob_scan_depth a b = None \<or>
     (\<forall>l. a = Some l \<or> b = Some l \<longrightarrow> (\<exists>d m. l = Some d \<and> merge_glob_scan_depth a b = Some m \<and> d \<le> m))"
  by (induction a b rule: merge_glob_scan_depth.induct) auto

section \<open>Decisions behind the requirements\<close>

lemma fold_access_source:
  assumes "foldl (\<lambda>result r. if P r then Some (combine_access result (acc r)) else result) None rs = Some a"
  shows "\<exists>r \<in> set rs. acc r = a"
  using assms
proof (induction rs arbitrary: a rule: rev_induct)
  case (snoc r rs)
  let ?res = "foldl (\<lambda>result r. if P r then Some (combine_access result (acc r)) else result) None rs"
  show ?case
  proof (cases "P r")
    case True
    with snoc.prems have "combine_access ?res (acc r) = a" by simp
    then have "acc r = a \<or> ?res = Some a" by (cases ?res; cases "acc r"; cases "the ?res") auto
    with snoc.IH show ?thesis by auto
  qed (use snoc in auto)
qed simp

lemma requirements_globs:
  "fsr_globs (filesystem_requirements f) \<longleftrightarrow>
     list_ex (\<lambda>r. is_glob (rule_target r)) (fs_entries (ef_requested f) @ fs_entries (ef_ceiling f))"
  "fsr_read_only_subpaths (filesystem_requirements f) \<longleftrightarrow>
     list_ex (\<lambda>r. rule_read_only_subpaths r \<noteq> []) (fs_entries (ef_requested f) @ fs_entries (ef_ceiling f))"
  "fsr_protected_paths (filesystem_requirements f) \<longleftrightarrow> fs_protected (ef_requested f) \<noteq> [] \<or> fs_protected (ef_ceiling f) \<noteq> []"
  "fsr_mode (filesystem_requirements f) = effective_mode (fs_mode (ef_requested f)) (fs_mode (ef_ceiling f))"
  by (simp_all add: filesystem_requirements_def add_policy_flags)

lemma socket_allowed:
  "decision_for_unix_socket p path = Inr NetAllow \<Longrightarrow> net_mode p = NetEnabled \<and> \<not> denies_all_unix_sockets p \<and> valid_absolute path"
  by (auto simp: decision_for_unix_socket_def Let_def denies_all_unix_sockets_def result_simps list_ex_iff
      dest: fold_access_source split: if_splits unix_socket_mode.splits network_mode.splits)
    (cases "net_mode p"; auto)+

lemma socket_open:
  assumes "net_mode p = NetEnabled" and "net_unix_socket_mode p = SocketsEnabled"
    and "\<not> list_ex (\<lambda>r. sock_access r = DomDeny) (net_unix_sockets p)"
  shows "decision_for_unix_socket p path = Inr NetAllow \<longleftrightarrow> valid_absolute path"
  using assms fold_access_source [where acc = sock_access and a = DomDeny and rs = "net_unix_sockets p"]
  by (auto simp: decision_for_unix_socket_def Let_def list_ex_iff result_simps split: if_splits)

lemma domain_open:
  assumes "net_mode p = NetEnabled" and "net_domain_mode p = DomainEnabled" and "net_domains p = []"
  shows "decision_for_domain U p host = Inr NetAllow \<longleftrightarrow> is_ok (normalize_domain U host)"
  using assms by (auto simp: decision_for_domain_def domain_decision_def access_for_normalized_domain_def is_ok_iff result_simps)

lemma domain_allowed: "decision_for_domain U p host = Inr NetAllow \<Longrightarrow> net_mode p = NetEnabled"
  by (cases "net_mode p") (auto simp: decision_for_domain_def domain_decision_def result_simps)

lemma both_network_allow:
  "both_network decide combine_network_decisions n = Inr NetAllow \<longleftrightarrow>
     decide (en_requested n) = Inr NetAllow \<and> decide (en_ceiling n) = Inr NetAllow"
  by (auto simp: both_network_def result_simps)

lemma effective_network_enabled: "effective_network_mode a b = NetEnabled \<longleftrightarrow> a = NetEnabled \<and> b = NetEnabled"
  by (cases a; cases b) (simp_all add: effective_network_mode_def)

subsection \<open>What the network requirements say of the policies\<close>

lemma requirements_enabled:
  "nr_mode (network_requirements n) = NetEnabled \<longleftrightarrow> net_mode (en_requested n) = NetEnabled \<and> net_mode (en_ceiling n) = NetEnabled"
  by (simp add: network_requirements_def Let_def effective_network_enabled)

lemma requirements_disabled:
  "nr_mode (network_requirements n) \<noteq> NetEnabled \<Longrightarrow>
     effective_decision_for_domain U n host \<noteq> Inr NetAllow \<and> effective_decision_for_unix_socket n socket \<noteq> Inr NetAllow"
  using socket_allowed [of "en_requested n" socket] socket_allowed [of "en_ceiling n" socket] domain_allowed
  by (auto simp: requirements_enabled effective_decision_for_domain_def effective_decision_for_unix_socket_def both_network_allow)

lemma requirements_open_domains:
  assumes "nr_mode (network_requirements n) = NetEnabled" and "\<not> nr_domain_rules (network_requirements n)"
  shows "effective_decision_for_domain U n host = Inr NetAllow \<longleftrightarrow> is_ok (normalize_domain U host)"
proof -
  have enabled: "effective_network_mode (net_mode (en_requested n)) (net_mode (en_ceiling n)) = NetEnabled"
    using assms(1) by (simp add: requirements_enabled effective_network_enabled)
  have "nr_domain_rules (network_requirements n) \<longleftrightarrow>
      net_domains (en_requested n) \<noteq> [] \<or> net_domain_mode (en_requested n) \<noteq> DomainEnabled
      \<or> net_domains (en_ceiling n) \<noteq> [] \<or> net_domain_mode (en_ceiling n) \<noteq> DomainEnabled"
    by (auto simp: network_requirements_def Let_def enabled)
  with assms(2) have "net_domains (en_requested n) = []" "net_domain_mode (en_requested n) = DomainEnabled"
    "net_domains (en_ceiling n) = []" "net_domain_mode (en_ceiling n) = DomainEnabled" by simp_all
  then show ?thesis
    using assms(1) domain_open [of "en_requested n" U host] domain_open [of "en_ceiling n" U host]
    by (simp add: requirements_enabled effective_decision_for_domain_def both_network_allow)
qed

lemma requirements_isolated:
  assumes "nr_mode (network_requirements n) = NetEnabled" and "nr_local_ipc_isolation (network_requirements n)"
  shows "effective_decision_for_unix_socket n socket \<noteq> Inr NetAllow"
proof -
  have enabled: "effective_network_mode (net_mode (en_requested n)) (net_mode (en_ceiling n)) = NetEnabled"
    using assms(1) by (simp add: requirements_enabled effective_network_enabled)
  have "nr_local_ipc_isolation (network_requirements n) \<longleftrightarrow>
      denies_all_unix_sockets (en_requested n) \<or> denies_all_unix_sockets (en_ceiling n)"
    by (auto simp: network_requirements_def Let_def enabled)
  with assms(2) have "denies_all_unix_sockets (en_requested n) \<or> denies_all_unix_sockets (en_ceiling n)" by simp
  then show ?thesis
    using socket_allowed [of "en_requested n" socket] socket_allowed [of "en_ceiling n" socket]
    by (auto simp: effective_decision_for_unix_socket_def both_network_allow)
qed

lemma requirements_open_sockets:
  assumes "nr_mode (network_requirements n) = NetEnabled" and "\<not> nr_local_ipc_isolation (network_requirements n)"
    and "\<not> nr_local_ipc_rules (network_requirements n)" and "\<not> nr_local_ipc_deny_rules (network_requirements n)"
  shows "effective_decision_for_unix_socket n socket = Inr NetAllow \<longleftrightarrow> valid_absolute socket"
proof -
  let ?r = "en_requested n" and ?k = "en_ceiling n"
  have enabled: "effective_network_mode (net_mode ?r) (net_mode ?k) = NetEnabled"
    using assms(1) by (simp add: requirements_enabled effective_network_enabled)
  have open_sockets: "net_unix_socket_mode p = SocketsEnabled \<and> \<not> list_ex (\<lambda>r. sock_access r = DomDeny) (net_unix_sockets p)"
    if "p \<in> {?r, ?k}" for p
    using assms(2-4) that by (cases "net_unix_socket_mode ?r"; cases "net_unix_socket_mode ?k")
      (auto simp: network_requirements_def Let_def enabled denies_all_unix_sockets_def)
  show ?thesis
    using assms(1) socket_open [of ?r socket] socket_open [of ?k socket] open_sockets [of ?r] open_sockets [of ?k]
    by (simp add: requirements_enabled effective_decision_for_unix_socket_def both_network_allow)
qed

section \<open>Environments\<close>

lemma apply_to_total:
  assumes "base_is_at_most (input_base input) (env_base spec)"
  obtains out where "apply_to U spec input = Inr out"
  using assms by (simp add: apply_to_def Let_def case_prod_beta)

lemma name_view_None: "name_view U vs k = None \<longleftrightarrow> k \<notin> environment_name_identity U ` set (map fst vs)"
  by (auto simp: name_view_def map_of_eq_None_iff image_image)

lemma name_view_Some: "name_view U vs k = Some e \<Longrightarrow> environment_name_identity U (fst e) = k"
  by (auto simp: name_view_def dest!: map_of_SomeD)

section \<open>Properties\<close>

text \<open>C2: Composition never grants more than either side. For policies built through the public
  interface, a path that the requested policy or the ceiling denies is denied by the composition;
  and where neither policy mixes, on one target, a read rule with a writable rule that carries
  read-only subpaths, the composed decision is the meet of the two decisions: it allows writing only
  when both do, and reading only when both allow at least reading.\<close>

theorem composed_access_is_narrow:
  assumes "compose fresh r = Inr s" and "effective_path_context_of s base = Inr c"
    and "built_policy build (sb_filesystem (comp_policy r))"
    and "built_policy build (sb_filesystem (ceil_policy (comp_ceiling r)))"
    and "effective_access_for_path (es_filesystem s) path c = Inr d"
  defines "requested \<equiv> fs_access_for_path (sb_filesystem (comp_policy r)) path (epc_context c)"
    and "ceiling \<equiv> fs_access_for_path (sb_filesystem (ceil_policy (comp_ceiling r))) path (epc_context c)"
  shows "(requested = Inr FsDeny \<or> ceiling = Inr FsDeny \<longrightarrow> d = FsDeny) \<and>
     (unmixed (fs_entries (sb_filesystem (comp_policy r))) \<and>
      unmixed (fs_entries (sb_filesystem (ceil_policy (comp_ceiling r)))) \<longrightarrow>
      (\<exists>a b. requested = Inr a \<and> ceiling = Inr b \<and> d = combine_filesystem_decisions a b \<and>
        (d = FsWrite \<longleftrightarrow> a = FsWrite \<and> b = FsWrite) \<and> (d = FsRead \<longrightarrow> a \<in> {FsRead, FsWrite} \<and> b \<in> {FsRead, FsWrite})))"
proof -
  let ?rf = "ef_requested (es_filesystem s)" and ?cf = "ef_ceiling (es_filesystem s)"
  note n = compose_fields(1,2) [OF assms(1)]
  obtain a b where ab: "fs_access_for_path ?rf path (epc_context c) = Inr a"
    "fs_access_for_path ?cf path (epc_context c) = Inr b" "d = combine_filesystem_decisions a b"
    using assms(5) by (auto simp: effective_access_for_path_def result_simps split: if_splits)
  have req: "(a = FsDeny \<longleftrightarrow> requested = Inr FsDeny) \<and>
      (unmixed (fs_entries (sb_filesystem (comp_policy r))) \<longrightarrow> requested = Inr a)"
    using normalized_policy [OF assms(3), of path "epc_context c"] n(1) ab(1) unfolding requested_def by auto
  have ceil: "(b = FsDeny \<longleftrightarrow> ceiling = Inr FsDeny) \<and>
      (unmixed (fs_entries (sb_filesystem (ceil_policy (comp_ceiling r)))) \<longrightarrow> ceiling = Inr b)"
    using normalized_policy [OF assms(4), of path "epc_context c"] n(2) ab(2) unfolding ceiling_def by auto
  have meet: "(d = FsWrite \<longleftrightarrow> a = FsWrite \<and> b = FsWrite) \<and> (d = FsRead \<longrightarrow> a \<in> {FsRead, FsWrite} \<and> b \<in> {FsRead, FsWrite})"
    by (cases a; cases b; simp add: ab(3))
  show ?thesis using req ceil meet ab(3) combine_filesystem_deny by blast
qed

text \<open>An example: a writable request under the ceiling of \<open>example_rules\<close>.\<close>

definition example_request :: composition_request where
  "example_request =
     composition_new (sandbox_new (fs_restricted [rule_new (Absolute ''/a'') Write]) net_disabled) inherit_core
       (ceiling_new (sandbox_new (fs_restricted example_rules) net_disabled) inherit_core)"

lemma example_composed:
  obtains s c where "compose 0 example_request = Inr s" and "effective_path_context_of s context_new = Inr c"
    and "epc_context c = context_new" and "owns_context (es_filesystem s) c"
    and "fs_normalized (fs_restricted [rule_new (Absolute ''/a'') Write]) = Inr (ef_requested (es_filesystem s))"
    and "fs_normalized (fs_restricted example_rules) = Inr (ef_ceiling (es_filesystem s))"
proof -
  have "built_policy example_build (fs_restricted [rule_new (Absolute ''/a'') Write])"
    by (rule built_policy.restricted) (simp add: built_rule.new)
  then obtain rf where rf: "fs_normalized (fs_restricted [rule_new (Absolute ''/a'') Write]) = Inr rf"
    using normalized_policy by blast
  obtain cf where cf: "fs_normalized (fs_restricted example_rules) = Inr cf"
    using normalized_policy [OF built_example] by blast
  have net: "net_normalized net_disabled = Inr net_disabled" by (simp add: net_normalized_Inr net_validate_def net_disabled_def)
  let ?s = "\<lparr>es_filesystem = \<lparr>ef_requested = rf, ef_ceiling = cf, ef_identity = 0\<rparr>,
     es_network = \<lparr>en_requested = net_disabled, en_ceiling = net_disabled\<rparr>,
     es_environment = \<lparr>ee_requested = inherit_core, ee_ceiling = inherit_core\<rparr>,
     es_workspace_roots = None, es_workspace_root_limit = None\<rparr>"
  have modes: "fs_mode rf = FsRestricted" "fs_mode cf = FsRestricted"
    using fs_normalized_mode [OF rf] fs_normalized_mode [OF cf] by (simp_all add: fs_restricted_def)
  have "compose 0 example_request = Inr ?s"
    unfolding compose_Inr
    by (rule exI [of _ rf], rule exI [of _ cf], rule exI [of _ net_disabled], rule exI [of _ net_disabled],
        rule exI [of _ "\<lparr>cw_selected = None, cw_limit = None\<rparr>"])
      (simp add: example_request_def composition_new_def ceiling_new_def sandbox_new_def rf cf net modes
        compose_workspace_roots_def normalize_optional_roots_def, simp add: net_disabled_def)
  moreover have "effective_path_context_of ?s context_new = Inr \<lparr>epc_context = context_new, epc_identity = 0\<rparr>"
    by (simp add: effective_path_context_of_def context_new_def extend_context_def)
  ultimately show ?thesis using rf cf by (intro that [of ?s]) (auto simp: owns_context_def)
qed


theorem composed_access_is_narrow_witness:
  "\<exists>s c. compose 0 example_request = Inr s \<and> effective_path_context_of s context_new = Inr c \<and>
     effective_access_for_path (es_filesystem s) ''/z'' c = Inr FsDeny"
proof -
  obtain s c where s: "compose 0 example_request = Inr s" "effective_path_context_of s context_new = Inr c"
    "epc_context c = context_new" "owns_context (es_filesystem s) c"
    and n: "fs_normalized (fs_restricted [rule_new (Absolute ''/a'') Write]) = Inr (ef_requested (es_filesystem s))"
      "fs_normalized (fs_restricted example_rules) = Inr (ef_ceiling (es_filesystem s))"
    by (rule example_composed)
  have req: "sb_filesystem (comp_policy example_request) = fs_restricted [rule_new (Absolute ''/a'') Write]"
    and ceil: "sb_filesystem (ceil_policy (comp_ceiling example_request)) = fs_restricted example_rules"
    by (simp_all add: example_request_def composition_new_def ceiling_new_def sandbox_new_def)
  have one: "built_policy example_build (fs_restricted [rule_new (Absolute ''/a'') Write])"
    by (rule built_policy.restricted) (simp add: built_rule.new)
  have deny: "fs_access_for_path (fs_restricted [rule_new (Absolute ''/a'') Write]) ''/z'' context_new = Inr FsDeny"
    "fs_access_for_path (fs_restricted example_rules) ''/z'' context_new = Inr FsDeny"
    unfolding fs_access_for_path_verdict by code_simp+
  then have "fs_access_for_path (ef_requested (es_filesystem s)) ''/z'' context_new = Inr FsDeny"
    "fs_access_for_path (ef_ceiling (es_filesystem s)) ''/z'' context_new = Inr FsDeny"
    using normalized_policy [OF one, of "''/z''" context_new] n normalized_policy [OF built_example, of "''/z''" context_new] by auto
  then obtain d where d: "effective_access_for_path (es_filesystem s) ''/z'' c = Inr d"
    using s by (simp add: effective_access_for_path_def)
  from composed_access_is_narrow [of 0 example_request s context_new c example_build "''/z''" d] s d one built_example deny req ceil
  show ?thesis by auto
qed

text \<open>C4: A connection is authorized by the composition exactly when the requested policy and the
  ceiling, each in its normalized form, both authorize it; and then for the address the caller is about to
  connect to. For a target whose normalized host has no \<open>%\<close> (no IPv6 scope identifier) the same holds of the two policies as they were built;
  for other targets only the normalized forms decide.\<close>

theorem composed_connection_needs_both:
  assumes "compose fresh r = Inr s"
    and "built_network build (sb_network (comp_policy r))" and "built_network build (sb_network (ceil_policy (comp_ceiling r)))"
    and "plain_globs_match build" and "sane_tables U"
  shows "(effective_authorize_connection U (es_network s) t connected = Inr (Allowed a) \<longleftrightarrow>
       a = connected \<and>
       (\<exists>q. net_normalized (sb_network (comp_policy r)) = Inr q \<and> authorize_connection U q t connected = Inr (Allowed connected)) \<and>
       (\<exists>q. net_normalized (sb_network (ceil_policy (comp_ceiling r))) = Inr q \<and>
          authorize_connection U q t connected = Inr (Allowed connected))) \<and>
    ((\<forall>d. normalize_domain U (target_domain t) = Inr d \<longrightarrow> CHR ''%'' \<notin> set d) \<longrightarrow>
       (effective_authorize_connection U (es_network s) t connected = Inr (Allowed a) \<longleftrightarrow>
          a = connected \<and> authorize_connection U (sb_network (comp_policy r)) t connected = Inr (Allowed connected) \<and>
          authorize_connection U (sb_network (ceil_policy (comp_ceiling r))) t connected = Inr (Allowed connected)))"
proof -
  note n = compose_fields(3,4) [OF assms(1)]
  have same: "authorize_connection U (en_requested (es_network s)) t connected =
        authorize_connection U (sb_network (comp_policy r)) t connected \<and>
      authorize_connection U (en_ceiling (es_network s)) t connected =
        authorize_connection U (sb_network (ceil_policy (comp_ceiling r))) t connected"
    if "\<forall>d. normalize_domain U (target_domain t) = Inr d \<longrightarrow> CHR ''%'' \<notin> set d"
    using normalized_connected [OF assms(5) conjunct1 [OF built_network_wf [OF assms(2)]] n(1) assms(4) that]
      normalized_connected [OF assms(5) conjunct1 [OF built_network_wf [OF assms(3)]] n(2) assms(4) that] by simp
  have only: "authorize_connection U p t connected = Inr (Allowed b) \<Longrightarrow> b = connected" for p b
    by (erule authorize_connection_Allowed) simp
  have both: "effective_authorize_connection U (es_network s) t connected = Inr (Allowed a) \<longleftrightarrow>
      a = connected \<and> authorize_connection U (en_requested (es_network s)) t connected = Inr (Allowed connected) \<and>
      authorize_connection U (en_ceiling (es_network s)) t connected = Inr (Allowed connected)"
    unfolding effective_authorize_connection_def both_network_def result_simps sum.inject combine_authorizations_Allowed
    using only by blast
  then show ?thesis using same unfolding n sum.inject by auto
qed

definition example_network_request :: composition_request where
  "example_network_request =
     composition_new (sandbox_new fs_unrestricted net_unrestricted) inherit_core
       (ceiling_new (sandbox_new fs_unrestricted net_enabled) inherit_core)"

lemma example_network_composed:
  "compose 0 example_network_request = Inr
     \<lparr>es_filesystem = \<lparr>ef_requested = fs_unrestricted, ef_ceiling = fs_unrestricted, ef_identity = 0\<rparr>,
      es_network = \<lparr>en_requested = net_unrestricted, en_ceiling = net_enabled\<rparr>,
      es_environment = \<lparr>ee_requested = inherit_core, ee_ceiling = inherit_core\<rparr>,
      es_workspace_roots = None, es_workspace_root_limit = None\<rparr>"
proof -
  have "net_normalized net_unrestricted = Inr net_unrestricted" "net_normalized net_enabled = Inr net_enabled"
    by (simp_all add: net_normalized_Inr net_validate_def net_unrestricted_def net_enabled_def)
  moreover have "fs_normalized fs_unrestricted = Inr fs_unrestricted"
    by (simp add: fs_normalized_Inr fs_validate_Inr fs_unrestricted_def)
  ultimately show ?thesis
    unfolding compose_Inr
    by (intro exI [of _ fs_unrestricted] exI [of _ net_unrestricted] exI [of _ net_enabled]
        exI [of _ "\<lparr>cw_selected = None, cw_limit = None\<rparr>"])
      (simp add: example_network_request_def composition_new_def ceiling_new_def sandbox_new_def
        compose_workspace_roots_def normalize_optional_roots_def,
       simp add: fs_unrestricted_def net_enabled_def net_unrestricted_def)
qed

theorem composed_connection_needs_both_witness:
  "\<exists>s. compose 0 example_network_request = Inr s \<and>
     effective_authorize_connection ascii_tables (es_network s) example_target (SocketAddrV4 0x5DB8D822 443)
       = Inr (Allowed (SocketAddrV4 0x5DB8D822 443))"
proof -
  have built: "built_network example_build (sb_network (comp_policy example_network_request))"
    "built_network example_build (sb_network (ceil_policy (comp_ceiling example_network_request)))"
    by (simp_all add: example_network_request_def composition_new_def ceiling_new_def sandbox_new_def
        built_network.unrestricted built_network.enabled)
  have "normalize_domain ascii_tables ''example.com'' = Inr ''example.com''" by code_simp
  then have dom: "\<forall>d. normalize_domain ascii_tables (target_domain example_target) = Inr d \<longrightarrow> CHR ''%'' \<notin> set d"
    by (simp add: example_target_def)
  have "authorize_connection ascii_tables (sb_network (comp_policy example_network_request)) example_target
       (SocketAddrV4 0x5DB8D822 443) = Inr (Allowed (SocketAddrV4 0x5DB8D822 443))"
    "authorize_connection ascii_tables (sb_network (ceil_policy (comp_ceiling example_network_request))) example_target
       (SocketAddrV4 0x5DB8D822 443) = Inr (Allowed (SocketAddrV4 0x5DB8D822 443))" by code_simp+
  with composed_connection_needs_both [OF example_network_composed built plain_example_build sane_ascii_tables] dom
  show ?thesis using example_network_composed by blast
qed

text \<open>C22: The bound context confines the workspace. Every workspace root of a context made for a
  composition lies within a root of the ceiling when the ceiling limits them, is one of the requested
  roots when the request names some and one of the runtime roots otherwise; and the context is
  rejected by every other composition.\<close>

theorem effective_context_confined:
  assumes "compose fresh r = Inr s" and "effective_path_context_of s base = Inr c"
  shows "(\<forall>root \<in> set (workspace_roots (epc_context c)).
       (case ceil_workspace_roots (comp_ceiling r) of None \<Rightarrow> True
        | Some limit \<Rightarrow> \<exists>granted \<in> set limit. is_within root granted) \<and>
       (case comp_workspace_roots r of None \<Rightarrow> root \<in> set (workspace_roots base) | Some roots \<Rightarrow> root \<in> set roots)) \<and>
     (\<forall>fresh' r' s' path. fresh' \<noteq> fresh \<longrightarrow> compose fresh' r' = Inr s' \<longrightarrow>
        effective_access_for_path (es_filesystem s') path c = Inl PathContextMismatch)"
proof (intro conjI ballI allI impI)
  note roots = compose_fields(6) [OF assms(1), unfolded compose_workspace_roots_Inr]
  fix root
  assume "root \<in> set (workspace_roots (epc_context c))"
  with effective_context_roots(2) [OF assms(2)] have in_selected:
    "root \<in> set (case es_workspace_roots s of None \<Rightarrow> workspace_roots base | Some roots \<Rightarrow> roots)"
    and in_limit: "case es_workspace_root_limit s of None \<Rightarrow> True | Some limit \<Rightarrow> root_is_within root limit" by auto
  show "case ceil_workspace_roots (comp_ceiling r) of None \<Rightarrow> True
      | Some limit \<Rightarrow> \<exists>granted \<in> set limit. is_within root granted"
    using in_limit roots optional_roots_subset [of "ceil_workspace_roots (comp_ceiling r)" "es_workspace_root_limit s"]
    by (cases "es_workspace_root_limit s"; cases "ceil_workspace_roots (comp_ceiling r)")
      (auto simp: root_is_within_def list_ex_iff)
  show "case comp_workspace_roots r of None \<Rightarrow> root \<in> set (workspace_roots base) | Some roots \<Rightarrow> root \<in> set roots"
    using in_selected roots optional_roots_subset [of "comp_workspace_roots r" "es_workspace_roots s"]
    by (cases "es_workspace_roots s"; cases "comp_workspace_roots r") auto
next
  fix fresh' r' s' path
  assume "fresh' \<noteq> fresh" and "compose fresh' r' = Inr s'"
  then have "\<not> owns_context (es_filesystem s') c"
    using compose_fields(5) [OF assms(1)] compose_fields(5) [of fresh' r' s'] effective_context_roots(1) [OF assms(2)]
    by (simp add: owns_context_def)
  then show "effective_access_for_path (es_filesystem s') path c = Inl PathContextMismatch"
    by (simp add: effective_access_for_path_def)
qed

theorem effective_context_confined_witness:
  "\<exists>s s' c. compose 0 example_request = Inr s \<and> compose 1 example_request = Inr s' \<and>
     effective_path_context_of s context_new = Inr c \<and> workspace_roots (epc_context c) = [] \<and>
     effective_access_for_path (es_filesystem s') ''/a'' c = Inl PathContextMismatch"
proof -
  obtain s c where s: "compose 0 example_request = Inr s" "effective_path_context_of s context_new = Inr c"
    "epc_context c = context_new"
    by (rule example_composed)
  then obtain s' where "compose 1 example_request = Inr s'" unfolding compose_Inr by blast
  with effective_context_confined [OF s(1,2)] s show ?thesis by (auto simp: context_new_def)
qed

lemma compose_succeeds_roots:
  "is_ok (compose fresh r) \<longleftrightarrow>
     (let p = comp_policy r; k = ceil_policy (comp_ceiling r);
          external = (fs_mode (sb_filesystem p) = FsExternal \<or> net_mode (sb_network p) = NetExternal)
      in is_ok (sandbox_validate p) \<and> is_ok (sandbox_validate k) \<and>
         (fs_mode (sb_filesystem p) = FsExternal \<longleftrightarrow> fs_mode (sb_filesystem k) = FsExternal) \<and>
         (net_mode (sb_network p) = NetExternal \<longleftrightarrow> net_mode (sb_network k) = NetExternal) \<and>
         comp_external_owner r = ceil_external_owner (comp_ceiling r) \<and> (external \<longleftrightarrow> comp_external_owner r \<noteq> None) \<and>
         is_ok (compose_workspace_roots (comp_workspace_roots r) (ceil_workspace_roots (comp_ceiling r))))"
proof -
  have norm: "(\<exists>rf. fs_normalized p = Inr rf) \<longleftrightarrow> fs_validate p = Inr ()" for p by (simp add: fs_normalized_Inr)
  have norm_net: "(\<exists>rn. net_normalized p = Inr rn) \<longleftrightarrow> net_validate p = Inr ()" for p by (simp add: net_normalized_Inr)
  have valid: "is_ok (sandbox_validate p) \<longleftrightarrow>
      (\<exists>rf. fs_normalized (sb_filesystem p) = Inr rf) \<and> (\<exists>rn. net_normalized (sb_network p) = Inr rn)" for p
    unfolding norm norm_net by (simp add: sandbox_validate_def is_ok_iff result_simps)
  let ?p = "comp_policy r" and ?k = "ceil_policy (comp_ceiling r)"
  show ?thesis (is "_ \<longleftrightarrow> ?ok")
  proof
    assume "is_ok (compose fresh r)"
    then obtain s where s: "compose fresh r = Inr s" by (auto simp: is_ok_iff)
    note fields = compose_fields [OF s]
    note modes = fs_normalized_mode [OF fields(1)] fs_normalized_mode [OF fields(2)]
      net_normalized_mode [OF fields(3)] net_normalized_mode [OF fields(4)]
    have "is_ok (sandbox_validate ?p)" "is_ok (sandbox_validate ?k)" unfolding valid using fields(1-4) by blast+
    with s [unfolded compose_Inr] fields modes show ?ok unfolding Let_def by (elim exE conjE) simp
  next
    assume ok: ?ok
    then obtain rf rn cf cn roots where n: "fs_normalized (sb_filesystem ?p) = Inr rf" "net_normalized (sb_network ?p) = Inr rn"
      "fs_normalized (sb_filesystem ?k) = Inr cf" "net_normalized (sb_network ?k) = Inr cn"
      "compose_workspace_roots (comp_workspace_roots r) (ceil_workspace_roots (comp_ceiling r)) = Inr roots"
      unfolding valid Let_def unfolding is_ok_iff by blast
    note modes = fs_normalized_mode [OF n(1)] fs_normalized_mode [OF n(3)]
      net_normalized_mode [OF n(2)] net_normalized_mode [OF n(4)]
    from ok have facts: "fs_mode (sb_filesystem ?p) = FsExternal \<longleftrightarrow> fs_mode (sb_filesystem ?k) = FsExternal"
      "net_mode (sb_network ?p) = NetExternal \<longleftrightarrow> net_mode (sb_network ?k) = NetExternal"
      "comp_external_owner r = ceil_external_owner (comp_ceiling r)"
      "comp_external_owner r \<noteq> None \<longleftrightarrow> fs_mode (sb_filesystem ?p) = FsExternal \<or> net_mode (sb_network ?p) = NetExternal"
      unfolding Let_def by blast+
    have "\<exists>s. compose fresh r = Inr s"
      unfolding compose_Inr
      by (rule exI, rule exI [of _ rf], rule exI [of _ cf], rule exI [of _ rn], rule exI [of _ cn], rule exI [of _ roots])
        (intro conjI n facts [folded modes], rule refl)
    then show "is_ok (compose fresh r)" by (simp add: is_ok_iff)
  qed
qed

text \<open>C21: Composition succeeds exactly when both policies validate, each boundary is delegated by both
  sides or by neither, a delegated boundary carries the same owner on both sides while an
  owner is absent from both when nothing is delegated, every requested root and every root of the ceiling is absolute, without NUL
  byte and without parent traversal, and, when both sides name roots, every requested root lies within a root of the ceiling.\<close>

theorem compose_succeeds_iff:
  "is_ok (compose fresh r) \<longleftrightarrow>
     (let p = comp_policy r; k = ceil_policy (comp_ceiling r);
          external = (fs_mode (sb_filesystem p) = FsExternal \<or> net_mode (sb_network p) = NetExternal);
          requested = comp_workspace_roots r; limit = ceil_workspace_roots (comp_ceiling r)
      in is_ok (sandbox_validate p) \<and> is_ok (sandbox_validate k) \<and>
         (fs_mode (sb_filesystem p) = FsExternal \<longleftrightarrow> fs_mode (sb_filesystem k) = FsExternal) \<and>
         (net_mode (sb_network p) = NetExternal \<longleftrightarrow> net_mode (sb_network k) = NetExternal) \<and>
         comp_external_owner r = ceil_external_owner (comp_ceiling r) \<and> (external \<longleftrightarrow> comp_external_owner r \<noteq> None) \<and>
         pred_option (list_all valid_absolute) requested \<and> pred_option (list_all valid_absolute) limit \<and>
         (case (requested, limit) of
            (Some roots, Some granted) \<Rightarrow> list_all (\<lambda>root. list_ex (is_within root) granted) roots
          | _ \<Rightarrow> True))"
  unfolding compose_succeeds_roots Let_def compose_workspace_roots_ok by (rule refl)

text \<open>C16: The composed environment. For built specifications and a built input, application succeeds
  exactly when the input is no broader than both bases, and fails otherwise with the composed base;
  a result is sorted, has one entry per case-insensitive name, and each name carries what the ceiling
  makes of the requested result, but only a name the requested result has: the ceiling adds none.\<close>

theorem composed_environment_narrows:
  assumes "built_environment U wild (ee_requested e)" and "built_environment U wild (ee_ceiling e)" and "built_input U input"
  shows "(if breadth (input_base input) \<le> min (breadth (env_base (ee_requested e))) (breadth (env_base (ee_ceiling e)))
     then \<exists>vars requested. effective_apply_to U e input = Inr vars \<and> apply_to U (ee_requested e) input = Inr requested \<and>
       bt_sorted id vars \<and> unique_names U vars \<and>
       (\<forall>k. name_view U vars k =
          (case name_view U (input_variables requested) k of None \<Rightarrow> None
           | Some _ \<Rightarrow> namespace_apply U (ee_ceiling e) (name_view U (input_variables requested)) k))
     else effective_apply_to U e input = Inl (ComposedBaseTooPermissive (effective_base e) (input_base input)))"
proof -
  note wf = built_environment_wf [OF assms(1)] built_environment_wf [OF assms(2)] built_input_wf [OF assms(3)]
  have base: "breadth (effective_base e) = min (breadth (env_base (ee_requested e))) (breadth (env_base (ee_ceiling e)))"
    by (cases "env_base (ee_requested e)"; cases "env_base (ee_ceiling e)") (simp_all add: effective_base_def least_permissive_base_def)
  show ?thesis
  proof (cases "breadth (input_base input) \<le> breadth (effective_base e)")
    case True
    then have "base_is_at_most (input_base input) (env_base (ee_requested e))" by (simp add: base_is_at_most_breadth base)
    then obtain req where req: "apply_to U (ee_requested e) input = Inr req" by (rule apply_to_total)
    note r = apply_to_refines [OF wf(1,3) req]
    from True have "base_is_at_most (input_base req) (env_base (ee_ceiling e))" by (simp add: base_is_at_most_breadth base r(3))
    then obtain out where out: "apply_to U (ee_ceiling e) req = Inr out" by (rule apply_to_total)
    note o = apply_to_refines [OF wf(2) r(1) out]
    let ?P = "\<lambda>name. environment_name_identity U name \<in> environment_name_identity U ` set (map fst (input_variables req))"
    have sorted: "bt_sorted id (input_variables out)" "unique_names U (input_variables out)" "unique_names U (input_variables req)"
      using o(1) r(1) by (simp_all add: wf_input_def)
    have vars: "effective_apply_to U e input = Inr (filter (\<lambda>(name, _). ?P name) (input_variables out))"
      using True by (simp add: effective_apply_to_def base_is_at_most_breadth req out)
    have "name_view U (filter (\<lambda>(name, _). ?P name) (input_variables out)) k =
        (case name_view U (input_variables req) k of None \<Rightarrow> None
         | Some _ \<Rightarrow> namespace_apply U (ee_ceiling e) (name_view U (input_variables req)) k)" for k
    proof -
      have "keep ?P (name_view U (input_variables out) k) =
          (case name_view U (input_variables req) k of None \<Rightarrow> None | Some _ \<Rightarrow> name_view U (input_variables out) k)"
        using name_view_None [of U "input_variables req" k] name_view_Some [of U "input_variables out" k]
        by (cases "name_view U (input_variables out) k"; cases "name_view U (input_variables req) k") (force simp: keep_def)+
      then show ?thesis unfolding name_view_keep [OF sorted(2)] o(2) .
    qed
    with vars req sorted show ?thesis
      using True [unfolded base] bt_sorted_filter unique_names_filter by auto
  next
    case False
    then have "effective_apply_to U e input = Inl (ComposedBaseTooPermissive (effective_base e) (input_base input))"
      by (simp add: effective_apply_to_def base_is_at_most_breadth)
    with False [unfolded base] show ?thesis by auto
  qed
qed

definition example_effective :: "environment_spec \<Rightarrow> environment_spec \<Rightarrow> effective_environment" where
  "example_effective requested ceiling = \<lparr>ee_requested = requested, ee_ceiling = ceiling\<rparr>"

theorem composed_environment_narrows_witness:
  "effective_apply_to ascii_tables (example_effective inherit_core spec_empty) input_empty = Inr []"
proof -
  have "built_environment ascii_tables example_wild (ee_requested (example_effective inherit_core spec_empty))"
    "built_environment ascii_tables example_wild (ee_ceiling (example_effective inherit_core spec_empty))"
    by (simp_all add: example_effective_def built_environment.intros)
  from composed_environment_narrows [OF this built_input.empty]
  obtain vars where "effective_apply_to ascii_tables (example_effective inherit_core spec_empty) input_empty = Inr vars"
    by (auto simp: input_empty_def spec_empty_def inherit_core_def example_effective_def)
  moreover have "is_ok (effective_apply_to ascii_tables (example_effective inherit_core spec_empty) input_empty)
     \<and> (case effective_apply_to ascii_tables (example_effective inherit_core spec_empty) input_empty of
         Inl _ \<Rightarrow> False | Inr vs \<Rightarrow> vs = [])" by code_simp
  ultimately show ?thesis by simp
qed

text \<open>C17: The network requirements a backend checks describe the composed policy. Outside the enabled mode no host
  is allowed; without domain rules every well-formed host is allowed; isolation of local sockets means that no
  socket is allowed; and without isolation, rules or deny rules every valid socket path is allowed.\<close>

theorem network_requirements_exact:
  "(nr_mode (network_requirements n) \<noteq> NetEnabled \<longrightarrow>
      effective_decision_for_domain U n host \<noteq> Inr NetAllow \<and> effective_decision_for_unix_socket n socket \<noteq> Inr NetAllow) \<and>
   (nr_mode (network_requirements n) = NetEnabled \<longrightarrow>
      (\<not> nr_domain_rules (network_requirements n) \<longrightarrow>
         (effective_decision_for_domain U n host = Inr NetAllow \<longleftrightarrow> is_ok (normalize_domain U host))) \<and>
      (nr_local_ipc_isolation (network_requirements n) \<longrightarrow> effective_decision_for_unix_socket n socket \<noteq> Inr NetAllow) \<and>
      (\<not> nr_local_ipc_isolation (network_requirements n) \<and> \<not> nr_local_ipc_rules (network_requirements n) \<and>
       \<not> nr_local_ipc_deny_rules (network_requirements n) \<longrightarrow>
         (effective_decision_for_unix_socket n socket = Inr NetAllow \<longleftrightarrow> valid_absolute socket)))"
  using requirements_disabled [of n U host socket] requirements_open_domains [of n U host]
    requirements_isolated [of n socket] requirements_open_sockets [of n socket] by blast

theorem network_requirements_exact_witness:
  "effective_decision_for_unix_socket \<lparr>en_requested = net_unrestricted, en_ceiling = net_enabled\<rparr> ''/run/x.sock'' \<noteq> Inr NetAllow
   \<and> effective_decision_for_domain ascii_tables \<lparr>en_requested = net_unrestricted, en_ceiling = net_enabled\<rparr> ''example.com'' = Inr NetAllow"
proof -
  let ?n = "\<lparr>en_requested = net_unrestricted, en_ceiling = net_enabled\<rparr>"
  have "nr_mode (network_requirements ?n) = NetEnabled" "\<not> nr_domain_rules (network_requirements ?n)"
    "nr_local_ipc_isolation (network_requirements ?n)" "is_ok (normalize_domain ascii_tables ''example.com'')"
    by code_simp+
  with network_requirements_exact [of ?n ascii_tables "''example.com''" "''/run/x.sock''"] show ?thesis by blast
qed

text \<open>C36: The scan depth a backend gets covers every deny glob. Either it is unbounded, or every layer with a deny
  glob bounds its scan and the composed bound is at least that bound; and the requirement to honour scan depths is
  reported exactly when a layer has a deny glob.\<close>

theorem glob_scan_depth_covers:
  assumes "layer \<in> {ef_requested f, ef_ceiling f}" and "rule \<in> set (fs_entries layer)"
    and "is_glob (rule_target rule)" and "rule_access rule = Deny"
  shows "fsr_glob_scan_depth (filesystem_requirements f) \<and> fsr_globs (filesystem_requirements f) \<and>
     fl_layers (effective_filesystem_lowering f) = [ef_requested f, ef_ceiling f] \<and>
     (case fl_glob_scan_max_depth (effective_filesystem_lowering f) of None \<Rightarrow> True
      | Some depth \<Rightarrow> \<exists>own. fs_glob_scan_max_depth layer = Some own \<and> own \<le> depth)"
proof -
  from assms have ex: "list_ex (\<lambda>r. is_glob (rule_target r) \<and> rule_access r = Deny) (fs_entries layer)"
    by (auto simp: list_ex_iff)
  then have own: "effective_glob_scan_depth layer = Some (fs_glob_scan_max_depth layer)"
    by (simp add: effective_glob_scan_depth_def)
  have "fsr_glob_scan_depth (filesystem_requirements f)" "fsr_globs (filesystem_requirements f)"
    using assms by (auto simp: filesystem_requirements_def add_policy_flags deny_glob_def list_ex_iff)
  moreover have "case effective_glob_scan_max_depth f of None \<Rightarrow> True
      | Some depth \<Rightarrow> \<exists>own. fs_glob_scan_max_depth layer = Some own \<and> own \<le> depth"
    using merge_depth_covers [of "effective_glob_scan_depth (ef_requested f)" "effective_glob_scan_depth (ef_ceiling f)"]
      own assms(1) by (auto simp: effective_glob_scan_max_depth_def split: option.splits)
  ultimately show ?thesis by (simp add: effective_filesystem_lowering_def)
qed

definition example_glob :: "(policy_error, filesystem_rule) rust_result" where
  "example_glob = rule_absolute_glob example_build ''/secret/*'' Deny"

theorem glob_scan_depth_covers_witness:
  "\<exists>g. example_glob = Inr g \<and>
     fsr_glob_scan_depth (filesystem_requirements \<lparr>ef_requested = fs_restricted [g], ef_ceiling = fs_unrestricted, ef_identity = 0\<rparr>)"
proof -
  have "case example_glob of Inl _ \<Rightarrow> False | Inr g \<Rightarrow> is_glob (rule_target g) \<and> rule_access g = Deny" by code_simp
  then obtain g where g: "example_glob = Inr g" "is_glob (rule_target g)" "rule_access g = Deny"
    by (auto split: sum.splits)
  let ?f = "\<lparr>ef_requested = fs_restricted [g], ef_ceiling = fs_unrestricted, ef_identity = 0\<rparr>"
  have "g \<in> set (fs_entries (ef_requested ?f))" by (simp add: fs_restricted_def)
  from glob_scan_depth_covers [of _ ?f, OF _ this g(2,3)] g(1) show ?thesis by auto
qed

end
