(* ===== verification/Command.thy ===== *)
theory Command
  imports Environment Selector
begin

text \<open>
  Commands, standard streams, timeouts and the complete request
  (\<open>cageforge-command/src/command.rs\<close>, \<open>stdio.rs\<close>, \<open>timeout.rs\<close>, \<open>request.rs\<close>). A
  \<open>Duration\<close> is its number of nanoseconds. The property is the invariant every request built
  through the public interface carries to a backend.
\<close>

section \<open>Commands (command.rs)\<close>

record command_spec =
  cmd_program :: string
  cmd_args :: "string list"

definition validate_program :: "string \<Rightarrow> (command_error, unit) rust_result" where
  "validate_program program =
     (if program = [] then Inl EmptyProgram
      else if os_contains_nul program then Inl ProgramContainsNul
      else Inr ())"

definition validate_argument :: "string \<Rightarrow> (command_error, unit) rust_result" where
  "validate_argument argument = (if os_contains_nul argument then Inl ArgumentContainsNul else Inr ())"

definition command_new :: "string \<Rightarrow> (command_error, command_spec) rust_result" where
  "command_new program =
     and_then (validate_program program) (\<lambda>_. Inr \<lparr>cmd_program = program, cmd_args = []\<rparr>)"

definition with_arg :: "command_spec \<Rightarrow> string \<Rightarrow> (command_error, command_spec) rust_result" where
  "with_arg c argument =
     and_then (validate_argument argument) (\<lambda>_. Inr (c\<lparr>cmd_args := cmd_args c @ [argument]\<rparr>))"

definition with_args :: "command_spec \<Rightarrow> string list \<Rightarrow> (command_error, command_spec) rust_result" where
  "with_args c arguments = try_fold with_arg c arguments"

definition into_parts :: "command_spec \<Rightarrow> string \<times> string list" where
  "into_parts c = (cmd_program c, cmd_args c)"

section \<open>Streams and timeouts (stdio.rs, timeout.rs)\<close>

datatype stdio_mode = StdioInherit | StdioNull | StdioPipe

record stdio_spec =
  stdio_stdin :: stdio_mode
  stdio_stdout :: stdio_mode
  stdio_stderr :: stdio_mode

definition stdio_new :: "stdio_mode \<Rightarrow> stdio_mode \<Rightarrow> stdio_mode \<Rightarrow> stdio_spec" where
  "stdio_new i out err = \<lparr>stdio_stdin = i, stdio_stdout = out, stdio_stderr = err\<rparr>"

definition stdio_captured :: stdio_spec where
  "stdio_captured = stdio_new StdioNull StdioPipe StdioPipe"

definition stdio_inherited :: stdio_spec where
  "stdio_inherited = stdio_new StdioInherit StdioInherit StdioInherit"

definition with_stdin :: "stdio_spec \<Rightarrow> stdio_mode \<Rightarrow> stdio_spec" where
  "with_stdin s mode = s\<lparr>stdio_stdin := mode\<rparr>"

definition with_stdout :: "stdio_spec \<Rightarrow> stdio_mode \<Rightarrow> stdio_spec" where
  "with_stdout s mode = s\<lparr>stdio_stdout := mode\<rparr>"

definition with_stderr :: "stdio_spec \<Rightarrow> stdio_mode \<Rightarrow> stdio_spec" where
  "with_stderr s mode = s\<lparr>stdio_stderr := mode\<rparr>"

type_synonym duration = nat

datatype timeout_policy = BackendDefault | Limit duration | TimeoutDisabled

section \<open>Requests (request.rs)\<close>

record command_request =
  req_command :: command_spec
  req_working_directory :: "string option"
  req_environment :: environment_spec
  req_stdio :: stdio_spec
  req_timeout :: timeout_policy

definition request_new :: "command_spec \<Rightarrow> command_request" where
  "request_new command =
     \<lparr>req_command = command, req_working_directory = None, req_environment = inherit_core,
      req_stdio = stdio_captured, req_timeout = BackendDefault\<rparr>"

definition with_working_directory :: "command_request \<Rightarrow> string \<Rightarrow> (command_error, command_request) rust_result" where
  "with_working_directory r path =
     (if path = [] then Inl EmptyWorkingDirectory
      else if os_contains_nul path then Inl WorkingDirectoryContainsNul
      else if contains_parent_traversal path then Inl (WorkingDirectoryParentTraversal path)
      else Inr (r\<lparr>req_working_directory := Some path\<rparr>))"

definition without_working_directory :: "command_request \<Rightarrow> command_request" where
  "without_working_directory r = r\<lparr>req_working_directory := None\<rparr>"

definition with_environment :: "command_request \<Rightarrow> environment_spec \<Rightarrow> command_request" where
  "with_environment r environment = r\<lparr>req_environment := environment\<rparr>"

definition with_stdio :: "command_request \<Rightarrow> stdio_spec \<Rightarrow> command_request" where
  "with_stdio r stdio = r\<lparr>req_stdio := stdio\<rparr>"

definition with_timeout :: "command_request \<Rightarrow> duration \<Rightarrow> command_request" where
  "with_timeout r timeout = r\<lparr>req_timeout := Limit timeout\<rparr>"

definition with_timeout_policy :: "command_request \<Rightarrow> timeout_policy \<Rightarrow> command_request" where
  "with_timeout_policy r timeout = r\<lparr>req_timeout := timeout\<rparr>"

definition use_backend_timeout :: "command_request \<Rightarrow> command_request" where
  "use_backend_timeout r = r\<lparr>req_timeout := BackendDefault\<rparr>"

definition disable_timeout :: "command_request \<Rightarrow> command_request" where
  "disable_timeout r = r\<lparr>req_timeout := TimeoutDisabled\<rparr>"

section \<open>Requests built through the public interface\<close>

inductive built_command :: "command_spec \<Rightarrow> bool" where
  new: "command_new program = Inr c \<Longrightarrow> built_command c"
| arg: "built_command c \<Longrightarrow> with_arg c a = Inr c' \<Longrightarrow> built_command c'"
| args: "built_command c \<Longrightarrow> with_args c as = Inr c' \<Longrightarrow> built_command c'"

inductive built_request :: "unicode_data \<Rightarrow> wild_matcher \<Rightarrow> command_request \<Rightarrow> bool" for U wild where
  new: "built_command c \<Longrightarrow> built_request U wild (request_new c)"
| directory: "built_request U wild r \<Longrightarrow> with_working_directory r path = Inr r' \<Longrightarrow> built_request U wild r'"
| no_directory: "built_request U wild r \<Longrightarrow> built_request U wild (without_working_directory r)"
| environment: "built_request U wild r \<Longrightarrow> built_environment U wild s \<Longrightarrow> built_request U wild (with_environment r s)"
| stdio: "built_request U wild r \<Longrightarrow> built_request U wild (with_stdio r io)"
| timeout: "built_request U wild r \<Longrightarrow> built_request U wild (with_timeout_policy r t)"

definition safe_text :: "string \<Rightarrow> bool" where
  "safe_text s \<longleftrightarrow> CHR 0x00 \<notin> set s"

definition valid_command :: "command_spec \<Rightarrow> bool" where
  "valid_command c \<longleftrightarrow> cmd_program c \<noteq> [] \<and> list_all safe_text (cmd_program c # cmd_args c)"

lemma with_arg_Inr:
  "with_arg c a = Inr c' \<longleftrightarrow> safe_text a \<and> c' = c\<lparr>cmd_args := cmd_args c @ [a]\<rparr>"
  by (auto simp: with_arg_def validate_argument_def os_contains_nul_def safe_text_def)

lemma with_args_Inr:
  "with_args c as = Inr c' \<longleftrightarrow> list_all safe_text as \<and> c' = c\<lparr>cmd_args := cmd_args c @ as\<rparr>"
  unfolding with_args_def by (induction as arbitrary: c) (auto simp: and_then_eq_Inr with_arg_Inr)

lemma built_command_valid: "built_command c \<Longrightarrow> valid_command c"
  by (induction rule: built_command.induct)
    (auto simp: command_new_def validate_program_def os_contains_nul_def and_then_eq_Inr valid_command_def
      safe_text_def with_arg_Inr with_args_Inr list_all_iff split: if_splits)

text \<open>The texts an environment specification hands to a process.\<close>

definition valid_override :: "string \<times> environment_override \<Rightarrow> bool" where
  "valid_override e \<longleftrightarrow>
     fst e \<noteq> [] \<and> safe_text (fst e) \<and> CHR ''='' \<notin> set (fst e) \<and>
     (case snd e of SetVar v \<Rightarrow> safe_text v | RemoveVar \<Rightarrow> True)"

lemma validate_name_Inr:
  "validate_name n = Inr () \<longleftrightarrow> n \<noteq> [] \<and> safe_text n \<and> CHR ''='' \<notin> set n"
  using ascii_in_lossy [of "CHR ''=''" n]
  by (auto simp: validate_name_def os_contains_nul_def safe_text_def is_ascii_def)

lemma with_override_valid:
  assumes "wf_environment U s" and "\<forall>e \<in> set (env_overrides s). valid_override e" and "valid_override (n, a)"
  shows "\<forall>e \<in> set (env_overrides (with_override U s n a)). valid_override e"
proof -
  have agree: "names_agree U (env_overrides s, env_override_names s)" using assms(1) by (simp add: wf_environment_def)
  have "set (env_overrides (with_override U s n a)) \<subseteq> insert (n, a) (set (env_overrides s))"
    using set_environment_name_facts(1) [OF agree, of n a] set_remove_environment_name [OF agree, of n]
    by (auto simp: with_override_def case_prod_beta)
  with assms(2,3) show ?thesis by blast
qed

lemma built_environment_valid:
  "built_environment U wild s \<Longrightarrow> \<forall>e \<in> set (env_overrides s). valid_override e"
proof (induction rule: built_environment.induct)
  case (var s n v s')
  then have "validate_name n = Inr ()" "safe_text v" "s' = with_override U s n (SetVar v)"
    by (auto simp: with_var_def and_then_eq_Inr os_contains_nul_def safe_text_def split: if_splits)
  with var show ?case
    using with_override_valid [OF built_environment_wf, of U wild s n "SetVar v"]
    by (simp add: validate_name_Inr valid_override_def)
next
  case (removal s n s')
  then have "validate_name n = Inr ()" "s' = with_override U s n RemoveVar"
    by (auto simp: without_var_def and_then_eq_Inr)
  with removal show ?case
    using with_override_valid [OF built_environment_wf, of U wild s n RemoveVar]
    by (simp add: validate_name_Inr valid_override_def)
next
  case (filter s pattern action s')
  then show ?case by (auto simp: with_filter_def and_then_eq_Inr)
qed (simp_all add: inherit_all_def spec_empty_def inherit_core_def)

section \<open>Properties\<close>

text \<open>C34: Every request built through the public interface is well formed when it reaches a backend:
  a non-empty program, no NUL byte in the program, an argument, the working directory or an
  environment assignment, no parent traversal in the working directory, and environment names that
  are non-empty and free of \<open>=\<close>.\<close>

theorem built_request_well_formed:
  assumes "built_request U wild r"
  shows "valid_command (req_command r) \<and>
     (case req_working_directory r of None \<Rightarrow> True
      | Some d \<Rightarrow> d \<noteq> [] \<and> safe_text d \<and> \<not> contains_parent_traversal d) \<and>
     list_all valid_override (env_overrides (req_environment r)) \<and> wf_environment U (req_environment r)"
  using assms
proof (induction rule: built_request.induct)
  case (new c)
  have "built_environment U wild inherit_core" by (rule built_environment.inherit_core)
  from built_environment_valid [OF this] built_environment_wf [OF this] built_command_valid [OF new] show ?case
    by (simp add: request_new_def list_all_iff)
next
  case (directory r path r')
  then show ?case
    by (auto simp: with_working_directory_def os_contains_nul_def safe_text_def split: if_splits)
next
  case (environment r s)
  then show ?case
    using built_environment_valid built_environment_wf by (auto simp: with_environment_def list_all_iff)
qed (auto simp: without_working_directory_def with_stdio_def with_timeout_policy_def)

theorem built_request_well_formed_witness:
  "\<exists>c r. command_new ''/bin/sh'' = Inr c \<and> with_working_directory (request_new c) ''work'' = Inr r \<and>
     valid_command (req_command r) \<and> \<not> contains_parent_traversal ''work''"
proof -
  let ?c = "\<lparr>cmd_program = ''/bin/sh'', cmd_args = []\<rparr>"
  have c: "command_new ''/bin/sh'' = Inr ?c" by code_simp
  have d: "with_working_directory (request_new ?c) ''work'' = Inr ((request_new ?c)\<lparr>req_working_directory := Some ''work''\<rparr>)"
    (is "_ = Inr ?r")
  proof -
    have "\<not> contains_parent_traversal ''work''" by code_simp
    then show ?thesis by (simp add: with_working_directory_def os_contains_nul_def)
  qed
  have "built_request ascii_tables example_wild ?r"
    by (rule built_request.directory [OF built_request.new [OF built_command.new [OF c]] d])
  from built_request_well_formed [OF this] c d show ?thesis by simp
qed

end
