(* ===== verification/Backend_Api.thy ===== *)
theory Backend_Api
  imports Composition Command
begin

text \<open>
  The contract between portable requests and native backends (\<open>cageforge-backend-api/src\<close>): the
  capabilities a request needs, preflight against a backend, and the prepared handoff whose accessors
  check the backend again. A backend is its identity (the address of an \<open>Arc\<close>, a number) and the
  capabilities it advertises; \<open>prepare\<close> and \<open>spawn\<close> of a native backend are arguments of \<open>launch\<close>.
\<close>

section \<open>Types (model.rs)\<close>

datatype backend_capability =
    CapCommandExecution | CapWorkingDirectory | CapStdioInherit | CapStdioNull | CapStdioPipe
  | CapTimeoutBackendDefault | CapTimeoutLimit | CapTimeoutDisabled
  | CapFilesystemRestricted | CapFilesystemUnrestricted | CapFilesystemExternal | CapFilesystemScopes
  | CapFilesystemExecutableMapping | CapFilesystemAbsoluteScopes | CapFilesystemWorkspaceScopes
  | CapFilesystemRootScopes | CapFilesystemMinimalScopes | CapFilesystemTmpdirScopes
  | CapFilesystemConventionalTemporaryScopes | CapFilesystemGlobs | CapFilesystemGlobScanDepth
  | CapFilesystemReadOnlySubpaths | CapFilesystemMissingPathBehavior | CapFilesystemProtectedPaths
  | CapNetworkDisabled | CapNetworkEnabled | CapNetworkExternal | CapNetworkDomainRules
  | CapNetworkLocalAddressRestrictions | CapNetworkResolvedTargets | CapNetworkLocalIpcIsolation
  | CapNetworkLocalIpcRules | CapNetworkLocalIpcDenyRules | CapNetworkWindowsNamedPipeRules
  | CapEnvironmentAll | CapEnvironmentCore | CapEnvironmentNone | CapEnvironmentFilters | CapEnvironmentOverrides

text \<open>The derived order: the declaration order, in which a \<open>BTreeSet\<close> is iterated.\<close>

definition all_capabilities :: "backend_capability list" where
  "all_capabilities =
     [CapCommandExecution, CapWorkingDirectory, CapStdioInherit, CapStdioNull, CapStdioPipe,
      CapTimeoutBackendDefault, CapTimeoutLimit, CapTimeoutDisabled,
      CapFilesystemRestricted, CapFilesystemUnrestricted, CapFilesystemExternal, CapFilesystemScopes,
      CapFilesystemExecutableMapping, CapFilesystemAbsoluteScopes, CapFilesystemWorkspaceScopes,
      CapFilesystemRootScopes, CapFilesystemMinimalScopes, CapFilesystemTmpdirScopes,
      CapFilesystemConventionalTemporaryScopes, CapFilesystemGlobs, CapFilesystemGlobScanDepth,
      CapFilesystemReadOnlySubpaths, CapFilesystemMissingPathBehavior, CapFilesystemProtectedPaths,
      CapNetworkDisabled, CapNetworkEnabled, CapNetworkExternal, CapNetworkDomainRules,
      CapNetworkLocalAddressRestrictions, CapNetworkResolvedTargets, CapNetworkLocalIpcIsolation,
      CapNetworkLocalIpcRules, CapNetworkLocalIpcDenyRules, CapNetworkWindowsNamedPipeRules,
      CapEnvironmentAll, CapEnvironmentCore, CapEnvironmentNone, CapEnvironmentFilters, CapEnvironmentOverrides]"

text \<open>The display text of each capability (capability.rs).\<close>

fun capability_description :: "backend_capability \<Rightarrow> string" where
  "capability_description CapCommandExecution = ''command execution''"
| "capability_description CapWorkingDirectory = ''working-directory resolution''"
| "capability_description CapStdioInherit = ''inherited standard streams''"
| "capability_description CapStdioNull = ''null standard streams''"
| "capability_description CapStdioPipe = ''piped standard streams''"
| "capability_description CapTimeoutBackendDefault = ''backend-default timeout''"
| "capability_description CapTimeoutLimit = ''explicit timeout limits''"
| "capability_description CapTimeoutDisabled = ''disabled automatic timeouts''"
| "capability_description CapFilesystemRestricted = ''restricted filesystem enforcement''"
| "capability_description CapFilesystemUnrestricted = ''unrestricted filesystem execution''"
| "capability_description CapFilesystemExternal = ''external filesystem enforcement''"
| "capability_description CapFilesystemScopes = ''filesystem scope resolution, including workspace roots''"
| "capability_description CapFilesystemExecutableMapping = ''validated executable runtime-root mapping''"
| "capability_description CapFilesystemAbsoluteScopes = ''absolute filesystem scope resolution''"
| "capability_description CapFilesystemWorkspaceScopes = ''workspace-root filesystem scope resolution''"
| "capability_description CapFilesystemRootScopes = ''system-root filesystem scope resolution''"
| "capability_description CapFilesystemMinimalScopes = ''platform-minimal filesystem scope resolution''"
| "capability_description CapFilesystemTmpdirScopes = ''temporary-directory filesystem scope resolution''"
| "capability_description CapFilesystemConventionalTemporaryScopes = ''conventional temporary filesystem scope resolution''"
| "capability_description CapFilesystemGlobs = ''filesystem deny-glob matching''"
| "capability_description CapFilesystemGlobScanDepth = ''filesystem glob scan-depth semantics, including unbounded scans''"
| "capability_description CapFilesystemReadOnlySubpaths = ''filesystem read-only subpaths''"
| "capability_description CapFilesystemMissingPathBehavior = ''filesystem missing-path behavior (error or skip)''"
| "capability_description CapFilesystemProtectedPaths = ''filesystem protected paths such as .git''"
| "capability_description CapNetworkDisabled = ''disabled network enforcement''"
| "capability_description CapNetworkEnabled = ''local network enforcement''"
| "capability_description CapNetworkExternal = ''external network enforcement''"
| "capability_description CapNetworkDomainRules = ''network domain rules''"
| "capability_description CapNetworkLocalAddressRestrictions = ''network non-public and special-purpose address restrictions''"
| "capability_description CapNetworkResolvedTargets = ''exact resolved network targets''"
| "capability_description CapNetworkLocalIpcIsolation = ''pathname local-IPC isolation''"
| "capability_description CapNetworkLocalIpcRules = ''per-path local-IPC allow rules''"
| "capability_description CapNetworkLocalIpcDenyRules = ''explicit local-IPC deny rules''"
| "capability_description CapNetworkWindowsNamedPipeRules = ''Windows named-pipe local-IPC rules''"
| "capability_description CapEnvironmentAll = ''all inherited environment variables''"
| "capability_description CapEnvironmentCore = ''backend-selected core environment variables''"
| "capability_description CapEnvironmentNone = ''an empty inherited environment''"
| "capability_description CapEnvironmentFilters = ''environment include and exclude filters''"
| "capability_description CapEnvironmentOverrides = ''environment set and remove overrides''"

type_synonym backend_capabilities = "backend_capability set"
type_synonym backend_identity = nat

datatype backend_contract_error =
    UnsupportedCapability backend_capability
  | CommandEnvironmentMismatch
  | InvalidRuntimeContext composition_error
  | EnvironmentPreparation composition_error
  | FilesystemEvaluation composition_error
  | WorkingDirectoryDenied string
  | WorkingDirectoryResolution string
  | MissingRuntimeCurrentDirectory
  | NetworkEvaluation composition_error
  | BackendIdentityMismatch
  | BackendCapabilitiesMismatch

record backend_request =
  br_command :: command_request
  br_sandbox :: effective_sandbox

record sandbox_backend =
  sb_identity :: backend_identity
  sb_capabilities :: backend_capabilities

record prepared_backend_request =
  prep_request :: backend_request
  prep_path_context :: effective_path_context
  prep_working_directory :: string
  prep_capabilities :: backend_capabilities
  prep_backend_identity :: backend_identity

section \<open>Required capabilities (requirements.rs)\<close>

definition add_when :: "bool \<Rightarrow> backend_capability \<Rightarrow> backend_capabilities \<Rightarrow> backend_capabilities" where
  "add_when b c required = (if b then insert c required else required)"

fun stdio_capability :: "stdio_mode \<Rightarrow> backend_capability" where
  "stdio_capability StdioInherit = CapStdioInherit"
| "stdio_capability StdioNull = CapStdioNull"
| "stdio_capability StdioPipe = CapStdioPipe"

fun timeout_capability :: "timeout_policy \<Rightarrow> backend_capability" where
  "timeout_capability BackendDefault = CapTimeoutBackendDefault"
| "timeout_capability (Limit _) = CapTimeoutLimit"
| "timeout_capability TimeoutDisabled = CapTimeoutDisabled"

definition add_command_capabilities :: "backend_capabilities \<Rightarrow> command_request \<Rightarrow> backend_capabilities" where
  "add_command_capabilities required command =
     (let required = insert CapWorkingDirectory required;
          required = foldl (\<lambda>acc mode. insert (stdio_capability mode) acc) required
            [stdio_stdin (req_stdio command), stdio_stdout (req_stdio command), stdio_stderr (req_stdio command)]
      in insert (timeout_capability (req_timeout command)) required)"

fun filesystem_mode_capability :: "filesystem_mode \<Rightarrow> backend_capability" where
  "filesystem_mode_capability FsRestricted = CapFilesystemRestricted"
| "filesystem_mode_capability FsUnrestricted = CapFilesystemUnrestricted"
| "filesystem_mode_capability FsExternal = CapFilesystemExternal"

definition add_filesystem_capabilities :: "backend_capabilities \<Rightarrow> effective_sandbox \<Rightarrow> backend_capabilities" where
  "add_filesystem_capabilities required sandbox =
     (let req = filesystem_requirements (es_filesystem sandbox);
          required = insert (filesystem_mode_capability (fsr_mode req)) required;
          rooted = (es_workspace_roots sandbox \<noteq> None \<or> es_workspace_root_limit sandbox \<noteq> None);
          required = add_when rooted CapFilesystemWorkspaceScopes (add_when rooted CapFilesystemScopes required)
      in if fsr_mode req \<noteq> FsRestricted then required
         else
           (let required = add_when (fsr_glob_scan_depth req) CapFilesystemGlobScanDepth required;
                required = add_when (fsr_protected_paths req) CapFilesystemProtectedPaths required;
                required = add_when (fsr_scopes req) CapFilesystemScopes required;
                required = add_when (fsr_absolute_scopes req) CapFilesystemAbsoluteScopes required;
                required = add_when (fsr_workspace_scopes req \<or> es_workspace_roots sandbox \<noteq> None) CapFilesystemWorkspaceScopes required;
                required = add_when (fsr_root_scopes req) CapFilesystemRootScopes required;
                required = add_when (fsr_minimal_scopes req) CapFilesystemMinimalScopes required;
                required = add_when (fsr_tmpdir_scopes req) CapFilesystemTmpdirScopes required;
                required = add_when (fsr_conventional_temporary_scopes req) CapFilesystemConventionalTemporaryScopes required;
                required = add_when (fsr_globs req) CapFilesystemGlobs required;
                required = add_when (fsr_read_only_subpaths req) CapFilesystemReadOnlySubpaths required
            in add_when (fsr_missing_path_behavior req) CapFilesystemMissingPathBehavior required))"

fun network_mode_capability :: "network_mode \<Rightarrow> backend_capability" where
  "network_mode_capability NetDisabled = CapNetworkDisabled"
| "network_mode_capability NetEnabled = CapNetworkEnabled"
| "network_mode_capability NetExternal = CapNetworkExternal"

definition add_network_capabilities :: "backend_capabilities \<Rightarrow> effective_sandbox \<Rightarrow> backend_capabilities" where
  "add_network_capabilities required sandbox =
     (let req = network_requirements (es_network sandbox);
          required = insert (network_mode_capability (nr_mode req)) required;
          required = add_when (nr_windows_named_pipe_rules req) CapNetworkWindowsNamedPipeRules required
      in if nr_mode req \<noteq> NetEnabled then required
         else
           (let required = add_when (nr_resolved_targets req) CapNetworkResolvedTargets required;
                required = add_when (nr_domain_rules req) CapNetworkDomainRules required;
                required = add_when (nr_local_address_restrictions req) CapNetworkLocalAddressRestrictions required;
                required = add_when (nr_local_ipc_isolation req) CapNetworkLocalIpcIsolation required;
                required = add_when (nr_local_ipc_rules req) CapNetworkLocalIpcRules required
            in add_when (nr_local_ipc_deny_rules req) CapNetworkLocalIpcDenyRules required))"

fun environment_base_capability :: "environment_base \<Rightarrow> backend_capability" where
  "environment_base_capability EnvAll = CapEnvironmentAll"
| "environment_base_capability EnvCore = CapEnvironmentCore"
| "environment_base_capability EnvNone = CapEnvironmentNone"

definition add_environment_capabilities :: "backend_capabilities \<Rightarrow> effective_sandbox \<Rightarrow> backend_capabilities" where
  "add_environment_capabilities required sandbox =
     (let req = environment_requirements (es_environment sandbox);
          required = insert (environment_base_capability (er_base req)) required;
          required = add_when (er_filters req) CapEnvironmentFilters required
      in add_when (er_overrides req) CapEnvironmentOverrides required)"

section \<open>Preflight (lib.rs)\<close>

definition capabilities_from :: "backend_capability list \<Rightarrow> backend_capabilities" where
  "capabilities_from = set"

definition required_capabilities :: "backend_request \<Rightarrow> backend_capabilities" where
  "required_capabilities r =
     (let required = insert CapCommandExecution {};
          required = add_command_capabilities required (br_command r);
          required = add_filesystem_capabilities required (br_sandbox r);
          required = add_network_capabilities required (br_sandbox r)
      in add_environment_capabilities required (br_sandbox r))"

definition iter_capabilities :: "backend_capabilities \<Rightarrow> backend_capability list" where
  "iter_capabilities cs = filter (\<lambda>c. c \<in> cs) all_capabilities"

definition check_capability ::
  "backend_capabilities \<Rightarrow> unit \<Rightarrow> backend_capability \<Rightarrow> (backend_contract_error, unit) rust_result" where
  "check_capability capabilities _ c = (if c \<notin> capabilities then Inl (UnsupportedCapability c) else Inr ())"

definition resolve_working_directory ::
  "string option \<Rightarrow> path_context \<Rightarrow> (backend_contract_error, string) rust_result" where
  "resolve_working_directory working_directory base =
     (case working_directory of
        Some path \<Rightarrow>
          if is_absolute path then Inr (normalize_lexical_path path)
          else (case current_directory base of
                  None \<Rightarrow> Inl (WorkingDirectoryResolution path)
                | Some cur \<Rightarrow> Inr (normalize_lexical_path (path_join cur path)))
      | None \<Rightarrow>
          (case current_directory base of
             None \<Rightarrow> Inl MissingRuntimeCurrentDirectory
           | Some cur \<Rightarrow> Inr (normalize_lexical_path cur)))"

definition backend_validate ::
  "backend_request \<Rightarrow> backend_capabilities \<Rightarrow> backend_identity \<Rightarrow> path_context
     \<Rightarrow> (backend_contract_error, prepared_backend_request) rust_result" where
  "backend_validate r capabilities ident base =
     (if \<not> requested_matches (es_environment (br_sandbox r)) (req_environment (br_command r))
      then Inl CommandEnvironmentMismatch
      else
        and_then (try_fold (check_capability capabilities) () (iter_capabilities (required_capabilities r))) (\<lambda>_.
        and_then (map_err InvalidRuntimeContext (effective_path_context_of (br_sandbox r) base)) (\<lambda>path_context.
        if executable_roots (epc_context path_context) \<noteq> [] \<and> CapFilesystemExecutableMapping \<notin> capabilities
        then Inl (UnsupportedCapability CapFilesystemExecutableMapping)
        else
        and_then (resolve_working_directory (req_working_directory (br_command r)) base) (\<lambda>working_directory.
        and_then (map_err FilesystemEvaluation
            (effective_access_for_path (es_filesystem (br_sandbox r)) working_directory path_context)) (\<lambda>decision.
        if decision = FsDeny then Inl (WorkingDirectoryDenied working_directory)
        else Inr \<lparr>prep_request = r, prep_path_context = path_context, prep_working_directory = working_directory,
                  prep_capabilities = capabilities, prep_backend_identity = ident\<rparr>)))))"

definition prepare_for ::
  "backend_request \<Rightarrow> sandbox_backend \<Rightarrow> path_context \<Rightarrow> (backend_contract_error, prepared_backend_request) rust_result" where
  "prepare_for r backend base = backend_validate r (sb_capabilities backend) (sb_identity backend) base"

section \<open>The prepared handoff (lib.rs)\<close>

definition ensure_backend :: "prepared_backend_request \<Rightarrow> sandbox_backend \<Rightarrow> (backend_contract_error, unit) rust_result" where
  "ensure_backend p backend =
     (if prep_backend_identity p \<noteq> sb_identity backend then Inl BackendIdentityMismatch
      else if prep_capabilities p \<noteq> sb_capabilities backend then Inl BackendCapabilitiesMismatch
      else Inr ())"

definition guarded ::
  "prepared_backend_request \<Rightarrow> sandbox_backend \<Rightarrow> (unit \<Rightarrow> (backend_contract_error, 'a) rust_result) \<Rightarrow> (backend_contract_error, 'a) rust_result" where
  "guarded p backend f = and_then (ensure_backend p backend) f"

definition prepared_command_spec :: "prepared_backend_request \<Rightarrow> sandbox_backend \<Rightarrow> (backend_contract_error, command_spec) rust_result" where
  "prepared_command_spec p backend = guarded p backend (\<lambda>_. Inr (req_command (br_command (prep_request p))))"

definition prepared_sandbox :: "prepared_backend_request \<Rightarrow> sandbox_backend \<Rightarrow> (backend_contract_error, effective_sandbox) rust_result" where
  "prepared_sandbox p backend = guarded p backend (\<lambda>_. Inr (br_sandbox (prep_request p)))"

definition prepared_filesystem_lowering ::
  "prepared_backend_request \<Rightarrow> sandbox_backend \<Rightarrow> (backend_contract_error, filesystem_lowering) rust_result" where
  "prepared_filesystem_lowering p backend =
     guarded p backend (\<lambda>_. Inr (effective_filesystem_lowering (es_filesystem (br_sandbox (prep_request p)))))"

definition prepared_network_lowering ::
  "prepared_backend_request \<Rightarrow> sandbox_backend \<Rightarrow> (backend_contract_error, network_policy list) rust_result" where
  "prepared_network_lowering p backend =
     guarded p backend (\<lambda>_. Inr (effective_network_lowering (es_network (br_sandbox (prep_request p)))))"

definition prepared_path_context ::
  "prepared_backend_request \<Rightarrow> sandbox_backend \<Rightarrow> (backend_contract_error, effective_path_context) rust_result" where
  "prepared_path_context p backend = guarded p backend (\<lambda>_. Inr (prep_path_context p))"

definition prepared_working_directory :: "prepared_backend_request \<Rightarrow> sandbox_backend \<Rightarrow> (backend_contract_error, string) rust_result" where
  "prepared_working_directory p backend = guarded p backend (\<lambda>_. Inr (prep_working_directory p))"

definition prepared_stdio :: "prepared_backend_request \<Rightarrow> sandbox_backend \<Rightarrow> (backend_contract_error, stdio_spec) rust_result" where
  "prepared_stdio p backend = guarded p backend (\<lambda>_. Inr (req_stdio (br_command (prep_request p))))"

definition prepared_timeout_policy :: "prepared_backend_request \<Rightarrow> sandbox_backend \<Rightarrow> (backend_contract_error, timeout_policy) rust_result" where
  "prepared_timeout_policy p backend = guarded p backend (\<lambda>_. Inr (req_timeout (br_command (prep_request p))))"

definition prepared_apply_environment ::
  "unicode_data \<Rightarrow> prepared_backend_request \<Rightarrow> sandbox_backend \<Rightarrow> environment_input
     \<Rightarrow> (backend_contract_error, (string \<times> string) list) rust_result" where
  "prepared_apply_environment U p backend input =
     guarded p backend (\<lambda>_. map_err EnvironmentPreparation (effective_apply_to U (es_environment (br_sandbox (prep_request p))) input))"

definition prepared_access_for_path ::
  "prepared_backend_request \<Rightarrow> sandbox_backend \<Rightarrow> string \<Rightarrow> (backend_contract_error, filesystem_decision) rust_result" where
  "prepared_access_for_path p backend path =
     guarded p backend (\<lambda>_. map_err FilesystemEvaluation
       (effective_access_for_path (es_filesystem (br_sandbox (prep_request p))) path (prep_path_context p)))"

definition prepared_access_for ::
  "prepared_backend_request \<Rightarrow> sandbox_backend \<Rightarrow> path_selector \<Rightarrow> (backend_contract_error, filesystem_decision) rust_result" where
  "prepared_access_for p backend selector =
     guarded p backend (\<lambda>_. map_err FilesystemEvaluation
       (effective_access_for (es_filesystem (br_sandbox (prep_request p))) selector (prep_path_context p)))"

definition prepared_decision_with_ips ::
  "unicode_data \<Rightarrow> prepared_backend_request \<Rightarrow> sandbox_backend \<Rightarrow> string \<Rightarrow> ip_addr list
     \<Rightarrow> (backend_contract_error, network_decision) rust_result" where
  "prepared_decision_with_ips U p backend domain ips =
     guarded p backend (\<lambda>_. map_err NetworkEvaluation
       (effective_decision_with_ips U (es_network (br_sandbox (prep_request p))) domain ips))"

definition prepared_authorize_connection ::
  "unicode_data \<Rightarrow> prepared_backend_request \<Rightarrow> sandbox_backend \<Rightarrow> resolved_target \<Rightarrow> socket_addr
     \<Rightarrow> (backend_contract_error, connection_authorization) rust_result" where
  "prepared_authorize_connection U p backend t connected =
     guarded p backend (\<lambda>_. map_err NetworkEvaluation
       (effective_authorize_connection U (es_network (br_sandbox (prep_request p))) t connected))"

definition prepared_decision_for_unix_socket ::
  "prepared_backend_request \<Rightarrow> sandbox_backend \<Rightarrow> string \<Rightarrow> (backend_contract_error, network_decision) rust_result" where
  "prepared_decision_for_unix_socket p backend socket =
     guarded p backend (\<lambda>_. map_err NetworkEvaluation
       (effective_decision_for_unix_socket (es_network (br_sandbox (prep_request p))) socket))"

section \<open>Launching (execution.rs)\<close>

datatype 'e sandbox_execution_error = PrepareFailed 'e | SpawnFailed 'e | TryWaitFailed 'e | WaitFailed 'e | KillFailed 'e

definition launch ::
  "('r \<Rightarrow> 'c \<Rightarrow> ('e, 'p) rust_result) \<Rightarrow> ('p \<Rightarrow> ('e, 'child) rust_result) \<Rightarrow> 'r \<Rightarrow> 'c
     \<Rightarrow> ('e sandbox_execution_error, 'child) rust_result" where
  "launch prepare spawn request context =
     and_then (map_err PrepareFailed (prepare request context)) (\<lambda>prepared. map_err SpawnFailed (spawn prepared))"

definition erased_try_wait :: "('c \<Rightarrow> ('e, 'status option) rust_result) \<Rightarrow> 'c \<Rightarrow> ('e sandbox_execution_error, 'status option) rust_result" where
  "erased_try_wait try_wait child = map_err TryWaitFailed (try_wait child)"

definition erased_wait :: "('c \<Rightarrow> ('e, 'status) rust_result) \<Rightarrow> 'c \<Rightarrow> ('e sandbox_execution_error, 'status) rust_result" where
  "erased_wait wait child = map_err WaitFailed (wait child)"

definition erased_kill :: "('c \<Rightarrow> ('e, unit) rust_result) \<Rightarrow> 'c \<Rightarrow> ('e sandbox_execution_error, unit) rust_result" where
  "erased_kill kill child = map_err KillFailed (kill child)"

section \<open>Facts about capability sets\<close>

lemma in_all_capabilities: "c \<in> set all_capabilities"
  by (cases c) (simp_all add: all_capabilities_def)

lemma distinct_all_capabilities: "distinct all_capabilities"
  by code_simp

lemma capability_description_inj: "inj capability_description"
proof -
  have "distinct (map capability_description all_capabilities)" by code_simp
  moreover have "set all_capabilities = UNIV" by (auto simp: in_all_capabilities)
  ultimately show ?thesis by (metis distinct_map)
qed

lemma set_iter_capabilities [simp]: "set (iter_capabilities cs) = cs"
  by (auto simp: iter_capabilities_def in_all_capabilities)

lemma check_capabilities_Inr: "try_fold (check_capability caps) u cs = Inr v \<longleftrightarrow> set cs \<subseteq> caps"
  by (induction cs arbitrary: u) (auto simp: check_capability_def)

lemma in_add_when [simp]: "c \<in> add_when b d s \<longleftrightarrow> b \<and> c = d \<or> c \<in> s"
  by (simp add: add_when_def)

lemma check_capabilities_Inl:
  "try_fold (check_capability caps) u cs = Inl e \<longleftrightarrow>
     (\<exists>before c after. cs = before @ c # after \<and> set before \<subseteq> caps \<and> c \<notin> caps \<and> e = UnsupportedCapability c)"
proof (induction cs arbitrary: u)
  case (Cons d cs)
  show ?case
  proof (cases "d \<in> caps")
    case True
    then have "try_fold (check_capability caps) u (d # cs) = try_fold (check_capability caps) () cs"
      by (simp add: check_capability_def)
    with Cons.IH True show ?thesis by (auto simp: Cons_eq_append_conv) (metis insert_subset list.simps(15))+
  next
    case False
    then show ?thesis by (auto simp: check_capability_def Cons_eq_append_conv intro: exI [of _ "[]"])
  qed
qed simp

lemmas requirement_defs =
  required_capabilities_def add_command_capabilities_def add_filesystem_capabilities_def
  add_network_capabilities_def add_environment_capabilities_def Let_def

lemma required_needs:
  "CapCommandExecution \<in> required_capabilities r" "CapWorkingDirectory \<in> required_capabilities r"
  "timeout_capability (req_timeout (br_command r)) \<in> required_capabilities r"
  "filesystem_mode_capability (fsr_mode (filesystem_requirements (es_filesystem (br_sandbox r)))) \<in> required_capabilities r"
  "network_mode_capability (nr_mode (network_requirements (es_network (br_sandbox r)))) \<in> required_capabilities r"
  "environment_base_capability (effective_base (es_environment (br_sandbox r))) \<in> required_capabilities r"
  by (simp_all add: requirement_defs environment_requirements_def)

lemma required_needs_filesystem:
  assumes "fsr_mode (filesystem_requirements (es_filesystem (br_sandbox r))) = FsRestricted"
  shows "fsr_globs (filesystem_requirements (es_filesystem (br_sandbox r))) \<Longrightarrow> CapFilesystemGlobs \<in> required_capabilities r"
    and "fsr_read_only_subpaths (filesystem_requirements (es_filesystem (br_sandbox r))) \<Longrightarrow>
      CapFilesystemReadOnlySubpaths \<in> required_capabilities r"
    and "fsr_protected_paths (filesystem_requirements (es_filesystem (br_sandbox r))) \<Longrightarrow>
      CapFilesystemProtectedPaths \<in> required_capabilities r"
  using assms by (simp_all add: requirement_defs)

lemma required_needs_network:
  assumes "nr_mode (network_requirements (es_network (br_sandbox r))) = NetEnabled"
  shows "nr_domain_rules (network_requirements (es_network (br_sandbox r))) \<Longrightarrow> CapNetworkDomainRules \<in> required_capabilities r"
    and "nr_local_ipc_isolation (network_requirements (es_network (br_sandbox r))) \<Longrightarrow>
      CapNetworkLocalIpcIsolation \<in> required_capabilities r"
    and "nr_local_ipc_rules (network_requirements (es_network (br_sandbox r))) \<Longrightarrow> CapNetworkLocalIpcRules \<in> required_capabilities r"
    and "nr_local_ipc_deny_rules (network_requirements (es_network (br_sandbox r))) \<Longrightarrow>
      CapNetworkLocalIpcDenyRules \<in> required_capabilities r"
  using assms by (simp_all add: requirement_defs)

lemma required_needs_environment:
  "er_filters (environment_requirements (es_environment (br_sandbox r))) \<Longrightarrow> CapEnvironmentFilters \<in> required_capabilities r"
  "er_overrides (environment_requirements (es_environment (br_sandbox r))) \<Longrightarrow> CapEnvironmentOverrides \<in> required_capabilities r"
  by (simp_all add: requirement_defs)

section \<open>What a request uses\<close>

text \<open>What a request uses of each capability, read off its two policies, its command and the context it runs in
  and not off the requirement records of the composition.\<close>

definition request_restricted :: "backend_request \<Rightarrow> bool" where
  "request_restricted r \<longleftrightarrow>
     \<not> list_all (\<lambda>p. fs_mode p = FsExternal) [ef_requested (es_filesystem (br_sandbox r)), ef_ceiling (es_filesystem (br_sandbox r))] \<and>
     \<not> list_all (\<lambda>p. fs_mode p = FsUnrestricted) [ef_requested (es_filesystem (br_sandbox r)), ef_ceiling (es_filesystem (br_sandbox r))]"

definition request_rules :: "backend_request \<Rightarrow> filesystem_rule list" where
  "request_rules r =
     (if request_restricted r
      then fs_entries (ef_requested (es_filesystem (br_sandbox r))) @ fs_entries (ef_ceiling (es_filesystem (br_sandbox r))) else [])"

definition request_networks :: "backend_request \<Rightarrow> network_policy list" where
  "request_networks r = [en_requested (es_network (br_sandbox r)), en_ceiling (es_network (br_sandbox r))]"

definition request_networking :: "backend_request \<Rightarrow> bool" where
  "request_networking r \<longleftrightarrow> list_all (\<lambda>p. net_mode p = NetEnabled) (request_networks r)"

definition request_environments :: "backend_request \<Rightarrow> environment_spec list" where
  "request_environments r = [ee_requested (es_environment (br_sandbox r)), ee_ceiling (es_environment (br_sandbox r))]"

definition request_streams :: "backend_request \<Rightarrow> stdio_mode list" where
  "request_streams r = [stdio_stdin (req_stdio (br_command r)), stdio_stdout (req_stdio (br_command r)), stdio_stderr (req_stdio (br_command r))]"

definition request_rooted :: "backend_request \<Rightarrow> bool" where
  "request_rooted r \<longleftrightarrow> es_workspace_roots (br_sandbox r) \<noteq> None \<or> es_workspace_root_limit (br_sandbox r) \<noteq> None"

definition selects :: "backend_request \<Rightarrow> (path_selector \<Rightarrow> bool) \<Rightarrow> bool" where
  "selects r P \<longleftrightarrow> list_ex (\<lambda>rule. list_ex P (rule_selectors rule)) (request_rules r)"

fun sockets_closed :: "network_policy \<Rightarrow> bool" where
  "sockets_closed p \<longleftrightarrow> net_unix_socket_mode p = SocketsDisabled
     \<or> net_unix_socket_mode p = SocketsRestricted \<and> list_all (\<lambda>s. sock_access s = DomDeny) (net_unix_sockets p)"

fun request_uses :: "backend_request \<Rightarrow> path_context \<Rightarrow> backend_capability \<Rightarrow> bool" where
  "request_uses r c CapCommandExecution = True"
| "request_uses r c CapWorkingDirectory = True"
| "request_uses r c CapStdioInherit = (StdioInherit \<in> set (request_streams r))"
| "request_uses r c CapStdioNull = (StdioNull \<in> set (request_streams r))"
| "request_uses r c CapStdioPipe = (StdioPipe \<in> set (request_streams r))"
| "request_uses r c CapTimeoutBackendDefault = (req_timeout (br_command r) = BackendDefault)"
| "request_uses r c CapTimeoutLimit = (req_timeout (br_command r) \<notin> {BackendDefault, TimeoutDisabled})"
| "request_uses r c CapTimeoutDisabled = (req_timeout (br_command r) = TimeoutDisabled)"
| "request_uses r c CapFilesystemRestricted = request_restricted r"
| "request_uses r c CapFilesystemUnrestricted =
     (fs_mode (ef_requested (es_filesystem (br_sandbox r))) = FsUnrestricted \<and> fs_mode (ef_ceiling (es_filesystem (br_sandbox r))) = FsUnrestricted)"
| "request_uses r c CapFilesystemExternal =
     (fs_mode (ef_requested (es_filesystem (br_sandbox r))) = FsExternal \<and> fs_mode (ef_ceiling (es_filesystem (br_sandbox r))) = FsExternal)"
| "request_uses r c CapFilesystemScopes = (request_rooted r \<or> request_rules r \<noteq> [])"
| "request_uses r c CapFilesystemExecutableMapping = (executable_roots c \<noteq> [])"
| "request_uses r c CapFilesystemAbsoluteScopes =
     (selects r is_absolute_scope \<or> list_ex (rule_glob pat_absolute) (request_rules r))"
| "request_uses r c CapFilesystemWorkspaceScopes =
     (request_rooted r \<or> selects r is_workspace_scope \<or> list_ex (rule_glob (\<lambda>p. \<not> pat_absolute p)) (request_rules r))"
| "request_uses r c CapFilesystemRootScopes = selects r (\<lambda>s. s = Root)"
| "request_uses r c CapFilesystemMinimalScopes = selects r (\<lambda>s. s = Minimal)"
| "request_uses r c CapFilesystemTmpdirScopes = selects r (\<lambda>s. s = Tmpdir)"
| "request_uses r c CapFilesystemConventionalTemporaryScopes = selects r (\<lambda>s. s = SlashTmp)"
| "request_uses r c CapFilesystemGlobs = list_ex (rule_glob (\<lambda>_. True)) (request_rules r)"
| "request_uses r c CapFilesystemGlobScanDepth =
     list_ex (\<lambda>rule. rule_glob (\<lambda>_. True) rule \<and> rule_access rule = Deny) (request_rules r)"
| "request_uses r c CapFilesystemReadOnlySubpaths = list_ex (\<lambda>rule. rule_read_only_subpaths rule \<noteq> []) (request_rules r)"
| "request_uses r c CapFilesystemMissingPathBehavior = list_ex (\<lambda>rule. \<not> rule_glob (\<lambda>_. True) rule) (request_rules r)"
| "request_uses r c CapFilesystemProtectedPaths =
     (request_restricted r \<and>
      (fs_protected (ef_requested (es_filesystem (br_sandbox r))) \<noteq> [] \<or> fs_protected (ef_ceiling (es_filesystem (br_sandbox r))) \<noteq> []))"
| "request_uses r c CapNetworkDisabled =
     (\<not> request_networking r \<and> \<not> list_all (\<lambda>p. net_mode p = NetExternal) (request_networks r))"
| "request_uses r c CapNetworkEnabled = request_networking r"
| "request_uses r c CapNetworkExternal = list_all (\<lambda>p. net_mode p = NetExternal) (request_networks r)"
| "request_uses r c CapNetworkDomainRules =
     (request_networking r \<and> list_ex (\<lambda>p. net_domains p \<noteq> [] \<or> net_domain_mode p \<noteq> DomainEnabled) (request_networks r))"
| "request_uses r c CapNetworkLocalAddressRestrictions =
     (request_networking r \<and> list_ex (\<lambda>p. net_local_access p \<noteq> LocalAllow) (request_networks r))"
| "request_uses r c CapNetworkResolvedTargets =
     (request_networking r \<and>
      list_ex (\<lambda>p. net_domains p \<noteq> [] \<or> net_domain_mode p \<noteq> DomainEnabled \<or> net_local_access p \<noteq> LocalAllow) (request_networks r))"
| "request_uses r c CapNetworkLocalIpcIsolation = (request_networking r \<and> list_ex sockets_closed (request_networks r))"
| "request_uses r c CapNetworkLocalIpcRules =
     (request_networking r \<and> \<not> list_ex sockets_closed (request_networks r) \<and>
      list_ex (\<lambda>p. net_unix_socket_mode p = SocketsRestricted) (request_networks r))"
| "request_uses r c CapNetworkLocalIpcDenyRules =
     (request_networking r \<and> list_all (\<lambda>p. net_unix_socket_mode p = SocketsEnabled) (request_networks r) \<and>
      list_ex (\<lambda>p. list_ex (\<lambda>s. sock_access s = DomDeny) (net_unix_sockets p)) (request_networks r))"
| "request_uses r c CapNetworkWindowsNamedPipeRules =
     list_ex (\<lambda>p. list_ex (\<lambda>i. endpoint_named_pipe (ipc_endpoint i) \<noteq> None) (net_local_ipc p)) (request_networks r)"
| "request_uses r c CapEnvironmentAll = list_all (\<lambda>e. env_base e = EnvAll) (request_environments r)"
| "request_uses r c CapEnvironmentCore =
     (list_ex (\<lambda>e. env_base e = EnvCore) (request_environments r) \<and> list_all (\<lambda>e. env_base e \<noteq> EnvNone) (request_environments r))"
| "request_uses r c CapEnvironmentNone = list_ex (\<lambda>e. env_base e = EnvNone) (request_environments r)"
| "request_uses r c CapEnvironmentFilters = list_ex (\<lambda>e. env_filters e \<noteq> []) (request_environments r)"
| "request_uses r c CapEnvironmentOverrides = list_ex (\<lambda>e. env_overrides e \<noteq> []) (request_environments r)"

lemma scope_kinds:
  "is_root_scope = (\<lambda>s. s = Root)" "is_minimal_scope = (\<lambda>s. s = Minimal)" "is_tmpdir_scope = (\<lambda>s. s = Tmpdir)"
  "is_slash_tmp_scope = (\<lambda>s. s = SlashTmp)"
  by (auto simp: fun_eq_iff is_root_scope_def is_minimal_scope_def is_tmpdir_scope_def is_slash_tmp_scope_def split: path_selector.splits)

lemma glob_kinds: "is_glob (rule_target r) = rule_glob (\<lambda>_. True) r"
  by (auto simp: is_glob_def rule_glob_def split: filesystem_target.splits)

lemma stdio_required:
  "c \<in> foldl (\<lambda>acc mode. insert (stdio_capability mode) acc) s modes \<longleftrightarrow> c \<in> s \<or> c \<in> stdio_capability ` set modes"
  by (induction modes arbitrary: s) auto

lemma capability_kinds:
  "stdio_capability m = CapStdioInherit \<longleftrightarrow> m = StdioInherit" "stdio_capability m = CapStdioNull \<longleftrightarrow> m = StdioNull"
  "stdio_capability m = CapStdioPipe \<longleftrightarrow> m = StdioPipe"
  by (cases m; simp)+


section \<open>Facts about preflight\<close>

lemma guard_then: "(if b then Inl e else x) = Inr y \<longleftrightarrow> \<not> b \<and> x = Inr y"
  by simp

lemma prepare_for_Inr:
  "prepare_for r backend base = Inr p \<longleftrightarrow>
     requested_matches (es_environment (br_sandbox r)) (req_environment (br_command r)) \<and>
     required_capabilities r \<subseteq> sb_capabilities backend \<and>
     (\<exists>c w d. effective_path_context_of (br_sandbox r) base = Inr c \<and>
        (executable_roots (epc_context c) \<noteq> [] \<longrightarrow> CapFilesystemExecutableMapping \<in> sb_capabilities backend) \<and>
        resolve_working_directory (req_working_directory (br_command r)) base = Inr w \<and>
        effective_access_for_path (es_filesystem (br_sandbox r)) w c = Inr d \<and> d \<noteq> FsDeny \<and>
        p = \<lparr>prep_request = r, prep_path_context = c, prep_working_directory = w,
             prep_capabilities = sb_capabilities backend, prep_backend_identity = sb_identity backend\<rparr>)"
  unfolding prepare_for_def backend_validate_def guard_then and_then_eq_Inr map_err_eq_Inr check_capabilities_Inr
    set_iter_capabilities sum.inject by blast

lemma absolute_join: "is_absolute root \<Longrightarrow> is_absolute (path_join root rel)"
  using RootDir_lexc [of "path_push root rel"] RootDir_lexc [of root] RootDir_lexc [of rel] by (auto simp: lexc_push)

lemma resolved_working_directory:
  assumes "resolve_working_directory d base = Inr w"
  shows "normalize_lexical_path w = w"
    and "wf_context base \<Longrightarrow> is_absolute w"
proof -
  have "is_absolute cur" if "wf_context base" "current_directory base = Some cur" for cur
    using that by (simp add: wf_context_def valid_absolute_def)
  then show "normalize_lexical_path w = w" "wf_context base \<Longrightarrow> is_absolute w"
    using assms by (auto simp: resolve_working_directory_def normalize_idem intro: absolute_join split: option.splits if_splits)
qed

lemmas handoff_defs =
  prepared_command_spec_def prepared_sandbox_def prepared_filesystem_lowering_def prepared_network_lowering_def
  prepared_path_context_def prepared_working_directory_def prepared_stdio_def prepared_timeout_policy_def
  prepared_apply_environment_def prepared_access_for_path_def prepared_access_for_def prepared_decision_with_ips_def
  prepared_authorize_connection_def prepared_decision_for_unix_socket_def

lemma guarded_other:
  assumes "sb_identity b \<noteq> prep_backend_identity p \<or> sb_capabilities b \<noteq> prep_capabilities p"
  shows "\<exists>e \<in> {BackendIdentityMismatch, BackendCapabilitiesMismatch}. \<forall>f. guarded p b f = Inl e"
  using assms by (auto simp: guarded_def ensure_backend_def)

lemma guarded_same:
  "sb_identity b = prep_backend_identity p \<Longrightarrow> sb_capabilities b = prep_capabilities p \<Longrightarrow> guarded p b f = f ()"
  by (simp add: guarded_def ensure_backend_def)

lemma first_missing:
  assumes "\<not> required \<subseteq> caps"
  shows "\<exists>before c after. all_capabilities = before @ c # after \<and> c \<in> required - caps \<and> set before \<inter> required \<subseteq> caps \<and>
    try_fold (check_capability caps) u (iter_capabilities required) = Inl (UnsupportedCapability c)"
proof -
  from assms have "\<exists>c \<in> set all_capabilities. c \<in> required - caps" by (auto simp: in_all_capabilities)
  then obtain before c after where split: "all_capabilities = before @ c # after" and c: "c \<in> required - caps"
    and first: "\<forall>d \<in> set before. d \<notin> required - caps"
    by (rule split_list_first_propE)
  have "iter_capabilities required = filter (\<lambda>c. c \<in> required) before @ c # filter (\<lambda>c. c \<in> required) after"
    using c by (simp add: iter_capabilities_def split)
  with c first have "try_fold (check_capability caps) u (iter_capabilities required) = Inl (UnsupportedCapability c)"
    unfolding check_capabilities_Inl by fastforce
  with split c first show ?thesis by blast
qed

section \<open>Properties\<close>

text \<open>C7: A request that passes preflight is bound to the backend it was checked against. Every capability it needs is
  advertised, its command carries the environment that was composed, and its working directory is a normalized
  path, absolute for a well-formed runtime context, that the composed policy does not deny. Any other backend, and the same
  backend after its capabilities changed, is refused by every accessor of the handoff.\<close>

theorem prepared_request_is_bound:
  assumes "prepare_for r backend base = Inr p"
  shows "required_capabilities r \<subseteq> sb_capabilities backend \<and>
    requested_matches (es_environment (br_sandbox r)) (req_environment (br_command r)) \<and>
    (\<exists>w d. prepared_working_directory p backend = Inr w \<and> normalize_lexical_path w = w \<and>
       (wf_context base \<longrightarrow> is_absolute w) \<and> prepared_access_for_path p backend w = Inr d \<and> d \<noteq> FsDeny) \<and>
    (\<forall>other. sb_identity other \<noteq> sb_identity backend \<or> sb_capabilities other \<noteq> sb_capabilities backend \<longrightarrow>
       (\<exists>e \<in> {BackendIdentityMismatch, BackendCapabilitiesMismatch}. \<forall>U input path selector domain ips t connected socket.
          prepared_command_spec p other = Inl e \<and> prepared_sandbox p other = Inl e \<and>
          prepared_filesystem_lowering p other = Inl e \<and> prepared_network_lowering p other = Inl e \<and>
          prepared_path_context p other = Inl e \<and> prepared_working_directory p other = Inl e \<and>
          prepared_stdio p other = Inl e \<and> prepared_timeout_policy p other = Inl e \<and>
          prepared_apply_environment U p other input = Inl e \<and> prepared_access_for_path p other path = Inl e \<and>
          prepared_access_for p other selector = Inl e \<and> prepared_decision_with_ips U p other domain ips = Inl e \<and>
          prepared_authorize_connection U p other t connected = Inl e \<and>
          prepared_decision_for_unix_socket p other socket = Inl e))"
proof -
  from assms obtain c w d where ok: "requested_matches (es_environment (br_sandbox r)) (req_environment (br_command r))"
    "required_capabilities r \<subseteq> sb_capabilities backend"
    and w: "resolve_working_directory (req_working_directory (br_command r)) base = Inr w"
    and d: "effective_access_for_path (es_filesystem (br_sandbox r)) w c = Inr d" "d \<noteq> FsDeny"
    and p: "p = \<lparr>prep_request = r, prep_path_context = c, prep_working_directory = w,
      prep_capabilities = sb_capabilities backend, prep_backend_identity = sb_identity backend\<rparr>"
    unfolding prepare_for_Inr by blast
  have "prepared_working_directory p backend = Inr w" "prepared_access_for_path p backend w = Inr d"
    using d by (simp_all add: handoff_defs guarded_same p result_simps)
  with w d have directory: "\<exists>w d. prepared_working_directory p backend = Inr w \<and> normalize_lexical_path w = w \<and>
      (wf_context base \<longrightarrow> is_absolute w) \<and> prepared_access_for_path p backend w = Inr d \<and> d \<noteq> FsDeny"
    using resolved_working_directory [OF w] by blast
  show ?thesis
  proof (intro conjI allI impI ok directory)
    fix other :: sandbox_backend
    assume "sb_identity other \<noteq> sb_identity backend \<or> sb_capabilities other \<noteq> sb_capabilities backend"
    then have "sb_identity other \<noteq> prep_backend_identity p \<or> sb_capabilities other \<noteq> prep_capabilities p" by (simp add: p)
    from guarded_other [OF this] show "\<exists>e \<in> {BackendIdentityMismatch, BackendCapabilitiesMismatch}.
      \<forall>U input path selector domain ips t connected socket.
          prepared_command_spec p other = Inl e \<and> prepared_sandbox p other = Inl e \<and>
          prepared_filesystem_lowering p other = Inl e \<and> prepared_network_lowering p other = Inl e \<and>
          prepared_path_context p other = Inl e \<and> prepared_working_directory p other = Inl e \<and>
          prepared_stdio p other = Inl e \<and> prepared_timeout_policy p other = Inl e \<and>
          prepared_apply_environment U p other input = Inl e \<and> prepared_access_for_path p other path = Inl e \<and>
          prepared_access_for p other selector = Inl e \<and> prepared_decision_with_ips U p other domain ips = Inl e \<and>
          prepared_authorize_connection U p other t connected = Inl e \<and>
          prepared_decision_for_unix_socket p other socket = Inl e"
      unfolding handoff_defs ensure_backend_def guarded_def by (auto simp: ensure_backend_def)
  qed
qed

definition example_backend_request :: backend_request where
  "example_backend_request =
     \<lparr>br_command = request_new \<lparr>cmd_program = ''/bin/true'', cmd_args = []\<rparr>,
      br_sandbox = \<lparr>es_filesystem = \<lparr>ef_requested = fs_unrestricted, ef_ceiling = fs_unrestricted, ef_identity = 0\<rparr>,
        es_network = \<lparr>en_requested = net_unrestricted, en_ceiling = net_unrestricted\<rparr>,
        es_environment = \<lparr>ee_requested = inherit_core, ee_ceiling = inherit_core\<rparr>,
        es_workspace_roots = None, es_workspace_root_limit = None\<rparr>\<rparr>"

definition example_backend :: sandbox_backend where
  "example_backend = \<lparr>sb_identity = 1, sb_capabilities = set all_capabilities - {CapNetworkDomainRules, CapFilesystemGlobs}\<rparr>"

definition example_backend_context :: path_context where
  "example_backend_context = context_new\<lparr>current_directory := Some ''/w''\<rparr>"

lemma example_prepared: "is_ok (prepare_for example_backend_request example_backend example_backend_context)"
  by code_simp

theorem prepared_request_is_bound_witness:
  "\<exists>p. prepare_for example_backend_request example_backend example_backend_context = Inr p \<and>
     prepared_stdio p (example_backend\<lparr>sb_capabilities := {}\<rparr>) \<noteq> Inr stdio_captured \<and>
     CapNetworkEnabled \<in> sb_capabilities example_backend"
proof -
  obtain p where p: "prepare_for example_backend_request example_backend example_backend_context = Inr p"
    using example_prepared unfolding is_ok_iff by blast
  let ?other = "example_backend\<lparr>sb_capabilities := {}\<rparr>"
  have other: "sb_capabilities ?other \<noteq> sb_capabilities example_backend" and cap: "CapNetworkEnabled \<in> sb_capabilities example_backend"
    by (auto simp: example_backend_def all_capabilities_def)
  from prepared_request_is_bound [OF p, THEN conjunct2, THEN conjunct2, THEN conjunct2, rule_format, OF disjI2, OF other]
  obtain e where "prepared_stdio p ?other = Inl e" by blast
  with p cap show ?thesis by (intro exI [of _ p]) simp
qed

text \<open>When the environment matches and some required capability is not advertised, preflight fails for every runtime
  context with the first such capability in declaration order, so the report does not depend on the host.\<close>

theorem preflight_reports_first_missing:
  assumes "requested_matches (es_environment (br_sandbox r)) (req_environment (br_command r))"
    and "\<not> required_capabilities r \<subseteq> sb_capabilities backend"
  shows "\<exists>before c after. all_capabilities = before @ c # after \<and> c \<in> required_capabilities r - sb_capabilities backend \<and>
    set before \<inter> required_capabilities r \<subseteq> sb_capabilities backend \<and>
    (\<forall>base. prepare_for r backend base = Inl (UnsupportedCapability c))"
proof -
  obtain before c after where c: "all_capabilities = before @ c # after" "c \<in> required_capabilities r - sb_capabilities backend"
    "set before \<inter> required_capabilities r \<subseteq> sb_capabilities backend"
    "try_fold (check_capability (sb_capabilities backend)) () (iter_capabilities (required_capabilities r)) = Inl (UnsupportedCapability c)"
    using first_missing [OF assms(2)] by blast
  then have "prepare_for r backend base = Inl (UnsupportedCapability c)" for base
    by (simp add: prepare_for_def backend_validate_def assms(1))
  with c show ?thesis by blast
qed

theorem preflight_reports_first_missing_witness:
  "prepare_for example_backend_request (example_backend\<lparr>sb_capabilities := {CapCommandExecution, CapStdioNull}\<rparr>) example_backend_context
     = Inl (UnsupportedCapability CapWorkingDirectory)"
proof -
  let ?b = "example_backend\<lparr>sb_capabilities := {CapCommandExecution, CapStdioNull}\<rparr>"
  have matches: "requested_matches (es_environment (br_sandbox example_backend_request)) (req_environment (br_command example_backend_request))"
    by code_simp
  have needs: "CapWorkingDirectory \<in> required_capabilities example_backend_request" by (rule required_needs(2))
  then have missing: "\<not> required_capabilities example_backend_request \<subseteq> sb_capabilities ?b" by auto
  obtain before c after where "all_capabilities = before @ c # after" "c \<in> required_capabilities example_backend_request - sb_capabilities ?b"
    "set before \<inter> required_capabilities example_backend_request \<subseteq> sb_capabilities ?b"
    "prepare_for example_backend_request ?b example_backend_context = Inl (UnsupportedCapability c)"
    using preflight_reports_first_missing [OF matches missing] by blast
  then have c: "all_capabilities = before @ c # after" "c \<notin> {CapCommandExecution, CapStdioNull}"
    "set before \<inter> required_capabilities example_backend_request \<subseteq> {CapCommandExecution, CapStdioNull}"
    "prepare_for example_backend_request ?b example_backend_context = Inl (UnsupportedCapability c)" by simp_all
  have "c = CapWorkingDirectory"
    using c(1-3) needs by (cases before; cases "tl before") (auto simp: all_capabilities_def)
  with c(4) show ?thesis by simp
qed

end
