(* ===== verification/Net_Display.thy ===== *)
theory Net_Display
  imports Std_Net
begin

text \<open>
  The \<open>Display\<close> implementations of the standard library the gateway uses: decimal and lower-case hexadecimal
  numbers, dotted IPv4 addresses and IPv6 addresses with the first longest run of at least two zero
  segments compressed. The lemmas show that parsing recovers every displayed address.
\<close>

section \<open>Numbers\<close>

definition radix_digit :: "nat \<Rightarrow> char" where
  "radix_digit d = char_of (if d < 10 then 48 + d else 87 + d)"

function radix_str :: "nat \<Rightarrow> nat \<Rightarrow> string" where
  "radix_str radix n =
     (if radix < 2 \<or> n < radix then [radix_digit n] else radix_str radix (n div radix) @ [radix_digit (n mod radix)])"
  by auto
termination
  by (relation "measure snd") auto

declare radix_str.simps [simp del]

abbreviation decimal_str :: "nat \<Rightarrow> string" where
  "decimal_str \<equiv> radix_str 10"

section \<open>Addresses\<close>

definition ipv4_to_string :: "ipv4_addr \<Rightarrow> string" where
  "ipv4_to_string a =
     decimal_str (octet 0 a) @ ''.'' @ decimal_str (octet 1 a) @ ''.'' @ decimal_str (octet 2 a) @ ''.'' @ decimal_str (octet 3 a)"

fun segments :: "ipv6_addr \<Rightarrow> u16 list" where
  "segments (Ipv6 a b c d e f g h) = [a, b, c, d, e, f, g, h]"

text \<open>The loop that finds the first longest run of zero segments; a span is its start and length.\<close>

fun zero_spans :: "nat \<Rightarrow> nat \<times> nat \<Rightarrow> nat \<times> nat \<Rightarrow> u16 list \<Rightarrow> nat \<times> nat" where
  "zero_spans i current longest [] = longest"
| "zero_spans i (start, len) longest (s # ss) =
     (if s = 0
      then (let current = (if len = 0 then (i, 1) else (start, len + 1))
            in zero_spans (Suc i) current (if snd current > snd longest then current else longest) ss)
      else zero_spans (Suc i) (0, 0) longest ss)"

fun fmt_subslice :: "u16 list \<Rightarrow> string" where
  "fmt_subslice [] = []"
| "fmt_subslice (s # ss) = radix_str 16 (unat s) @ concat (map (\<lambda>s. CHR '':'' # radix_str 16 (unat s)) ss)"

fun to_ipv4_mapped :: "ipv6_addr \<Rightarrow> ipv4_addr option" where
  "to_ipv4_mapped (Ipv6 a b c d e f g h) =
     (if a = 0 \<and> b = 0 \<and> c = 0 \<and> d = 0 \<and> e = 0 \<and> f = 0xFFFF then Some (ipv4_of_segments g h) else None)"

definition ipv6_to_string :: "ipv6_addr \<Rightarrow> string" where
  "ipv6_to_string a =
     (case to_ipv4_mapped a of
        Some v4 \<Rightarrow> ''::ffff:'' @ ipv4_to_string v4
      | None \<Rightarrow>
          (case zero_spans 0 (0, 0) (0, 0) (segments a) of (start, len) \<Rightarrow>
             if len > 1 then fmt_subslice (take start (segments a)) @ ''::'' @ fmt_subslice (drop (start + len) (segments a))
             else fmt_subslice (segments a)))"

fun ip_to_string :: "ip_addr \<Rightarrow> string" where
  "ip_to_string (V4 a) = ipv4_to_string a"
| "ip_to_string (V6 a) = ipv6_to_string a"

section \<open>Reading a displayed number\<close>

lemma to_digit_radix_digit:
  assumes "d < radix" and "radix \<le> 16"
  shows "to_digit radix (radix_digit d) = Some d"
proof -
  have "list_all (\<lambda>r. list_all (\<lambda>d. to_digit r (radix_digit d) = Some d) [0..<r]) [0..<17]" by code_simp
  with assms show ?thesis by (simp add: list_all_iff)
qed

definition stops :: "nat \<Rightarrow> string \<Rightarrow> bool" where
  "stops radix rest \<longleftrightarrow> (case rest of [] \<Rightarrow> True | c # _ \<Rightarrow> to_digit radix c = None)"

lemma stops_simps [simp]: "stops radix []" "to_digit radix c = None \<Longrightarrow> stops radix (c # rest)"
  by (simp_all add: stops_def)

lemma separators_stop [simp]:
  "to_digit 10 CHR ''.'' = None" "to_digit 10 CHR '':'' = None" "to_digit 16 CHR '':'' = None"
  by code_simp+

lemma read_digits_stop: "stops radix rest \<Longrightarrow> read_digits radix m r c rest = Some (r, c, rest)"
  by (cases rest) (simp_all add: stops_def)

lemma read_digits_radix_str:
  assumes "2 \<le> radix" and "radix \<le> 16"
  shows "c + length (radix_str radix n) \<le> m \<Longrightarrow>
    read_digits radix m r c (radix_str radix n @ rest) =
    read_digits radix m (r * radix ^ length (radix_str radix n) + n) (c + length (radix_str radix n)) rest"
  using assms
proof (induction radix n arbitrary: r c rest rule: radix_str.induct)
  case (1 radix n)
  show ?case
  proof (cases "n < radix")
    case True
    with 1 show ?thesis by (simp add: radix_str.simps [of radix n] to_digit_radix_digit)
  next
    case False
    with "1.prems" have split: "radix_str radix n = radix_str radix (n div radix) @ [radix_digit (n mod radix)]"
      by (simp add: radix_str.simps [of radix n])
    have "n mod radix < radix" using "1.prems" by simp
    moreover have "(r * radix ^ k + n div radix) * radix + n mod radix = r * radix ^ Suc k + n" for k
      by (simp add: algebra_simps)
    ultimately show ?thesis
      using False "1.prems" "1.IH" [of c r "radix_digit (n mod radix) # rest"]
      by (simp add: split to_digit_radix_digit)
  qed
qed

lemma length_radix_str: "2 \<le> radix \<Longrightarrow> n < radix ^ Suc k \<Longrightarrow> length (radix_str radix n) \<le> Suc k"
proof (induction radix n arbitrary: k rule: radix_str.induct)
  case (1 radix n)
  show ?case
  proof (cases "n < radix")
    case True
    with 1 show ?thesis by (simp add: radix_str.simps [of radix n])
  next
    case False
    with 1 obtain j where k: "k = Suc j" by (cases k) auto
    then have "n div radix < radix ^ Suc j" using 1 by (simp add: less_mult_imp_div_less mult.commute)
    with False 1 k show ?thesis by (simp add: radix_str.simps [of radix n])
  qed
qed

lemma radix_str_nonempty [simp]: "radix_str radix n \<noteq> []"
  by (simp add: radix_str.simps [of radix n])

lemma radix_str_hd: "2 \<le> radix \<Longrightarrow> radix \<le> 16 \<Longrightarrow> radix \<le> n \<Longrightarrow> hd (radix_str radix n) \<noteq> CHR ''0''"
proof (induction radix n rule: radix_str.induct)
  case (1 radix n)
  show ?case
  proof (cases "n div radix < radix")
    case True
    have "0 < n div radix" using 1 by (simp add: div_greater_zero_iff)
    moreover have "list_all (\<lambda>d. radix_digit d \<noteq> CHR ''0'') [1..<16]" by code_simp
    ultimately have "radix_digit (n div radix) \<noteq> CHR ''0''" using True 1 by (simp add: list_all_iff)
    with True 1 show ?thesis by (simp add: radix_str.simps [of radix n] radix_str.simps [of radix "n div radix"])
  next
    case False
    with 1 show ?thesis by (simp add: radix_str.simps [of radix n])
  qed
qed

lemma read_number_radix_str:
  assumes "2 \<le> radix" and "radix \<le> 16" and "n < radix ^ Suc k" and "n < bound" and "stops radix rest"
  shows "read_number radix (Suc k) zeros bound (radix_str radix n @ rest) = Some (n, rest)"
proof -
  have "read_digits radix (Suc k) 0 0 (radix_str radix n @ rest) = Some (n, length (radix_str radix n), rest)"
    using length_radix_str [OF assms(1,3)] assms(1,2,5) by (simp add: read_digits_radix_str read_digits_stop)
  moreover have "\<not> (starts_with ''0'' (radix_str radix n @ rest) \<and> length (radix_str radix n) > 1)"
  proof (cases "n < radix")
    case False
    then have "hd (radix_str radix n) \<noteq> CHR ''0''" using assms by (intro radix_str_hd) simp_all
    then show ?thesis by (cases "radix_str radix n") (auto simp: starts_with_def)
  qed (simp add: radix_str.simps [of radix n])
  ultimately show ?thesis using assms(4) by (auto simp: read_number_def)
qed

lemma read_octet: "n < 256 \<Longrightarrow> stops 10 rest \<Longrightarrow> read_number 10 3 False 256 (decimal_str n @ rest) = Some (n, rest)"
  using read_number_radix_str [of 10 n 2 256 rest False] by simp

lemma read_segment: "stops 16 rest \<Longrightarrow> read_number 16 4 True 65536 (radix_str 16 (unat s) @ rest) = Some (unat (s :: u16), rest)"
  using read_number_radix_str [of 16 "unat s" 3 65536 rest True] unsigned_less [of s] by simp

section \<open>IPv4\<close>

lemma octet_less: "octet i a < 256"
  by (simp add: octet_def)

lemma ipv4_of_octets_octet: "ipv4_of_octets (octet 0 a) (octet 1 a) (octet 2 a) (octet 3 a) = a"
proof -
  define u where "u = unat a"
  have "u < 4294967296" using unsigned_less [of a] by (simp add: u_def)
  then have top: "u div 256 div 256 div 256 < 256" by simp
  have div: "u div 65536 = u div 256 div 256" "u div 16777216 = u div 256 div 256 div 256"
    by (simp_all add: div_mult2_eq [symmetric])
  have "((u div 256 div 256 div 256 * 256 + u div 256 div 256 mod 256) * 256 + u div 256 mod 256) * 256 + u mod 256 = u"
    by (simp only: div_mult_mod_eq)
  with top have "((octet 0 a * 256 + octet 1 a) * 256 + octet 2 a) * 256 + octet 3 a = unat a"
    by (simp add: octet_def u_def [symmetric] div del: div_div_eq_right)
  then show ?thesis unfolding ipv4_of_octets_def by simp
qed

lemma four_octets: "read_octets 4 0 s = read_octets (Suc (Suc (Suc (Suc 0)))) 0 s"
  by (rule arg_cong [where f = "\<lambda>k. read_octets k 0 s"]) simp

lemma read_ipv4_display: "stops 10 rest \<Longrightarrow> read_ipv4_addr (ipv4_to_string a @ rest) = Some (a, rest)"
  by (simp add: read_ipv4_addr_def ipv4_to_string_def read_separator_def read_given_char_def read_octet octet_less
      ipv4_of_octets_octet [simplified] four_octets)

lemma read_ipv4_no_dot: "CHR ''.'' \<notin> set s \<Longrightarrow> read_ipv4_addr s = None"
proof -
  assume no: "CHR ''.'' \<notin> set s"
  have "CHR ''.'' \<notin> set r" if "read_number 10 3 False 256 s = Some (n, r)" for n r
  proof -
    from read_number_suffix [OF that] obtain w where "s = w @ r" by blast
    with no show ?thesis by simp
  qed
  then show ?thesis
    by (auto simp: read_ipv4_addr_def read_separator_def read_given_char_def four_octets split: option.splits list.splits)
qed

section \<open>IPv6\<close>

lemma zero_spans_sound:
  assumes "zero_spans i (st, ln) (lst, lln) ss = (start, len)" and "all = pre @ ss" and "i = length pre"
    and "ln > 0 \<Longrightarrow> st + ln = i \<and> (\<forall>k. st \<le> k \<and> k < st + ln \<longrightarrow> all ! k = 0)"
    and "lst + lln \<le> i \<and> (\<forall>k. lst \<le> k \<and> k < lst + lln \<longrightarrow> all ! k = 0)"
  shows "start + len \<le> length all \<and> (\<forall>k. start \<le> k \<and> k < start + len \<longrightarrow> all ! k = 0)"
  using assms
proof (induction ss arbitrary: i st ln lst lln pre)
  case (Cons s ss)
  show ?case
  proof (cases "s = 0")
    case False
    show ?thesis
    proof (rule Cons.IH)
      show "zero_spans (Suc i) (0, 0) (lst, lln) ss = (start, len)" using Cons.prems(1) False by simp
    qed (use Cons.prems in auto)
  next
    case True
    define st' ln' where c: "st' = (if ln = 0 then i else st)" "ln' = ln + 1"
    have at: "all ! i = 0" using Cons.prems(2,3) True by simp
    have cur: "st' + ln' = Suc i \<and> (\<forall>k. st' \<le> k \<and> k < st' + ln' \<longrightarrow> all ! k = 0)"
      using Cons.prems(4) at by (auto simp: c less_Suc_eq)
    have step: "zero_spans i (st, ln) (lst, lln) (s # ss) =
        zero_spans (Suc i) (st', ln') (if ln' > lln then (st', ln') else (lst, lln)) ss"
      by (simp add: True c Let_def)
    show ?thesis
    proof (cases "ln' > lln")
      case bigger: True
      show ?thesis
      proof (rule Cons.IH)
        show "zero_spans (Suc i) (st', ln') (st', ln') ss = (start, len)" using Cons.prems(1) bigger unfolding step by simp
        show "all = (pre @ [s]) @ ss" "Suc i = length (pre @ [s])" using Cons.prems(2,3) by simp_all
      qed (use cur in auto)
    next
      case False
      show ?thesis
      proof (rule Cons.IH)
        show "zero_spans (Suc i) (st', ln') (lst, lln) ss = (start, len)" using Cons.prems(1) False unfolding step by simp
        show "all = (pre @ [s]) @ ss" "Suc i = length (pre @ [s])" using Cons.prems(2,3) by simp_all
      qed (use cur Cons.prems(5) in auto)
    qed
  qed
qed auto

lemma zero_span:
  assumes "zero_spans 0 (0, 0) (0, 0) ss = (start, len)"
  shows "ss = take start ss @ replicate len 0 @ drop (start + len) ss" and "start + len \<le> length ss"
proof -
  have span: "start + len \<le> length ss \<and> (\<forall>k. start \<le> k \<and> k < start + len \<longrightarrow> ss ! k = 0)"
    by (rule zero_spans_sound [OF assms, of ss "[]"]) auto
  then show "start + len \<le> length ss" by blast
  have "take len (drop start ss) = replicate len 0" using span by (intro nth_equalityI) auto
  then show "ss = take start ss @ replicate len 0 @ drop (start + len) ss"
    by (metis add.commute append_take_drop_id drop_drop)
qed

abbreviation colon_segments :: "u16 list \<Rightarrow> string" where
  "colon_segments ss \<equiv> concat (map (\<lambda>s. CHR '':'' # radix_str 16 (unat s)) ss)"

lemma radix_str_chars: "2 \<le> radix \<Longrightarrow> set (radix_str radix n) \<subseteq> radix_digit ` {..<radix}"
proof (induction radix n rule: radix_str.induct)
  case (1 radix n)
  have "n mod radix < radix" using "1.prems" by simp
  with 1 show ?case by (cases "n < radix") (auto simp: radix_str.simps [of radix n])
qed

lemma radix_str_alphabet: "2 \<le> radix \<Longrightarrow> radix \<le> 16 \<Longrightarrow> c \<in> set (radix_str radix n) \<Longrightarrow> c \<in> set ''0123456789abcdef''"
proof -
  have "list_all (\<lambda>d. radix_digit d \<in> set ''0123456789abcdef'') [0..<16]" by code_simp
  then have "radix_digit d \<in> set ''0123456789abcdef''" if "d < 16" for d using that by (simp add: list_all_iff)
  then show "2 \<le> radix \<Longrightarrow> radix \<le> 16 \<Longrightarrow> c \<in> set (radix_str radix n) \<Longrightarrow> c \<in> set ''0123456789abcdef''"
    using radix_str_chars [of radix n] by fastforce
qed

lemma radix_str_no_dot: "2 \<le> radix \<Longrightarrow> radix \<le> 16 \<Longrightarrow> CHR ''.'' \<notin> set (radix_str radix n)"
  using radix_str_alphabet [of radix "CHR ''.''" n] by auto

lemma fmt_no_dot [simp]: "CHR ''.'' \<notin> set (fmt_subslice ss)" "CHR ''.'' \<notin> set (colon_segments ss)"
  using radix_str_no_dot [of 16] by (cases ss; auto)+

text \<open>What may follow a group of segments: nothing, or the compression.\<close>

definition ends_groups :: "string \<Rightarrow> bool" where
  "ends_groups rest \<longleftrightarrow> CHR ''.'' \<notin> set rest \<and> (rest = [] \<or> (\<exists>r. rest = CHR '':'' # CHR '':'' # r))"

lemma read_number_colon: "read_number radix m z b (CHR '':'' # r) = None" if "to_digit radix CHR '':'' = None"
  using that by (simp add: read_number_def)

lemma read_groups_end: "ends_groups rest \<Longrightarrow> read_groups left (Suc i) rest = ([], False, rest)"
  by (cases left) (auto simp: ends_groups_def read_separator_def read_given_char_def read_ipv4_no_dot read_number_colon)

lemma read_groups_none:
  assumes "read_separator CHR '':'' i read_ipv4_addr s = None"
    and "read_separator CHR '':'' i (read_number 16 4 True 65536) s = None"
  shows "read_groups left i s = ([], False, s)"
  using assms by (cases left) simp_all

lemma read_groups_step:
  assumes "read_separator CHR '':'' i read_ipv4_addr s = None"
    and "read_separator CHR '':'' i (read_number 16 4 True 65536) s = Some (unat g, r)"
    and "read_groups left (Suc i) r = (gs, v4, r')"
  shows "read_groups (Suc left) i s = (g # gs, v4, r')"
  using assms(3) unfolding read_groups.simps(2) assms(1,2) by simp

lemma after_segment:
  assumes "ends_groups rest"
  shows "stops 16 (colon_segments ss @ rest)" and "CHR ''.'' \<notin> set (radix_str 16 (unat (s :: u16)) @ colon_segments ss @ rest)"
proof -
  show "stops 16 (colon_segments ss @ rest)" using assms by (cases ss) (auto simp: ends_groups_def)
  show "CHR ''.'' \<notin> set (radix_str 16 (unat s) @ colon_segments ss @ rest)"
    using assms fmt_no_dot(2) [of ss] radix_str_no_dot [of 16 "unat s"] by (auto simp: ends_groups_def)
qed

lemma read_groups_colon:
  "length ss \<le> left \<Longrightarrow> ends_groups rest \<Longrightarrow> read_groups left (Suc i) (colon_segments ss @ rest) = (ss, False, rest)"
proof (induction ss arbitrary: left i)
  case Nil
  then show ?case by (simp add: read_groups_end)
next
  case (Cons s ss)
  then obtain l where l: "left = Suc l" by (cases left) auto
  let ?r = "colon_segments ss @ rest"
  have "read_groups (Suc l) (Suc i) (CHR '':'' # radix_str 16 (unat s) @ ?r) = (s # ss, False, rest)"
  proof (rule read_groups_step)
    show "read_groups l (Suc (Suc i)) ?r = (ss, False, rest)" using Cons.prems l by (intro Cons.IH) simp_all
  qed (use after_segment [OF Cons.prems(2)] in
      \<open>simp_all add: read_separator_def read_given_char_def read_ipv4_no_dot read_segment del: set_append set_concat\<close>)
  then show ?case by (simp only: l list.map concat.simps append_Cons append_assoc)
qed

lemma read_groups_fmt:
  assumes "length ss \<le> left" and "ends_groups rest"
  shows "read_groups left 0 (fmt_subslice ss @ rest) = (ss, False, rest)"
proof (cases ss)
  case Nil
  with assms show ?thesis
    by (cases left) (auto simp: ends_groups_def read_separator_def read_ipv4_no_dot read_number_colon read_number_def)
next
  case (Cons s tl)
  then obtain l where l: "left = Suc l" using assms(1) by (cases left) auto
  have "read_groups (Suc l) 0 (radix_str 16 (unat s) @ colon_segments tl @ rest) = (s # tl, False, rest)"
  proof (rule read_groups_step)
    show "read_groups l (Suc 0) (colon_segments tl @ rest) = (tl, False, rest)"
      using assms Cons l by (intro read_groups_colon) simp_all
  qed (use after_segment [OF assms(2)] in
      \<open>simp_all add: read_separator_def read_ipv4_no_dot read_segment del: set_append set_concat\<close>)
  then show ?thesis by (simp only: l Cons fmt_subslice.simps append_assoc)
qed

lemma segments_of: "length (segments a) = 8" "ipv6_of_segments (segments a) = a"
  by (cases a; simp add: ipv6_of_segments_def)+

lemma ipv4_of_segments_halves:
  "of_nat (unat (ipv4_of_segments g h) div 65536) = g" "of_nat (unat (ipv4_of_segments g h) mod 65536) = h"
proof -
  have "unat g < 65536" "unat h < 65536" using unsigned_less [of g] unsigned_less [of h] by simp_all
  then have "unat (ipv4_of_segments g h) = unat g * 65536 + unat h"
    unfolding ipv4_of_segments_def by (subst unat_of_nat) simp
  with \<open>unat h < 65536\<close> show "of_nat (unat (ipv4_of_segments g h) div 65536) = g"
    "of_nat (unat (ipv4_of_segments g h) mod 65536) = h" by simp_all
qed

lemma read_ipv6_mapped:
  assumes "to_ipv4_mapped a = Some v4"
  shows "read_ipv6_addr (''::ffff:'' @ ipv4_to_string v4) = Some (a, [])"
proof -
  let ?v = "ipv4_to_string v4"
  have start: "read_groups 8 0 (''::ffff:'' @ ?v) = ([], False, ''::ffff:'' @ ?v)"
    by (simp add: read_groups_none read_separator_def read_number_colon read_ipv4_addr_def four_octets del: read_groups.simps)
  have v4: "read_groups (Suc 5) (Suc 0) (CHR '':'' # ?v) = ([of_nat (unat v4 div 65536), of_nat (unat v4 mod 65536)], True, [])"
    using read_ipv4_display [of "[]" v4] unfolding read_groups.simps(2) by (simp add: read_separator_def read_given_char_def)
  have ffff: "radix_str 16 (unat (0xFFFF :: u16)) = ''ffff''" by code_simp
  have tail: "read_groups (Suc 6) 0 (''ffff'' @ CHR '':'' # ?v) =
      (0xFFFF # [of_nat (unat v4 div 65536), of_nat (unat v4 mod 65536)], True, [])"
  proof (rule read_groups_step)
    show "read_groups 6 (Suc 0) (CHR '':'' # ?v) = ([of_nat (unat v4 div 65536), of_nat (unat v4 mod 65536)], True, [])"
      using v4 by simp
    show "read_separator CHR '':'' 0 (read_number 16 4 True 65536) (''ffff'' @ CHR '':'' # ?v) = Some (unat (0xFFFF :: u16), CHR '':'' # ?v)"
      using read_segment [of "CHR '':'' # ?v" "0xFFFF"] unfolding ffff by (simp add: read_separator_def)
    show "read_separator CHR '':'' 0 read_ipv4_addr (''ffff'' @ CHR '':'' # ?v) = None"
      by (simp add: read_separator_def read_ipv4_addr_def four_octets read_number_def to_digit_def Let_def)
  qed
  from assms obtain g h where a: "a = Ipv6 0 0 0 0 0 0xFFFF g h" "v4 = ipv4_of_segments g h"
    by (cases a) (auto split: if_splits)
  have "of_nat (unat v4 div 65536) = g" "of_nat (unat v4 mod 65536) = h"
    unfolding a(2) by (rule ipv4_of_segments_halves)+
  with start tail show ?thesis
    by (simp add: read_ipv6_addr_def read_given_char_def a(1) ipv6_of_segments_def nth_append)
qed

lemma read_ipv6_display: "read_ipv6_addr (ipv6_to_string a) = Some (a, [])"
proof (cases "to_ipv4_mapped a")
  case (Some v4)
  then show ?thesis by (simp add: ipv6_to_string_def read_ipv6_mapped [simplified])
next
  case None
  obtain start len where span: "zero_spans 0 (0, 0) (0, 0) (segments a) = (start, len)" by (rule prod.exhaust)
  note split = zero_span [OF span]
  show ?thesis
  proof (cases "len > 1")
    case True
    let ?h = "take start (segments a)" and ?t = "drop (start + len) (segments a)"
    have shown: "ipv6_to_string a = fmt_subslice ?h @ ''::'' @ fmt_subslice ?t" using None span True by (simp add: ipv6_to_string_def)
    have "read_groups 8 0 (fmt_subslice ?h @ ''::'' @ fmt_subslice ?t) = (?h, False, ''::'' @ fmt_subslice ?t)"
      by (rule read_groups_fmt) (simp_all add: segments_of ends_groups_def)
    moreover have "read_groups (8 - (length ?h + 1)) 0 (fmt_subslice ?t @ []) = (?t, False, [])"
      using split(2) True by (intro read_groups_fmt) (auto simp: segments_of ends_groups_def)
    moreover have "8 - length ?h - length ?t = len" "length ?h \<noteq> 8" using split(2) True by (auto simp: segments_of)
    ultimately show ?thesis using segments_of(2) [of a] split(1)
      by (simp add: shown read_ipv6_addr_def read_given_char_def)
  next
    case False
    have "read_groups 8 0 (fmt_subslice (segments a) @ []) = (segments a, False, [])"
      by (rule read_groups_fmt) (simp_all add: segments_of ends_groups_def)
    with None span False show ?thesis by (simp add: ipv6_to_string_def read_ipv6_addr_def segments_of)
  qed
qed

lemma read_ipv4_of_ipv6: "read_ipv4_addr (ipv6_to_string a) = None"
proof (cases "to_ipv4_mapped a")
  case (Some v4)
  then show ?thesis
    by (simp add: ipv6_to_string_def read_ipv4_addr_def four_octets read_separator_def read_number_colon)
next
  case None
  then have "CHR ''.'' \<notin> set (ipv6_to_string a)" by (auto simp: ipv6_to_string_def split: prod.splits)
  then show ?thesis by (rule read_ipv4_no_dot)
qed

lemma parse_ip_display: "parse_ip_addr (ip_to_string ip) = Some ip"
proof (cases ip)
  case (V4 a)
  then show ?thesis using read_ipv4_display [of "[]" a] by (simp add: parse_ip_addr_def)
next
  case (V6 a)
  then show ?thesis by (simp add: parse_ip_addr_def read_ipv4_of_ipv6 read_ipv6_display)
qed

lemma ip_to_string_inject: "ip_to_string a = ip_to_string b \<longleftrightarrow> a = b"
  by (metis option.inject parse_ip_display)

end
