(* ===== verification/Gateway.thy ===== *)
theory Gateway
  imports Composition Net_Display
begin

text \<open>
  The policy-enforcing network gateway (\<open>cageforge-network-proxy/src\<close>): settings, authorities, ingress
  authentication, resolve-once connection establishment and the SOCKS5 handshake. A stream is the bytes still to be
  read, the bytes written so far and whether the peer still accepts bytes; a computation that awaits it takes and
  returns the stream. The parser of the \<open>http\<close> crate is the argument \<open>A\<close>; name resolution, the clock and
  outbound TCP attempts are the fields of \<open>network_world\<close>, and an upstream stream is the address it is connected to.
\<close>

section \<open>Errors (error.rs)\<close>

datatype io_error = UnexpectedEof | ConnectionRefused | BrokenPipe | OtherIo string

datatype unsupported_network_requirement = DisabledMode | ExternalMode

datatype gateway_error =
    GUnsupportedPolicy unsupported_network_requirement
  | GAuthenticationKeyGeneration
  | GResolverInitialization io_error
  | GAuthenticationFailed
  | GConnectionLimitReached
  | GHandshakeTimedOut
  | GInvalidHttpRequest string
  | GInvalidHttpResponse string
  | GInvalidSocksRequest string
  | GInvalidAuthority string
  | GDnsTimedOut string
  | GDnsFailed string io_error
  | GEmptyDnsResult string
  | GDnsAddressLimitExceeded string nat
  | GResolvedPortMismatch string u16 socket_addr
  | GInvalidResolvedTarget policy_error
  | GPolicyDenied string u16
  | GExternallyEnforced string u16
  | GPolicyEvaluation composition_error
  | GConnectFailed string u16 io_error
  | GConnectTimedOut string u16
  | GResponseHeaderTimedOut string u16
  | GRelayTimedOut
  | GRelayByteLimitExceeded nat
  | GIo io_error
  | GHttpConnection string
  | GHttpUpgrade string
  | GProtocolTask string

section \<open>Settings (config.rs)\<close>

type_synonym nanos = nat

datatype gateway_config_error =
    ZeroTimeout string
  | HttpHeaderLimitTooSmall nat nat
  | LimitTooLarge string nat nat

record gateway_config =
  cfg_handshake_timeout :: nanos
  cfg_dns_timeout :: nanos
  cfg_connect_timeout :: nanos
  cfg_response_header_timeout :: nanos
  cfg_relay_idle_timeout :: nanos
  cfg_max_concurrent_connections :: nat
  cfg_max_requests_per_connection :: nat
  cfg_max_resolved_addresses :: nat
  cfg_http_header_bytes :: nat
  cfg_relay_byte_limit :: "nat option"

definition MIN_HTTP_HEADER_BYTES :: nat where
  "MIN_HTTP_HEADER_BYTES = 8 * 1024"

definition MAX_CONCURRENT_CONNECTIONS :: nat where
  "MAX_CONCURRENT_CONNECTIONS = (2 ^ 64 - 1) div 2 ^ 3"

definition seconds :: "nat \<Rightarrow> nanos" where
  "seconds n = n * 1000000000"

definition gateway_config_default :: gateway_config where
  "gateway_config_default =
     \<lparr>cfg_handshake_timeout = seconds 10, cfg_dns_timeout = seconds 10, cfg_connect_timeout = seconds 10,
      cfg_response_header_timeout = seconds 30, cfg_relay_idle_timeout = seconds 300,
      cfg_max_concurrent_connections = 128, cfg_max_requests_per_connection = 64, cfg_max_resolved_addresses = 64,
      cfg_http_header_bytes = 32 * 1024, cfg_relay_byte_limit = Some (1024 * 1024 * 1024)\<rparr>"

definition validate_timeout :: "string \<Rightarrow> nanos \<Rightarrow> (gateway_config_error, unit) rust_result" where
  "validate_timeout field t = (if t = 0 then Inl (ZeroTimeout field) else Inr ())"

definition validate_limit :: "string \<Rightarrow> nat \<Rightarrow> nat \<Rightarrow> (gateway_config_error, unit) rust_result" where
  "validate_limit field v maximum = (if v > maximum then Inl (LimitTooLarge field maximum v) else Inr ())"

definition with_handshake_timeout :: "gateway_config \<Rightarrow> nanos \<Rightarrow> (gateway_config_error, gateway_config) rust_result" where
  "with_handshake_timeout c t = and_then (validate_timeout ''handshake'' t) (\<lambda>_. Inr (c\<lparr>cfg_handshake_timeout := t\<rparr>))"

definition with_dns_timeout :: "gateway_config \<Rightarrow> nanos \<Rightarrow> (gateway_config_error, gateway_config) rust_result" where
  "with_dns_timeout c t = and_then (validate_timeout ''DNS'' t) (\<lambda>_. Inr (c\<lparr>cfg_dns_timeout := t\<rparr>))"

definition with_connect_timeout :: "gateway_config \<Rightarrow> nanos \<Rightarrow> (gateway_config_error, gateway_config) rust_result" where
  "with_connect_timeout c t = and_then (validate_timeout ''connect'' t) (\<lambda>_. Inr (c\<lparr>cfg_connect_timeout := t\<rparr>))"

definition with_response_header_timeout :: "gateway_config \<Rightarrow> nanos \<Rightarrow> (gateway_config_error, gateway_config) rust_result" where
  "with_response_header_timeout c t =
     and_then (validate_timeout ''response header'' t) (\<lambda>_. Inr (c\<lparr>cfg_response_header_timeout := t\<rparr>))"

definition with_relay_idle_timeout :: "gateway_config \<Rightarrow> nanos \<Rightarrow> (gateway_config_error, gateway_config) rust_result" where
  "with_relay_idle_timeout c t = and_then (validate_timeout ''relay idle'' t) (\<lambda>_. Inr (c\<lparr>cfg_relay_idle_timeout := t\<rparr>))"

definition with_max_concurrent_connections :: "gateway_config \<Rightarrow> nat \<Rightarrow> (gateway_config_error, gateway_config) rust_result" where
  "with_max_concurrent_connections c limit =
     and_then (validate_limit ''maximum concurrent connections'' limit MAX_CONCURRENT_CONNECTIONS)
       (\<lambda>_. Inr (c\<lparr>cfg_max_concurrent_connections := limit\<rparr>))"

definition with_max_requests_per_connection :: "gateway_config \<Rightarrow> nat \<Rightarrow> gateway_config" where
  "with_max_requests_per_connection c limit = c\<lparr>cfg_max_requests_per_connection := limit\<rparr>"

definition with_max_resolved_addresses :: "gateway_config \<Rightarrow> nat \<Rightarrow> gateway_config" where
  "with_max_resolved_addresses c limit = c\<lparr>cfg_max_resolved_addresses := limit\<rparr>"

definition with_http_header_bytes :: "gateway_config \<Rightarrow> nat \<Rightarrow> (gateway_config_error, gateway_config) rust_result" where
  "with_http_header_bytes c limit =
     (if limit < MIN_HTTP_HEADER_BYTES then Inl (HttpHeaderLimitTooSmall MIN_HTTP_HEADER_BYTES limit)
      else Inr (c\<lparr>cfg_http_header_bytes := limit\<rparr>))"

definition with_relay_byte_limit :: "gateway_config \<Rightarrow> nat \<Rightarrow> gateway_config" where
  "with_relay_byte_limit c limit = c\<lparr>cfg_relay_byte_limit := Some limit\<rparr>"

definition without_relay_byte_limit :: "gateway_config \<Rightarrow> gateway_config" where
  "without_relay_byte_limit c = c\<lparr>cfg_relay_byte_limit := None\<rparr>"

section \<open>Authorities (authority.rs)\<close>

record authority =
  auth_host :: string
  auth_port :: u16

text \<open>What the code reads of a parsed \<open>http::uri::Authority\<close>: its host and its port, if it has one.\<close>

type_synonym authority_parser = "string \<Rightarrow> (string \<times> u16 option) option"

definition strip_suffix :: "string \<Rightarrow> string \<Rightarrow> string option" where
  "strip_suffix suf s = (if suffix suf s then Some (take (length s - length suf) s) else None)"

definition strip_brackets :: "string \<Rightarrow> string" where
  "strip_brackets host =
     (case strip_prefix ''['' host of
        None \<Rightarrow> host
      | Some h \<Rightarrow> (case strip_suffix '']'' h of None \<Rightarrow> host | Some inner \<Rightarrow> inner))"

definition authority_parse :: "authority_parser \<Rightarrow> string \<Rightarrow> u16 option \<Rightarrow> (gateway_error, authority) rust_result" where
  "authority_parse A v default_port =
     (if CHR ''@'' \<in> set v then Inl (GInvalidAuthority v)
      else case A v of
        None \<Rightarrow> Inl (GInvalidAuthority v)
      | Some (parsed_host, parsed_port) \<Rightarrow>
          (case (case parsed_port of Some p \<Rightarrow> Some p | None \<Rightarrow> default_port) of
             None \<Rightarrow> Inl (GInvalidAuthority v)
           | Some port \<Rightarrow>
               if port = 0 then Inl (GInvalidAuthority v)
               else (let host = strip_brackets parsed_host
                     in if host = [] then Inl (GInvalidAuthority v)
                        else Inr \<lparr>auth_host = host, auth_port = port\<rparr>)))"

definition parse_ipv6 :: "string \<Rightarrow> ipv6_addr option" where
  "parse_ipv6 s = (case read_ipv6_addr s of Some (a, []) \<Rightarrow> Some a | _ \<Rightarrow> None)"

definition host_port_text :: "string \<Rightarrow> u16 \<Rightarrow> string" where
  "host_port_text host port = host @ '':'' @ decimal_str (unat port)"

definition from_host_port :: "authority_parser \<Rightarrow> string \<Rightarrow> u16 \<Rightarrow> (gateway_error, authority) rust_result" where
  "from_host_port A host port =
     (if host = [] \<or> port = 0 then Inl (GInvalidAuthority (host_port_text host port))
      else let display = (if parse_ipv6 host \<noteq> None then host_port_text (''['' @ host @ '']'') port else host_port_text host port)
           in authority_parse A display None)"

definition socket_addr_new :: "ip_addr \<Rightarrow> u16 \<Rightarrow> socket_addr" where
  "socket_addr_new ip port = (case ip of V4 a \<Rightarrow> SocketAddrV4 a port | V6 a \<Rightarrow> SocketAddrV6 a port 0 0)"

definition literal_address :: "authority \<Rightarrow> socket_addr option" where
  "literal_address a = map_option (\<lambda>ip. socket_addr_new ip (auth_port a)) (parse_ip_addr (auth_host a))"

definition trim_end_dots :: "string \<Rightarrow> string" where
  "trim_end_dots s = rev (dropWhile (\<lambda>c. c = CHR ''.'') (rev s))"

definition canonical_host :: "string \<Rightarrow> string" where
  "canonical_host host =
     (case parse_ip_addr host of None \<Rightarrow> ascii_lower (trim_end_dots host) | Some ip \<Rightarrow> ip_to_string ip)"

definition same_endpoint :: "authority \<Rightarrow> authority \<Rightarrow> bool" where
  "same_endpoint a b \<longleftrightarrow> canonical_host (auth_host a) = canonical_host (auth_host b) \<and> auth_port a = auth_port b"

section \<open>Streams\<close>

record byte_stream =
  bs_incoming :: string
  bs_outgoing :: string
  bs_writable :: bool

type_synonym 'a stream_io = "byte_stream \<Rightarrow> (gateway_error, 'a) rust_result \<times> byte_stream"

definition io_return :: "'a \<Rightarrow> 'a stream_io" where
  "io_return a s = (Inr a, s)"

definition io_fail :: "gateway_error \<Rightarrow> 'a stream_io" where
  "io_fail e s = (Inl e, s)"

definition io_bind :: "'a stream_io \<Rightarrow> ('a \<Rightarrow> 'b stream_io) \<Rightarrow> 'b stream_io" where
  "io_bind m f s = (case m s of (Inl e, s') \<Rightarrow> (Inl e, s') | (Inr a, s') \<Rightarrow> f a s')"

definition io_guard :: "bool \<Rightarrow> gateway_error \<Rightarrow> unit stream_io" where
  "io_guard b e = (if b then io_return () else io_fail e)"

definition io_lift :: "(gateway_error, 'a) rust_result \<Rightarrow> 'a stream_io" where
  "io_lift r s = (r, s)"

definition read_exact :: "nat \<Rightarrow> string stream_io" where
  "read_exact n s =
     (if length (bs_incoming s) < n then (Inl (GIo UnexpectedEof), s\<lparr>bs_incoming := []\<rparr>)
      else (Inr (take n (bs_incoming s)), s\<lparr>bs_incoming := drop n (bs_incoming s)\<rparr>))"

definition write_all :: "string \<Rightarrow> unit stream_io" where
  "write_all bytes s =
     (if bs_writable s then (Inr (), s\<lparr>bs_outgoing := bs_outgoing s @ bytes\<rparr>) else (Inl (GIo BrokenPipe), s))"

section \<open>Ingress authentication (authentication.rs)\<close>

definition MAGIC :: string where
  "MAGIC = ''CGNP'' @ [CHR 0x01]"

definition KEY_BYTES :: nat where
  "KEY_BYTES = 32"

definition authenticate :: "string \<Rightarrow> unit stream_io" where
  "authenticate key = io_bind (write_all MAGIC) (\<lambda>_. write_all key)"

definition constant_time_equal :: "string \<Rightarrow> string \<Rightarrow> bool" where
  "constant_time_equal left right = (foldl (\<lambda>difference (l, r). difference OR (byte l XOR byte r)) 0 (zip left right) = 0)"

definition verify :: "string \<Rightarrow> unit stream_io" where
  "verify key =
     (\<lambda>s. case read_exact (length MAGIC) s of
        (Inl _, s1) \<Rightarrow> (Inl GAuthenticationFailed, s1)
      | (Inr magic, s1) \<Rightarrow>
          (case read_exact KEY_BYTES s1 of
             (Inl _, s2) \<Rightarrow> (Inl GAuthenticationFailed, s2)
           | (Inr supplied, s2) \<Rightarrow>
               (if magic = MAGIC \<and> constant_time_equal key supplied then Inr () else Inl GAuthenticationFailed, s2)))"

section \<open>Resolve once, connect to authorized addresses (connect.rs)\<close>

datatype dns_outcome = DnsTimeout | DnsFailure io_error | DnsAnswer "socket_addr list"

datatype attempt_outcome = AttemptConnected | AttemptFailed io_error | AttemptTimedOut

text \<open>
  What the gateway observes of the network: the resolver's answer, the time that passed since the deadline was
  set when candidate \<open>i\<close> is considered, the outcome of attempt \<open>i\<close> at an address within a timeout, and whether the
  surrounding deadline cancels the attempts and after how many.
\<close>

record network_world =
  nw_dns :: "string \<Rightarrow> u16 \<Rightarrow> dns_outcome"
  nw_elapsed :: "nat \<Rightarrow> nanos"
  nw_attempt :: "nat \<Rightarrow> socket_addr \<Rightarrow> nanos \<Rightarrow> attempt_outcome"
  nw_cancelled_after :: "nat option"

definition gateway_resolve :: "gateway_config \<Rightarrow> network_world \<Rightarrow> authority \<Rightarrow> (gateway_error, socket_addr list) rust_result" where
  "gateway_resolve cfg w a =
     and_then
       (case literal_address a of
          Some literal \<Rightarrow> Inr [literal]
        | None \<Rightarrow>
            (case nw_dns w (auth_host a) (auth_port a) of
               DnsTimeout \<Rightarrow> Inl (GDnsTimedOut (auth_host a))
             | DnsFailure e \<Rightarrow> Inl (GDnsFailed (auth_host a) e)
             | DnsAnswer addresses \<Rightarrow> Inr addresses))
       (\<lambda>addresses.
          case find (\<lambda>address. socket_port address \<noteq> auth_port a) addresses of
            Some address \<Rightarrow> Inl (GResolvedPortMismatch (auth_host a) (auth_port a) address)
          | None \<Rightarrow>
              if length addresses > cfg_max_resolved_addresses cfg
              then Inl (GDnsAddressLimitExceeded (auth_host a) (cfg_max_resolved_addresses cfg))
              else if addresses = [] then Inl (GEmptyDnsResult (auth_host a))
              else Inr addresses)"

definition candidate_divisor :: "nat \<Rightarrow> nat" where
  "candidate_divisor candidates_left = (if candidates_left < 2 ^ 32 then candidates_left else 2 ^ 32 - 1)"

text \<open>The loop over the candidates; the first component lists the addresses a connection was attempted to.\<close>

fun try_candidates ::
  "unicode_data \<Rightarrow> effective_network \<Rightarrow> gateway_config \<Rightarrow> network_world \<Rightarrow> authority \<Rightarrow> resolved_target
     \<Rightarrow> nat \<Rightarrow> io_error option \<Rightarrow> bool \<Rightarrow> socket_addr list \<Rightarrow> socket_addr list \<times> (gateway_error, socket_addr) rust_result" where
  "try_candidates U n cfg w a t index last_failure timed_out [] =
     ([], Inl (if timed_out then GConnectTimedOut (auth_host a) (auth_port a)
               else GConnectFailed (auth_host a) (auth_port a)
                 (case last_failure of Some e \<Rightarrow> e | None \<Rightarrow> ConnectionRefused)))"
| "try_candidates U n cfg w a t index last_failure timed_out (candidate # rest) =
     (case effective_authorize_connection U n t candidate of
        Inl e \<Rightarrow> ([], Inl (GPolicyEvaluation e))
      | Inr Denied \<Rightarrow> ([], Inl (GPolicyDenied (auth_host a) (auth_port a)))
      | Inr ExternallyEnforced \<Rightarrow> ([], Inl (GExternallyEnforced (auth_host a) (auth_port a)))
      | Inr (Allowed exact) \<Rightarrow>
          (let remaining = cfg_connect_timeout cfg - nw_elapsed w index
           in if remaining = 0 then ([], Inl (GConnectTimedOut (auth_host a) (auth_port a)))
              else let candidate_timeout = remaining div candidate_divisor (length (target_addresses t) - index)
                   in (case nw_attempt w index exact candidate_timeout of
                         AttemptConnected \<Rightarrow> ([exact], Inr exact)
                       | AttemptFailed e \<Rightarrow>
                           apfst (Cons exact) (try_candidates U n cfg w a t (Suc index) (Some e) timed_out rest)
                       | AttemptTimedOut \<Rightarrow>
                           apfst (Cons exact) (try_candidates U n cfg w a t (Suc index) last_failure True rest))))"

definition connect_authorized ::
  "unicode_data \<Rightarrow> effective_network \<Rightarrow> gateway_config \<Rightarrow> network_world \<Rightarrow> authority \<Rightarrow> resolved_target
     \<Rightarrow> socket_addr list \<times> (gateway_error, socket_addr) rust_result" where
  "connect_authorized U n cfg w a t = try_candidates U n cfg w a t 0 None False (target_addresses t)"

definition gateway_connect ::
  "unicode_data \<Rightarrow> effective_network \<Rightarrow> gateway_config \<Rightarrow> network_world \<Rightarrow> authority
     \<Rightarrow> socket_addr list \<times> (gateway_error, socket_addr) rust_result" where
  "gateway_connect U n cfg w a =
     (case effective_decision_for_domain U n (auth_host a) of
        Inl e \<Rightarrow> ([], Inl (GPolicyEvaluation e))
      | Inr NetDeny \<Rightarrow> ([], Inl (GPolicyDenied (auth_host a) (auth_port a)))
      | Inr NetExternallyEnforced \<Rightarrow> ([], Inl (GExternallyEnforced (auth_host a) (auth_port a)))
      | Inr NetAllow \<Rightarrow>
          (case gateway_resolve cfg w a of
             Inl e \<Rightarrow> ([], Inl e)
           | Inr addresses \<Rightarrow>
               (case resolved_target_new U (auth_host a) addresses of
                  Inl e \<Rightarrow> ([], Inl (GInvalidResolvedTarget e))
                | Inr t \<Rightarrow>
                    if target_addresses t = [] then ([], Inl (GEmptyDnsResult (auth_host a)))
                    else (case connect_authorized U n cfg w a t of (attempts, result) \<Rightarrow>
                      (case nw_cancelled_after w of
                         None \<Rightarrow> (attempts, result)
                       | Some k \<Rightarrow> (take k attempts, Inl (GConnectTimedOut (auth_host a) (auth_port a))))))))"

section \<open>SOCKS5 (socks5.rs)\<close>

definition VERSION :: char where
  "VERSION = CHR 0x05"

definition NO_AUTH :: char where
  "NO_AUTH = CHR 0x00"

definition NO_ACCEPTABLE_METHOD :: char where
  "NO_ACCEPTABLE_METHOD = CHR 0xFF"

definition SOCKS_CONNECT :: char where
  "SOCKS_CONNECT = CHR 0x01"

definition reply_bytes :: "char \<Rightarrow> string" where
  "reply_bytes reply = [VERSION, reply, CHR 0x00, CHR 0x01, CHR 0x00, CHR 0x00, CHR 0x00, CHR 0x00, CHR 0x00, CHR 0x00]"

definition write_reply :: "char \<Rightarrow> unit stream_io" where
  "write_reply reply = write_all (reply_bytes reply)"

definition u16_of_bytes :: "char \<Rightarrow> char \<Rightarrow> u16" where
  "u16_of_bytes hi lo = of_nat (byte hi * 256 + byte lo)"

definition ipv4_of_bytes :: "string \<Rightarrow> ipv4_addr" where
  "ipv4_of_bytes b = ipv4_of_octets (byte (b ! 0)) (byte (b ! 1)) (byte (b ! 2)) (byte (b ! 3))"

definition ipv6_of_bytes :: "string \<Rightarrow> ipv6_addr" where
  "ipv6_of_bytes b = ipv6_of_segments (map (\<lambda>i. u16_of_bytes (b ! (2 * i)) (b ! (2 * i + 1))) [0..<8])"

definition negotiate_method :: "unit stream_io" where
  "negotiate_method =
     io_bind (read_exact 2) (\<lambda>greeting.
     io_bind (io_guard (greeting ! 0 = VERSION \<and> greeting ! 1 \<noteq> CHR 0x00) (GInvalidSocksRequest ''invalid greeting'')) (\<lambda>_.
     io_bind (read_exact (byte (greeting ! 1))) (\<lambda>methods.
     if NO_AUTH \<notin> set methods
     then io_bind (write_all [VERSION, NO_ACCEPTABLE_METHOD])
            (\<lambda>_. io_fail (GInvalidSocksRequest ''no supported authentication method''))
     else write_all [VERSION, NO_AUTH])))"

definition read_socks_host :: "char \<Rightarrow> string stream_io" where
  "read_socks_host kind =
     (if kind = CHR 0x01
      then io_bind (read_exact 4) (\<lambda>address. io_return (ipv4_to_string (ipv4_of_bytes address)))
      else if kind = CHR 0x03
      then io_bind (read_exact 1) (\<lambda>len.
           io_bind (io_guard (len ! 0 \<noteq> CHR 0x00) (GInvalidSocksRequest ''empty domain'')) (\<lambda>_.
           io_bind (read_exact (byte (len ! 0))) (\<lambda>domain.
           if is_utf8 domain then io_return domain else io_fail (GInvalidSocksRequest ''domain is not UTF-8''))))
      else if kind = CHR 0x04
      then io_bind (read_exact 16) (\<lambda>address. io_return (ipv6_to_string (ipv6_of_bytes address)))
      else io_bind (write_reply (CHR 0x08)) (\<lambda>_. io_fail (GInvalidSocksRequest ''unsupported address type'')))"

definition negotiate_and_read_request :: "authority_parser \<Rightarrow> authority stream_io" where
  "negotiate_and_read_request A =
     io_bind negotiate_method (\<lambda>_.
     io_bind (read_exact 4) (\<lambda>request.
     if request ! 0 \<noteq> VERSION \<or> request ! 2 \<noteq> CHR 0x00
     then io_bind (write_reply (CHR 0x01)) (\<lambda>_. io_fail (GInvalidSocksRequest ''invalid SOCKS5 request header''))
     else if request ! 1 \<noteq> SOCKS_CONNECT
     then io_bind (write_reply (CHR 0x07)) (\<lambda>_. io_fail (GInvalidSocksRequest ''only SOCKS5 CONNECT is supported''))
     else io_bind (read_socks_host (request ! 3)) (\<lambda>host.
          io_bind (read_exact 2) (\<lambda>port.
          case from_host_port A host (u16_of_bytes (port ! 0) (port ! 1)) of
            Inr authority \<Rightarrow> io_return authority
          | Inl error \<Rightarrow> io_bind (write_reply (CHR 0x01)) (\<lambda>_. io_fail error)))))"

fun reply_for_error :: "gateway_error \<Rightarrow> char" where
  "reply_for_error (GPolicyDenied _ _) = CHR 0x02"
| "reply_for_error (GExternallyEnforced _ _) = CHR 0x02"
| "reply_for_error (GDnsFailed _ _) = CHR 0x04"
| "reply_for_error (GDnsTimedOut _) = CHR 0x04"
| "reply_for_error (GEmptyDnsResult _) = CHR 0x04"
| "reply_for_error (GDnsAddressLimitExceeded _ _) = CHR 0x04"
| "reply_for_error (GConnectTimedOut _ _) = CHR 0x06"
| "reply_for_error (GConnectFailed _ _ _) = CHR 0x05"
| "reply_for_error _ = CHR 0x01"

text \<open>
  Up to the relay: the result carries the authority, the attempted addresses and, when a connection was made and
  reported to the client, the address the two streams are relayed with. \<open>in_time\<close> says whether the handshake ended
  before its deadline.
\<close>

definition socks_serve ::
  "authority_parser \<Rightarrow> unicode_data \<Rightarrow> effective_network \<Rightarrow> gateway_config \<Rightarrow> network_world \<Rightarrow> bool \<Rightarrow> byte_stream
     \<Rightarrow> socket_addr list \<times> (gateway_error, socket_addr) rust_result \<times> byte_stream" where
  "socks_serve A U n cfg w in_time stream =
     (if \<not> in_time then ([], Inl GHandshakeTimedOut, stream)
      else case negotiate_and_read_request A stream of
        (Inl e, s) \<Rightarrow> ([], Inl e, s)
      | (Inr authority, s) \<Rightarrow>
          (case gateway_connect U n cfg w authority of
             (attempts, Inl error) \<Rightarrow> (attempts, Inl error, snd (write_reply (reply_for_error error) s))
           | (attempts, Inr upstream) \<Rightarrow>
               (case write_reply (CHR 0x00) s of
                  (Inl e, s') \<Rightarrow> (attempts, Inl e, s')
                | (Inr _, s') \<Rightarrow> (attempts, Inr upstream, s'))))"

section \<open>Construction and dispatch (gateway.rs)\<close>

record gateway =
  gw_policy :: effective_network
  gw_config :: gateway_config
  gw_key :: string
  gw_permits :: nat

text \<open>\<open>key\<close> is what the operating system's random source returns.\<close>

definition gateway_new :: "effective_network \<Rightarrow> gateway_config \<Rightarrow> string option \<Rightarrow> (gateway_error, gateway) rust_result" where
  "gateway_new policy config key =
     (case nr_mode (network_requirements policy) of
        NetDisabled \<Rightarrow> Inl (GUnsupportedPolicy DisabledMode)
      | NetExternal \<Rightarrow> Inl (GUnsupportedPolicy ExternalMode)
      | NetEnabled \<Rightarrow>
          (case key of
             None \<Rightarrow> Inl GAuthenticationKeyGeneration
           | Some k \<Rightarrow> Inr \<lparr>gw_policy = policy, gw_config = config, gw_key = k,
                             gw_permits = cfg_max_concurrent_connections config\<rparr>))"

datatype protocol = Socks5 | Http1

text \<open>The protocol an ingress connection is served with, while a permit is held.\<close>

definition gateway_dispatch :: "gateway \<Rightarrow> bool \<Rightarrow> bool \<Rightarrow> byte_stream \<Rightarrow> (gateway_error, protocol) rust_result \<times> byte_stream" where
  "gateway_dispatch g verified_in_time first_in_time stream =
     (if gw_permits g = 0 then (Inl GConnectionLimitReached, stream)
      else if \<not> verified_in_time then (Inl GHandshakeTimedOut, stream)
      else case verify (gw_key g) stream of
        (Inl e, s) \<Rightarrow> (Inl e, s)
      | (Inr _, s) \<Rightarrow>
          if \<not> first_in_time then (Inl GHandshakeTimedOut, s)
          else (case bs_incoming s of
                  [] \<Rightarrow> (Inl (GIo UnexpectedEof), s)
                | first # _ \<Rightarrow> (Inr (if first = CHR 0x05 then Socks5 else Http1), s)))"

section \<open>Settings stay in range\<close>

inductive built_config :: "gateway_config \<Rightarrow> bool" where
  default: "built_config gateway_config_default"
| handshake: "built_config c \<Longrightarrow> with_handshake_timeout c t = Inr c' \<Longrightarrow> built_config c'"
| dns: "built_config c \<Longrightarrow> with_dns_timeout c t = Inr c' \<Longrightarrow> built_config c'"
| connect: "built_config c \<Longrightarrow> with_connect_timeout c t = Inr c' \<Longrightarrow> built_config c'"
| response: "built_config c \<Longrightarrow> with_response_header_timeout c t = Inr c' \<Longrightarrow> built_config c'"
| idle: "built_config c \<Longrightarrow> with_relay_idle_timeout c t = Inr c' \<Longrightarrow> built_config c'"
| concurrent: "built_config c \<Longrightarrow> 0 < limit \<Longrightarrow> with_max_concurrent_connections c limit = Inr c' \<Longrightarrow> built_config c'"
| requests: "built_config c \<Longrightarrow> 0 < limit \<Longrightarrow> built_config (with_max_requests_per_connection c limit)"
| resolved: "built_config c \<Longrightarrow> 0 < limit \<Longrightarrow> built_config (with_max_resolved_addresses c limit)"
| header: "built_config c \<Longrightarrow> with_http_header_bytes c limit = Inr c' \<Longrightarrow> built_config c'"
| limited: "built_config c \<Longrightarrow> 0 < limit \<Longrightarrow> built_config (with_relay_byte_limit c limit)"
| unlimited: "built_config c \<Longrightarrow> built_config (without_relay_byte_limit c)"

definition valid_config :: "gateway_config \<Rightarrow> bool" where
  "valid_config c \<longleftrightarrow>
     0 < cfg_handshake_timeout c \<and> 0 < cfg_dns_timeout c \<and> 0 < cfg_connect_timeout c \<and>
     0 < cfg_response_header_timeout c \<and> 0 < cfg_relay_idle_timeout c \<and>
     0 < cfg_max_concurrent_connections c \<and> cfg_max_concurrent_connections c \<le> MAX_CONCURRENT_CONNECTIONS \<and>
     0 < cfg_max_requests_per_connection c \<and> 0 < cfg_max_resolved_addresses c \<and>
     MIN_HTTP_HEADER_BYTES \<le> cfg_http_header_bytes c \<and> cfg_relay_byte_limit c \<noteq> Some 0"

lemmas config_defs =
  with_handshake_timeout_def with_dns_timeout_def with_connect_timeout_def with_response_header_timeout_def
  with_relay_idle_timeout_def with_max_concurrent_connections_def with_max_requests_per_connection_def
  with_max_resolved_addresses_def with_http_header_bytes_def with_relay_byte_limit_def without_relay_byte_limit_def
  validate_timeout_def validate_limit_def

lemma built_config_valid: "built_config c \<Longrightarrow> valid_config c"
proof (induction rule: built_config.induct)
  case default
  show ?case by code_simp
qed (auto simp: config_defs valid_config_def result_simps split: if_splits)

section \<open>Hosts and authorities\<close>

lemma same_endpoint_literals:
  assumes "parse_ip_addr (auth_host a) = Some x" and "parse_ip_addr (auth_host b) = Some y"
  shows "same_endpoint a b \<longleftrightarrow> x = y \<and> auth_port a = auth_port b"
  using assms by (simp add: same_endpoint_def canonical_host_def ip_to_string_inject)

lemma authority_parse_Inr:
  "authority_parse A v default_port = Inr a \<Longrightarrow> auth_port a \<noteq> 0 \<and> auth_host a \<noteq> [] \<and> CHR ''@'' \<notin> set v"
  by (auto simp: authority_parse_def Let_def split: if_splits option.splits)

lemma socket_addr_new_simps [simp]: "socket_port (socket_addr_new ip p) = p" "socket_ip (socket_addr_new ip p) = ip"
  by (cases ip; simp add: socket_addr_new_def)+

lemma strip_brackets_bracketed [simp]: "strip_brackets (CHR ''['' # host @ [CHR '']'']) = host"
  by (simp add: strip_brackets_def strip_prefix_def starts_with_def strip_suffix_def suffix_def)

lemma strip_brackets_plain: "CHR ''['' \<notin> set host \<Longrightarrow> strip_brackets host = host"
  by (cases host) (auto simp: strip_brackets_def strip_prefix_def starts_with_def)

section \<open>Connection attempts\<close>

lemma gateway_resolve_Inr:
  assumes "gateway_resolve cfg w a = Inr addresses"
  shows "addresses \<noteq> []" and "length addresses \<le> cfg_max_resolved_addresses cfg"
    and "\<forall>x \<in> set addresses. socket_port x = auth_port a"
    and "literal_address a = Some literal \<Longrightarrow> addresses = [literal]"
  using assms
  by (auto simp: gateway_resolve_def result_simps find_None_iff split: option.splits if_splits dns_outcome.splits)

lemma resolved_target_new_Inr:
  assumes "resolved_target_new U raw addresses = Inr t"
  shows "set (target_addresses t) \<subseteq> set addresses" and "length (target_addresses t) \<le> length addresses"
proof -
  from assms obtain domain seen where fold:
    "try_fold (resolved_step domain (parse_ip_literal domain)) ({}, []) addresses = Inr (seen, target_addresses t)"
    by (auto simp: resolved_target_new_def result_simps)
  have "keyed_list id (seen, target_addresses t) \<and> set (snd (seen, target_addresses t)) \<subseteq> set addresses"
    by (rule try_fold_invariant [OF fold])
      (auto simp: resolved_step_def keyed_list_def push_unique_def split: if_splits prod.splits)
  then have "distinct (target_addresses t)" and sub: "set (target_addresses t) \<subseteq> set addresses"
    by (simp_all add: keyed_list_def)
  then show "length (target_addresses t) \<le> length addresses"
    by (metis List.finite_set card_length card_mono distinct_card order_trans)
  show "set (target_addresses t) \<subseteq> set addresses" by (rule sub)
qed

lemma effective_authorize_Allowed:
  assumes "effective_authorize_connection U n t c = Inr (Allowed x)"
  shows "x = c" and "authorize_connection U (en_requested n) t c = Inr (Allowed c)"
    and "authorize_connection U (en_ceiling n) t c = Inr (Allowed c)"
proof -
  have only: "authorize_connection U p t c = Inr (Allowed b) \<Longrightarrow> b = c" for p b
    by (erule authorize_connection_Allowed) simp
  from assms obtain b where "authorize_connection U (en_requested n) t c = Inr (Allowed x)"
    "authorize_connection U (en_ceiling n) t c = Inr (Allowed b)"
    unfolding effective_authorize_connection_def both_network_def result_simps sum.inject combine_authorizations_Allowed by blast
  with only show "x = c" "authorize_connection U (en_requested n) t c = Inr (Allowed c)"
    "authorize_connection U (en_ceiling n) t c = Inr (Allowed c)" by blast+
qed

definition authorized_prefix ::
  "unicode_data \<Rightarrow> effective_network \<Rightarrow> resolved_target \<Rightarrow> socket_addr list \<Rightarrow> socket_addr list \<times> (gateway_error, socket_addr) rust_result \<Rightarrow> bool" where
  "authorized_prefix U n t candidates r \<longleftrightarrow>
     prefix (fst r) candidates \<and> (\<forall>x \<in> set (fst r). effective_authorize_connection U n t x = Inr (Allowed x)) \<and>
     (\<forall>x. snd r = Inr x \<longrightarrow> fst r \<noteq> [] \<and> last (fst r) = x)"

lemma authorized_prefix_Nil [simp]: "authorized_prefix U n t cs ([], Inl e)"
  by (simp add: authorized_prefix_def)

lemma authorized_prefix_Cons:
  "effective_authorize_connection U n t c = Inr (Allowed c) \<Longrightarrow> authorized_prefix U n t cs r \<Longrightarrow>
     authorized_prefix U n t (c # cs) (apfst (Cons c) r)"
  by (auto simp: authorized_prefix_def)

lemma try_candidates_authorized:
  "authorized_prefix U n t candidates (try_candidates U n cfg w a t index last_failure timed_out candidates)"
proof (induction candidates arbitrary: index last_failure timed_out)
  case (Cons c cs)
  show ?case
  proof (cases "effective_authorize_connection U n t c")
    case (Inr auth)
    show ?thesis
    proof (cases auth)
      case (Allowed x)
      with Inr have c: "effective_authorize_connection U n t c = Inr (Allowed c)" using effective_authorize_Allowed(1) by blast
      then have "authorized_prefix U n t (c # cs) ([c], Inr c)" by (simp add: authorized_prefix_def)
      with c Cons.IH show ?thesis by (simp add: Let_def authorized_prefix_Cons split: attempt_outcome.splits)
    qed (use Inr in simp_all)
  qed simp
qed simp

lemma authorized_prefix_take: "authorized_prefix U n t cs (xs, r) \<Longrightarrow> authorized_prefix U n t cs (take k xs, Inl e)"
  by (auto simp: authorized_prefix_def dest: in_set_takeD intro: prefix_order.trans [OF take_is_prefix])

section \<open>Streams\<close>

lemma read_exact_append: "length xs = n \<Longrightarrow> bs_incoming s = xs @ rest \<Longrightarrow> read_exact n s = (Inr xs, s\<lparr>bs_incoming := rest\<rparr>)"
  by (simp add: read_exact_def)

lemma read_exact_Inr:
  "read_exact n s = (Inr xs, s') \<longleftrightarrow> length xs = n \<and> bs_incoming s = xs @ bs_incoming s' \<and> s' = s\<lparr>bs_incoming := bs_incoming s'\<rparr>"
  by (cases s; cases s') (auto simp: read_exact_def split: if_splits)

lemma read_exact_frame:
  "read_exact n s = (Inr xs, s') \<Longrightarrow> bs_incoming s = xs @ bs_incoming s' \<and> bs_outgoing s' = bs_outgoing s"
  by (auto simp: read_exact_def split: if_splits)

lemma io_bind_Inr: "io_bind m f s = (Inr b, s') \<longleftrightarrow> (\<exists>a s1. m s = (Inr a, s1) \<and> f a s1 = (Inr b, s'))"
  by (auto simp: io_bind_def split: prod.splits sum.splits)

lemma io_guard_Inr [simp]: "io_guard b e s = (Inr u, s') \<longleftrightarrow> b \<and> s' = s"
  by (auto simp: io_guard_def io_return_def io_fail_def)

lemma constant_time_equal_iff: "length left = length right \<Longrightarrow> constant_time_equal left right \<longleftrightarrow> left = right"
proof -
  have or0: "(a OR b) = 0 \<longleftrightarrow> a = 0 \<and> b = 0" for a b :: nat by (rule or_eq_0_iff)
  have xor0: "(byte l XOR byte r) = 0 \<longleftrightarrow> l = r" for l r :: char
  proof -
    have "(byte l XOR byte r) = 0 \<longleftrightarrow> byte l = byte r"
      by (metis bit.xor_self xor.assoc xor.right_neutral xor_self_eq xor.left_neutral)
    then show ?thesis by simp
  qed
  have "foldl (\<lambda>difference (l, r). difference OR (byte l XOR byte r)) d (zip left right) = 0 \<longleftrightarrow> d = 0 \<and> left = right"
    if "length left = length right" for d
    using that by (induction left right arbitrary: d rule: list_induct2) (auto simp: or0 xor0)
  then show "length left = length right \<Longrightarrow> ?thesis" by (simp add: constant_time_equal_def)
qed

lemma verify_Inr:
  assumes "length key = KEY_BYTES"
  shows "verify key s = (Inr (), s') \<longleftrightarrow>
    bs_incoming s = MAGIC @ key @ bs_incoming s' \<and> s' = s\<lparr>bs_incoming := bs_incoming s'\<rparr>"
proof
  assume "verify key s = (Inr (), s')"
  then obtain supplied s1 where read: "read_exact (length MAGIC) s = (Inr MAGIC, s1)" "read_exact KEY_BYTES s1 = (Inr supplied, s')"
    and eq: "constant_time_equal key supplied"
    by (auto simp: verify_def split: prod.splits sum.splits if_splits)
  from read(2) have "length supplied = KEY_BYTES" unfolding read_exact_Inr by simp
  with eq have "supplied = key" using constant_time_equal_iff [of key supplied] assms by simp
  with read show "bs_incoming s = MAGIC @ key @ bs_incoming s' \<and> s' = s\<lparr>bs_incoming := bs_incoming s'\<rparr>"
    unfolding read_exact_Inr by (cases s; cases s1; cases s') simp
next
  assume s: "bs_incoming s = MAGIC @ key @ bs_incoming s' \<and> s' = s\<lparr>bs_incoming := bs_incoming s'\<rparr>"
  then have "read_exact (length MAGIC) s = (Inr MAGIC, s\<lparr>bs_incoming := key @ bs_incoming s'\<rparr>)"
    by (intro read_exact_append) simp_all
  moreover have "read_exact KEY_BYTES (s\<lparr>bs_incoming := key @ bs_incoming s'\<rparr>) = (Inr key, s')"
    using s assms by (subst read_exact_append [of key _ _ "bs_incoming s'"]) simp_all
  moreover have "constant_time_equal key key" using constant_time_equal_iff [of key key] by simp
  ultimately show "verify key s = (Inr (), s')" by (simp add: verify_def)
qed

section \<open>Properties\<close>

text \<open>C1: The gateway contacts only what the policy authorizes. Every address a connection is attempted to, whether or not the
  attempt succeeds or is cancelled, is one of the resolved addresses in their order, carries the requested port, is allowed
  by both layers of the composed policy for the resolved target, and equals the literal when the host is one;
  nothing is attempted for a host the policy does not allow, there are never more attempts than the address
  bound, and a returned stream is the last attempt.\<close>

theorem gateway_connects_only_authorized:
  assumes "gateway_connect U n cfg w a = (attempts, result)"
  shows "(\<forall>x \<in> set attempts. socket_port x = auth_port a \<and>
       (\<forall>ip. parse_ip_addr (auth_host a) = Some ip \<longrightarrow> socket_ip x = ip) \<and>
       effective_decision_for_domain U n (auth_host a) = Inr NetAllow \<and>
       (\<exists>addresses t. gateway_resolve cfg w a = Inr addresses \<and> resolved_target_new U (auth_host a) addresses = Inr t \<and>
          prefix attempts (target_addresses t) \<and>
          authorize_connection U (en_requested n) t x = Inr (Allowed x) \<and>
          authorize_connection U (en_ceiling n) t x = Inr (Allowed x))) \<and>
     length attempts \<le> cfg_max_resolved_addresses cfg \<and>
     (\<forall>x. result = Inr x \<longrightarrow> attempts \<noteq> [] \<and> last attempts = x)"
proof (cases "attempts = [] \<and> (\<exists>e. result = Inl e)")
  case False
  then obtain addresses t where allowed: "effective_decision_for_domain U n (auth_host a) = Inr NetAllow"
    and resolve: "gateway_resolve cfg w a = Inr addresses" and t: "resolved_target_new U (auth_host a) addresses = Inr t"
    and run: "(case connect_authorized U n cfg w a t of (attempts, result) \<Rightarrow>
        (case nw_cancelled_after w of None \<Rightarrow> (attempts, result)
         | Some k \<Rightarrow> (take k attempts, Inl (GConnectTimedOut (auth_host a) (auth_port a))))) = (attempts, result)"
    using assms unfolding gateway_connect_def
    by (auto split: sum.splits network_decision.splits if_splits)
  have "authorized_prefix U n t (target_addresses t) (connect_authorized U n cfg w a t)"
    unfolding connect_authorized_def by (rule try_candidates_authorized)
  with run have auth: "authorized_prefix U n t (target_addresses t) (attempts, result)"
    by (auto simp: authorized_prefix_take split: prod.splits option.splits)
  then have pre: "prefix attempts (target_addresses t)" by (simp add: authorized_prefix_def)
  have sub: "set attempts \<subseteq> set addresses"
    using set_mono_prefix [OF pre] resolved_target_new_Inr(1) [OF t] by blast
  have "length attempts \<le> cfg_max_resolved_addresses cfg"
    using prefix_length_le [OF pre] resolved_target_new_Inr(2) [OF t] gateway_resolve_Inr(2) [OF resolve] by linarith
  moreover have "socket_ip x = ip" if "x \<in> set attempts" "parse_ip_addr (auth_host a) = Some ip" for x ip
  proof -
    have "literal_address a = Some (socket_addr_new ip (auth_port a))" by (simp add: literal_address_def that(2))
    from gateway_resolve_Inr(4) [OF resolve this] sub that(1) show ?thesis by auto
  qed
  moreover have "socket_port x = auth_port a" if "x \<in> set attempts" for x
    using gateway_resolve_Inr(3) [OF resolve] sub that by blast
  moreover have "authorize_connection U (en_requested n) t x = Inr (Allowed x)" "authorize_connection U (en_ceiling n) t x = Inr (Allowed x)"
    if "x \<in> set attempts" for x
    using effective_authorize_Allowed(2,3) auth that unfolding authorized_prefix_def by (metis fst_conv)+
  ultimately show ?thesis
    using allowed resolve t pre auth unfolding authorized_prefix_def by (metis fst_conv snd_conv)
qed auto

definition example_world :: network_world where
  "example_world =
     \<lparr>nw_dns = (\<lambda>_ port. DnsAnswer [SocketAddrV4 0x5DB8D822 port, SocketAddrV4 0x5DB8D823 port]), nw_elapsed = (\<lambda>_. 5),
      nw_attempt = (\<lambda>i _ _. if i = 0 then AttemptTimedOut else AttemptConnected), nw_cancelled_after = None\<rparr>"

definition example_effective_network :: effective_network where
  "example_effective_network = \<lparr>en_requested = net_unrestricted, en_ceiling = net_enabled\<rparr>"

theorem gateway_connects_only_authorized_witness:
  "\<exists>attempts. gateway_connect ascii_tables example_effective_network gateway_config_default example_world
      \<lparr>auth_host = ''example.com'', auth_port = 443\<rparr> = (attempts, Inr (SocketAddrV4 0x5DB8D823 443)) \<and>
    last attempts = SocketAddrV4 0x5DB8D823 443 \<and> length attempts \<le> 64"
proof -
  have run: "gateway_connect ascii_tables example_effective_network gateway_config_default example_world
      \<lparr>auth_host = ''example.com'', auth_port = 443\<rparr> =
      ([SocketAddrV4 0x5DB8D822 443, SocketAddrV4 0x5DB8D823 443], Inr (SocketAddrV4 0x5DB8D823 443))" by code_simp
  from gateway_connects_only_authorized [OF run] run show ?thesis by (simp add: gateway_config_default_def)
qed

text \<open>C8: Only a holder of the gateway's key is served. A connection reaches a protocol exactly when a permit is free, the deadlines
  are met and the stream starts with the magic bytes and the 32 key bytes followed by at least one byte, which selects
  the protocol and stays in the stream; the frame that \<open>authenticate\<close> writes is such a start.\<close>

theorem ingress_needs_the_key:
  assumes "length (gw_key g) = KEY_BYTES"
  shows "(gateway_dispatch g v f s = (Inr p, s') \<longleftrightarrow>
      0 < gw_permits g \<and> v \<and> f \<and> (\<exists>first rest. bs_incoming s = MAGIC @ gw_key g @ first # rest \<and>
        s' = s\<lparr>bs_incoming := first # rest\<rparr> \<and> p = (if first = CHR 0x05 then Socks5 else Http1))) \<and>
    (bs_writable client \<longrightarrow>
      authenticate (gw_key g) client = (Inr (), client\<lparr>bs_outgoing := bs_outgoing client @ MAGIC @ gw_key g\<rparr>))"
proof
  show "gateway_dispatch g v f s = (Inr p, s') \<longleftrightarrow>
      0 < gw_permits g \<and> v \<and> f \<and> (\<exists>first rest. bs_incoming s = MAGIC @ gw_key g @ first # rest \<and>
        s' = s\<lparr>bs_incoming := first # rest\<rparr> \<and> p = (if first = CHR 0x05 then Socks5 else Http1))" (is "?l \<longleftrightarrow> ?r")
  proof
    assume ?l
    then obtain s1 first rest where "0 < gw_permits g" "v" "f" and ver: "verify (gw_key g) s = (Inr (), s1)"
      and s1: "bs_incoming s1 = first # rest" "s' = s1" "p = (if first = CHR 0x05 then Socks5 else Http1)"
      by (auto simp: gateway_dispatch_def split: if_splits prod.splits sum.splits list.splits)
    moreover from ver [unfolded verify_Inr [OF assms]] s1
    have "bs_incoming s = MAGIC @ gw_key g @ first # rest" "s1 = s\<lparr>bs_incoming := first # rest\<rparr>" by simp_all
    ultimately show ?r by blast
  next
    assume ?r
    then obtain first rest where r: "0 < gw_permits g" "v" "f" "bs_incoming s = MAGIC @ gw_key g @ first # rest"
      "s' = s\<lparr>bs_incoming := first # rest\<rparr>" "p = (if first = CHR 0x05 then Socks5 else Http1)" by blast
    then have "verify (gw_key g) s = (Inr (), s')" unfolding verify_Inr [OF assms] by simp
    with r show ?l by (simp add: gateway_dispatch_def)
  qed
qed (simp add: authenticate_def io_bind_def write_all_def)

theorem ingress_needs_the_key_witness:
  "\<exists>key. length key = KEY_BYTES \<and>
     gateway_dispatch \<lparr>gw_policy = example_effective_network, gw_config = gateway_config_default, gw_key = key, gw_permits = 1\<rparr> True True
       \<lparr>bs_incoming = MAGIC @ key @ [CHR 0x05], bs_outgoing = [], bs_writable = True\<rparr>
     = (Inr Socks5, \<lparr>bs_incoming = [CHR 0x05], bs_outgoing = [], bs_writable = True\<rparr>)"
proof -
  let ?key = "replicate 32 CHR ''k''"
  let ?g = "\<lparr>gw_policy = example_effective_network, gw_config = gateway_config_default, gw_key = ?key, gw_permits = 1\<rparr>"
  have key: "length (gw_key ?g) = KEY_BYTES" by (simp add: KEY_BYTES_def)
  from ingress_needs_the_key [OF key, THEN conjunct1, of True True
      "\<lparr>bs_incoming = MAGIC @ ?key @ [CHR 0x05], bs_outgoing = [], bs_writable = True\<rparr>" Socks5
      "\<lparr>bs_incoming = [CHR 0x05], bs_outgoing = [], bs_writable = True\<rparr>"]
  show ?thesis using key by (intro exI [of _ ?key]) simp
qed

subsection \<open>The SOCKS5 wire format\<close>

datatype socks_target = SocksV4 ipv4_addr | SocksDomain string | SocksV6 ipv6_addr

definition u16_bytes :: "u16 \<Rightarrow> string" where
  "u16_bytes p = [char_of (unat p div 256), char_of (unat p mod 256)]"

fun socks_encode :: "socks_target \<Rightarrow> string" where
  "socks_encode (SocksV4 a) = CHR 0x01 # map (\<lambda>i. char_of (octet i a)) [0, 1, 2, 3]"
| "socks_encode (SocksDomain d) = CHR 0x03 # char_of (length d) # d"
| "socks_encode (SocksV6 a) = CHR 0x04 # concat (map u16_bytes (segments a))"

fun socks_host :: "socks_target \<Rightarrow> string" where
  "socks_host (SocksV4 a) = ipv4_to_string a"
| "socks_host (SocksDomain d) = d"
| "socks_host (SocksV6 a) = ipv6_to_string a"

fun socks_ip :: "socks_target \<Rightarrow> ip_addr option" where
  "socks_ip (SocksV4 a) = Some (V4 a)"
| "socks_ip (SocksDomain d) = parse_ip_addr d"
| "socks_ip (SocksV6 a) = Some (V6 a)"

fun valid_socks_target :: "socks_target \<Rightarrow> bool" where
  "valid_socks_target (SocksDomain d) \<longleftrightarrow>
     d \<noteq> [] \<and> length d < 256 \<and> is_utf8 d \<and> CHR ''['' \<notin> set d \<and> CHR ''@'' \<notin> set d"
| "valid_socks_target _ \<longleftrightarrow> True"

definition socks_request :: "string \<Rightarrow> socks_target \<Rightarrow> u16 \<Rightarrow> string" where
  "socks_request methods target port =
     [VERSION, char_of (length methods)] @ methods @ [VERSION, SOCKS_CONNECT, CHR 0x00] @ socks_encode target @ u16_bytes port"

definition bracketed_host :: "string \<Rightarrow> string" where
  "bracketed_host host = (if parse_ipv6 host \<noteq> None then ''['' @ host @ '']'' else host)"

lemma u16_of_u16_bytes [simp]: "u16_of_bytes (char_of (unat p div 256)) (char_of (unat p)) = p"
proof -
  have "unat p < 65536" using unsigned_less [of p] by simp
  then have "unat p div 256 < 256" by simp
  then have "byte (char_of (unat p div 256)) * 256 + byte (char_of (unat p)) = unat p"
    by simp
  then show ?thesis by (simp add: u16_of_bytes_def)
qed

lemma ipv4_of_encoded: "ipv4_of_bytes (map (\<lambda>i. char_of (octet i a)) [0, 1, 2, 3]) = a"
  using ipv4_of_octets_octet [of a] octet_less [of _ a] by (simp add: ipv4_of_bytes_def)

lemma ipv6_of_encoded: "ipv6_of_bytes (concat (map u16_bytes (segments a))) = a"
  by (cases a) (simp add: ipv6_of_bytes_def u16_bytes_def upt_rec ipv6_of_segments_def)

lemma socks_ip_host: "socks_ip target = Some ip \<Longrightarrow> parse_ip_addr (socks_host target) = Some ip"
  using parse_ip_display by (cases target) (auto simp flip: ip_to_string.simps)

lemma socks_host_text:
  assumes "valid_socks_target target"
  shows "socks_host target \<noteq> []" and "CHR ''['' \<notin> set (socks_host target)" and "CHR ''@'' \<notin> set (socks_host target)"
proof -
  have ip: "s \<noteq> [] \<and> CHR ''['' \<notin> set s \<and> CHR ''@'' \<notin> set s" if "parse_ip_addr s = Some ip" for s ip
  proof -
    have "parse_ip_addr [] = None" "\<not> ip_char CHR ''[''" "\<not> ip_char CHR ''@''" by code_simp+
    with parse_ip_addr_chars [OF that] that show ?thesis by auto
  qed
  have "socks_host target \<noteq> [] \<and> CHR ''['' \<notin> set (socks_host target) \<and> CHR ''@'' \<notin> set (socks_host target)"
  proof (cases target)
    case (SocksDomain d)
    with assms show ?thesis by simp
  qed (use ip [OF socks_ip_host [of target]] in simp_all)
  then show "socks_host target \<noteq> []" "CHR ''['' \<notin> set (socks_host target)" "CHR ''@'' \<notin> set (socks_host target)" by blast+
qed

lemma from_host_port_socks:
  assumes "valid_socks_target target" and "port \<noteq> 0"
    and "A (host_port_text (bracketed_host (socks_host target)) port) = Some (bracketed_host (socks_host target), Some port)"
  shows "from_host_port A (socks_host target) port = Inr \<lparr>auth_host = socks_host target, auth_port = port\<rparr>"
proof -
  note host = socks_host_text [OF assms(1)]
  have "strip_brackets (bracketed_host (socks_host target)) = socks_host target"
    using strip_brackets_plain [OF host(2)] by (simp add: bracketed_host_def)
  moreover have "CHR ''@'' \<notin> set (host_port_text (bracketed_host (socks_host target)) port)"
    using host(3) radix_str_alphabet [of 10 "CHR ''@''" "unat port"] by (auto simp: host_port_text_def bracketed_host_def)
  moreover have "from_host_port A (socks_host target) port = authority_parse A (host_port_text (bracketed_host (socks_host target)) port) None"
    using host(1) assms(2) by (simp add: from_host_port_def bracketed_host_def Let_def)
  ultimately show ?thesis using assms(2,3) host(1) by (simp add: authority_parse_def)
qed

lemma io_bind_step: "m s = (Inr a, s1) \<Longrightarrow> io_bind m f s = f a s1"
  by (simp add: io_bind_def)

lemma negotiate_method_encoded:
  assumes "0 < length methods" "length methods < 256" "NO_AUTH \<in> set methods" "bs_writable s"
    and "bs_incoming s = [VERSION, char_of (length methods)] @ methods @ rest"
  shows "negotiate_method s = (Inr (), s\<lparr>bs_incoming := rest, bs_outgoing := bs_outgoing s @ [VERSION, NO_AUTH]\<rparr>)"
proof -
  let ?s1 = "s\<lparr>bs_incoming := methods @ rest\<rparr>"
  have len: "byte (char_of (length methods)) = length methods" using assms(2) by simp
  then have "char_of (length methods) \<noteq> CHR 0x00" using assms(1) by (auto dest: arg_cong [of _ _ byte])
  then show ?thesis
    unfolding negotiate_method_def
    using assms len
    by (simp add: io_bind_step [OF read_exact_append] io_bind_def io_guard_def io_return_def read_exact_def write_all_def)
qed

lemma read_socks_host_encoded:
  assumes "valid_socks_target target" and "bs_incoming s = tl (socks_encode target) @ rest"
  shows "read_socks_host (hd (socks_encode target)) s = (Inr (socks_host target), s\<lparr>bs_incoming := rest\<rparr>)"
proof (cases target)
  case (SocksV4 a)
  have "read_exact 4 s = (Inr (map (\<lambda>i. char_of (octet i a)) [0, 1, 2, 3]), s\<lparr>bs_incoming := rest\<rparr>)"
    using assms(2) SocksV4 by (intro read_exact_append) simp_all
  then show ?thesis
    using ipv4_of_encoded [of a] by (simp add: SocksV4 read_socks_host_def io_bind_def io_return_def)
next
  case (SocksDomain d)
  then have d: "d \<noteq> []" "byte (char_of (length d)) = length d" "is_utf8 d" using assms(1) by simp_all
  then have "char_of (length d) \<noteq> CHR 0x00" by (auto dest: arg_cong [of _ _ byte])
  moreover have "read_exact 1 s = (Inr [char_of (length d)], s\<lparr>bs_incoming := d @ rest\<rparr>)"
    using assms(2) SocksDomain by (intro read_exact_append) simp_all
  moreover have "read_exact (length d) (s\<lparr>bs_incoming := d @ rest\<rparr>) = (Inr d, s\<lparr>bs_incoming := rest\<rparr>)"
    by (subst read_exact_append [of d _ _ rest]) simp_all
  ultimately show ?thesis
    using d by (simp add: SocksDomain read_socks_host_def io_bind_def io_guard_def io_return_def)
next
  case (SocksV6 a)
  have "length (concat (map u16_bytes (segments a))) = 16" by (cases a) (simp add: u16_bytes_def)
  then have "read_exact 16 s = (Inr (concat (map u16_bytes (segments a))), s\<lparr>bs_incoming := rest\<rparr>)"
    using assms(2) SocksV6 by (intro read_exact_append) simp_all
  then show ?thesis by (simp add: SocksV6 read_socks_host_def io_bind_def ipv6_of_encoded io_return_def)
qed

lemma negotiate_method_Inr:
  assumes "negotiate_method s = (Inr (), s')"
  obtains methods where "bs_incoming s = [VERSION, char_of (length methods)] @ methods @ bs_incoming s'"
    and "NO_AUTH \<in> set methods" and "bs_outgoing s' = bs_outgoing s @ [VERSION, NO_AUTH]"
proof -
  from assms obtain greeting methods s1 s2 where read: "read_exact 2 s = (Inr greeting, s1)"
    "read_exact (byte (greeting ! 1)) s1 = (Inr methods, s2)"
    and ok: "greeting ! 0 = VERSION" "NO_AUTH \<in> set methods" "write_all [VERSION, NO_AUTH] s2 = (Inr (), s')"
    unfolding negotiate_method_def io_bind_Inr io_guard_Inr
    by (auto simp: io_bind_Inr io_fail_def split: if_splits)
  from read(1) obtain v len where "greeting = [v, len]"
    unfolding read_exact_Inr by (metis (no_types, lifting) One_nat_def Suc_1 length_0_conv length_Suc_conv)
  with read ok have "greeting = [VERSION, char_of (length methods)]" by (auto simp: read_exact_Inr)
  with ok(2,3) read_exact_frame [OF read(1)] read_exact_frame [OF read(2)] show thesis
    by (intro that [of methods]) (auto simp: write_all_def split: if_splits)
qed

lemma negotiate_encoded:
  assumes "valid_socks_target target" and "port \<noteq> 0" and "0 < length methods" "length methods < 256" "NO_AUTH \<in> set methods"
    and "bs_writable s" and "bs_incoming s = socks_request methods target port @ rest"
    and "A (host_port_text (bracketed_host (socks_host target)) port) = Some (bracketed_host (socks_host target), Some port)"
  shows "negotiate_and_read_request A s =
    (Inr \<lparr>auth_host = socks_host target, auth_port = port\<rparr>,
     s\<lparr>bs_incoming := rest, bs_outgoing := bs_outgoing s @ [VERSION, NO_AUTH]\<rparr>)"
proof -
  obtain kind body where enc: "socks_encode target = kind # body" by (cases target) simp_all
  let ?s1 = "s\<lparr>bs_outgoing := bs_outgoing s @ [VERSION, NO_AUTH]\<rparr>"
  have "negotiate_method s = (Inr (), ?s1\<lparr>bs_incoming := [VERSION, SOCKS_CONNECT, CHR 0x00, kind] @ body @ u16_bytes port @ rest\<rparr>)"
    using negotiate_method_encoded [OF assms(3-6), of "[VERSION, SOCKS_CONNECT, CHR 0x00, kind] @ body @ u16_bytes port @ rest"]
      assms(7) by (simp add: socks_request_def enc)
  moreover have "read_exact 4 (?s1\<lparr>bs_incoming := [VERSION, SOCKS_CONNECT, CHR 0x00, kind] @ body @ u16_bytes port @ rest\<rparr>) =
      (Inr [VERSION, SOCKS_CONNECT, CHR 0x00, kind], ?s1\<lparr>bs_incoming := body @ u16_bytes port @ rest\<rparr>)"
    by (subst read_exact_append [of "[VERSION, SOCKS_CONNECT, CHR 0x00, kind]" _ _ "body @ u16_bytes port @ rest"]) simp_all
  moreover have "read_socks_host kind (?s1\<lparr>bs_incoming := body @ u16_bytes port @ rest\<rparr>) =
      (Inr (socks_host target), ?s1\<lparr>bs_incoming := u16_bytes port @ rest\<rparr>)"
    using read_socks_host_encoded [OF assms(1), of "?s1\<lparr>bs_incoming := body @ u16_bytes port @ rest\<rparr>" "u16_bytes port @ rest"]
    by (simp add: enc)
  moreover have "read_exact 2 (?s1\<lparr>bs_incoming := u16_bytes port @ rest\<rparr>) = (Inr (u16_bytes port), ?s1\<lparr>bs_incoming := rest\<rparr>)"
    by (subst read_exact_append [of "u16_bytes port" _ _ rest]) (simp_all add: u16_bytes_def)
  moreover have "u16_of_bytes (u16_bytes port ! 0) (u16_bytes port ! 1) = port" by (simp add: u16_bytes_def)
  ultimately show ?thesis
    using from_host_port_socks [where A = A, OF assms(1,2,8)] by (simp add: negotiate_and_read_request_def io_bind_def io_return_def)
qed

lemma read_socks_host_Inr:
  assumes "read_socks_host kind s = (Inr host, s')"
  shows "kind \<in> {CHR 0x01, CHR 0x03, CHR 0x04} \<and> (\<exists>body. bs_incoming s = body @ bs_incoming s') \<and> bs_outgoing s' = bs_outgoing s"
proof -
  show ?thesis
    using assms unfolding read_socks_host_def
    by (auto simp: io_bind_Inr io_return_def io_fail_def dest!: read_exact_frame split: if_splits)
qed

lemma report_authority_Inr:
  "(case r of Inl e \<Rightarrow> io_bind (write_reply c) (\<lambda>_. io_fail e) | Inr authority \<Rightarrow> io_return authority) s = (Inr a, s') \<longleftrightarrow>
     r = Inr a \<and> s' = s"
  by (cases r) (auto simp: io_return_def io_fail_def io_bind_Inr)

lemma refused_Inr: "io_bind (write_reply c) (\<lambda>_. io_fail e) s \<noteq> (Inr a, s')"
  by (simp add: io_bind_Inr io_fail_def)

lemma negotiate_Inr:
  assumes "negotiate_and_read_request A s = (Inr a, s')"
  shows "(\<exists>methods kind body. NO_AUTH \<in> set methods \<and> kind \<in> {CHR 0x01, CHR 0x03, CHR 0x04} \<and>
         bs_incoming s = [VERSION, char_of (length methods)] @ methods @ [VERSION, SOCKS_CONNECT, CHR 0x00, kind] @ body @ bs_incoming s') \<and>
      bs_outgoing s' = bs_outgoing s @ [VERSION, NO_AUTH] \<and> auth_port a \<noteq> 0 \<and> auth_host a \<noteq> []"
proof -
  from assms obtain s1 request s2 host s3 port s4 where steps: "negotiate_method s = (Inr (), s1)" "read_exact 4 s1 = (Inr request, s2)"
    "read_socks_host (request ! 3) s2 = (Inr host, s3)" "read_exact 2 s3 = (Inr port, s4)"
    and req: "request ! 0 = VERSION" "request ! 2 = CHR 0x00" "request ! 1 = SOCKS_CONNECT"
    and a: "from_host_port A host (u16_of_bytes (port ! 0) (port ! 1)) = Inr a" "s4 = s'"
    unfolding negotiate_and_read_request_def io_bind_Inr [of negotiate_method]
    by (auto simp: io_bind_Inr [of "read_exact _"] io_bind_Inr [of "read_socks_host _"] report_authority_Inr refused_Inr split: if_splits)
  from negotiate_method_Inr [OF steps(1)] obtain methods where m: "NO_AUTH \<in> set methods"
    "bs_incoming s = [VERSION, char_of (length methods)] @ methods @ bs_incoming s1" "bs_outgoing s1 = bs_outgoing s @ [VERSION, NO_AUTH]" .
  from read_socks_host_Inr [OF steps(3)] obtain body where h: "request ! 3 \<in> {CHR 0x01, CHR 0x03, CHR 0x04}"
    "bs_incoming s2 = body @ bs_incoming s3" "bs_outgoing s3 = bs_outgoing s2" by blast
  have "length request = 4" using steps(2) unfolding read_exact_Inr by simp
  then have "request = [request ! 0, request ! 1, request ! 2, request ! 3]" by (intro nth_equalityI) (auto simp: less_Suc_eq numeral_eq_Suc)
  then have request: "request = [VERSION, SOCKS_CONNECT, CHR 0x00, request ! 3]" using req by metis
  have r: "bs_incoming s1 = request @ bs_incoming s2" "bs_outgoing s2 = bs_outgoing s1"
    "bs_incoming s3 = port @ bs_incoming s'" "bs_outgoing s' = bs_outgoing s3"
    using read_exact_frame [OF steps(2)] read_exact_frame [OF steps(4)] a(2) by simp_all
  have "bs_incoming s = [VERSION, char_of (length methods)] @ methods @ [VERSION, SOCKS_CONNECT, CHR 0x00, request ! 3] @ (body @ port) @ bs_incoming s'"
    using m(2) r(1,3) h(2) request by (metis append.assoc)
  moreover have "auth_port a \<noteq> 0 \<and> auth_host a \<noteq> []"
    using a(1) authority_parse_Inr by (auto simp: from_host_port_def Let_def split: if_splits)
  ultimately show ?thesis using m h r by (metis append_assoc)
qed

text \<open>C39: The SOCKS5 handshake reads what a client wrote. A CONNECT request for an IPv4 address, an IPv6 address or a domain,
  after a greeting that offers no authentication, yields the authority of that host and port, consumes exactly the
  request, answers the selected method, and a numeric host is the address the client sent; conversely a handshake that succeeds has read a greeting
  that offers no authentication and a CONNECT request of one of the three address forms, and nothing else was
  written. The \<open>http\<close> parser is required to return the host and port of the one text it is given.\<close>

theorem socks_request_round_trip:
  "(valid_socks_target target \<and> port \<noteq> 0 \<and> 0 < length methods \<and> length methods < 256 \<and> NO_AUTH \<in> set methods \<and> bs_writable s \<and>
      bs_incoming s = socks_request methods target port @ rest \<and>
      A (host_port_text (bracketed_host (socks_host target)) port) = Some (bracketed_host (socks_host target), Some port) \<longrightarrow>
      negotiate_and_read_request A s =
        (Inr \<lparr>auth_host = socks_host target, auth_port = port\<rparr>,
         s\<lparr>bs_incoming := rest, bs_outgoing := bs_outgoing s @ [VERSION, NO_AUTH]\<rparr>) \<and>
      (\<forall>ip. socks_ip target = Some ip \<longrightarrow>
         literal_address \<lparr>auth_host = socks_host target, auth_port = port\<rparr> = Some (socket_addr_new ip port))) \<and>
   (negotiate_and_read_request A s = (Inr a, s') \<longrightarrow>
      (\<exists>methods kind body. NO_AUTH \<in> set methods \<and> kind \<in> {CHR 0x01, CHR 0x03, CHR 0x04} \<and>
         bs_incoming s = [VERSION, char_of (length methods)] @ methods @ [VERSION, SOCKS_CONNECT, CHR 0x00, kind] @ body @ bs_incoming s') \<and>
      bs_outgoing s' = bs_outgoing s @ [VERSION, NO_AUTH] \<and> auth_port a \<noteq> 0 \<and> auth_host a \<noteq> [])"
  using negotiate_encoded [of target port methods s rest A] negotiate_Inr [of A s a s'] socks_ip_host [of target]
  by (auto simp: literal_address_def)

theorem socks_request_round_trip_witness:
  "negotiate_and_read_request (\<lambda>_. Some (''[::1]'', Some 443))
     \<lparr>bs_incoming = socks_request [NO_AUTH] (SocksV6 (Ipv6 0 0 0 0 0 0 0 1)) 443, bs_outgoing = [], bs_writable = True\<rparr> =
   (Inr \<lparr>auth_host = ''::1'', auth_port = 443\<rparr>, \<lparr>bs_incoming = [], bs_outgoing = [VERSION, NO_AUTH], bs_writable = True\<rparr>)"
proof -
  have "bracketed_host (socks_host (SocksV6 (Ipv6 0 0 0 0 0 0 0 1))) = ''[::1]''" "ipv6_to_string (Ipv6 0 0 0 0 0 0 0 1) = ''::1''"
    by code_simp+
  then show ?thesis
    using socks_request_round_trip [THEN conjunct1, rule_format, of "SocksV6 (Ipv6 0 0 0 0 0 0 0 1)" 443 "[NO_AUTH]"
      "\<lparr>bs_incoming = socks_request [NO_AUTH] (SocksV6 (Ipv6 0 0 0 0 0 0 0 1)) 443, bs_outgoing = [], bs_writable = True\<rparr>"
      "[]" "\<lambda>_. Some (''[::1]'', Some 443)"] by simp
qed

end
