(* ===== verification/Gateway_Relay.thy ===== *)
theory Gateway_Relay
  imports Gateway
begin

text \<open>
  The byte budget of the gateway: the relay between two streams (\<open>relay.rs\<close>), whose directions run concurrently and share
  one counter, and the guarded HTTP bodies (\<open>body.rs\<close>). The relay is a step relation in which every read, load,
  compare-and-exchange and write of a direction is a step of its own, so a run is any interleaving; a weak
  compare-and-exchange may fail without cause.
\<close>

section \<open>The shared counter\<close>

definition U64_MAX :: nat where
  "U64_MAX = 2 ^ 64 - 1"

text \<open>One pass of the loops in \<open>add_transferred\<close> and \<open>TransferBudget::add\<close>: the value to store, unless the sum
  overflows or exceeds the limit.\<close>

definition checked_total :: "nat \<Rightarrow> nat \<Rightarrow> nat \<Rightarrow> (gateway_error, nat) rust_result" where
  "checked_total limit current amount =
     (if current + amount > U64_MAX then Inl (GRelayByteLimitExceeded limit)
      else if current + amount > limit then Inl (GRelayByteLimitExceeded limit)
      else Inr (current + amount))"

section \<open>Guarded bodies (body.rs)\<close>

record transfer_budget =
  tb_transferred :: nat
  tb_limit :: "nat option"

definition budget_new :: "nat option \<Rightarrow> transfer_budget" where
  "budget_new limit = \<lparr>tb_transferred = 0, tb_limit = limit\<rparr>"

text \<open>\<open>observed\<close> lists the values that failed exchanges return before one succeeds; the last value read is the one
  the successful exchange replaces.\<close>

fun budget_add :: "nat option \<Rightarrow> nat list \<Rightarrow> nat \<Rightarrow> nat \<Rightarrow> (gateway_error, nat option) rust_result" where
  "budget_add None observed current amount = Inr None"
| "budget_add (Some limit) [] current amount = and_then (checked_total limit current amount) (\<lambda>updated. Inr (Some updated))"
| "budget_add (Some limit) (actual # observed) current amount =
     and_then (checked_total limit current amount) (\<lambda>_. budget_add (Some limit) observed actual amount)"

datatype 'e poll = Pending | ReadyFrame string | ReadyTrailers | ReadyError 'e | ReadyEnd

datatype 'e guarded_poll = GPending | GFrame string | GTrailers | GInnerError 'e | GGatewayError gateway_error | GEnd

definition frame_amount :: "string \<Rightarrow> nat" where
  "frame_amount data = (if length data \<le> U64_MAX then length data else U64_MAX)"

text \<open>\<open>poll_frame\<close> with the counter uncontended; the flags are whether the idle timer has fired and whether it is reset.\<close>

definition poll_frame :: "transfer_budget \<Rightarrow> bool \<Rightarrow> 'e poll \<Rightarrow> 'e guarded_poll \<times> transfer_budget \<times> bool" where
  "poll_frame b idle_fired inner =
     (let counted = (\<lambda>amount frame.
            case budget_add (tb_limit b) [] (tb_transferred b) amount of
              Inl e \<Rightarrow> (GGatewayError e, b, False)
            | Inr None \<Rightarrow> (frame, b, True)
            | Inr (Some updated) \<Rightarrow> (frame, b\<lparr>tb_transferred := updated\<rparr>, True))
      in case inner of
        ReadyFrame data \<Rightarrow> counted (frame_amount data) (GFrame data)
      | ReadyTrailers \<Rightarrow> counted 0 GTrailers
      | ReadyError e \<Rightarrow> (GInnerError e, b, False)
      | ReadyEnd \<Rightarrow> (GEnd, b, False)
      | Pending \<Rightarrow> (if idle_fired then GGatewayError GRelayTimedOut else GPending, b, False))"

section \<open>The relay (relay.rs)\<close>

definition BUFFER_BYTES :: nat where
  "BUFFER_BYTES = 16 * 1024"

datatype direction = LeftToRight | RightToLeft

text \<open>Where a direction is in its loop: about to read, about to load the counter, about to exchange a loaded value, about to write,
  or finished.\<close>

datatype direction_state =
    Reading
  | Loading string
  | Exchanging string nat
  | Writing string
  | Finished "(gateway_error, unit) rust_result"

record relay_state =
  rs_transferred :: nat
  rs_at :: "direction \<Rightarrow> direction_state"
  rs_written :: "direction \<Rightarrow> string"
  rs_timed_out :: bool

definition relay_init :: relay_state where
  "relay_init = \<lparr>rs_transferred = 0, rs_at = (\<lambda>_. Reading), rs_written = (\<lambda>_. []), rs_timed_out = False\<rparr>"

definition move_to :: "relay_state \<Rightarrow> direction \<Rightarrow> direction_state \<Rightarrow> relay_state" where
  "move_to s d at = s\<lparr>rs_at := (rs_at s)(d := at)\<rparr>"

text \<open>The result of \<open>copy_bidirectional\<close>, once it has one: the first error of a direction ends both.\<close>

definition relay_result :: "relay_state \<Rightarrow> (gateway_error, unit) rust_result option" where
  "relay_result s =
     (if rs_timed_out s then Some (Inl GRelayTimedOut)
      else case (rs_at s LeftToRight, rs_at s RightToLeft) of
        (Finished (Inl e), _) \<Rightarrow> Some (Inl e)
      | (_, Finished (Inl e)) \<Rightarrow> Some (Inl e)
      | (Finished (Inr _), Finished (Inr _)) \<Rightarrow> Some (Inr ())
      | _ \<Rightarrow> None)"

inductive relay_step :: "nat option \<Rightarrow> relay_state \<Rightarrow> relay_state \<Rightarrow> bool" for limit :: "nat option" where
  read: "relay_result s = None \<Longrightarrow> rs_at s d = Reading \<Longrightarrow> 0 < length chunk \<Longrightarrow> length chunk \<le> BUFFER_BYTES \<Longrightarrow>
     relay_step limit s (move_to s d (Loading chunk))"
| end_of_stream: "relay_result s = None \<Longrightarrow> rs_at s d = Reading \<Longrightarrow> relay_step limit s (move_to s d (Finished (Inr ())))"
| read_error: "relay_result s = None \<Longrightarrow> rs_at s d = Reading \<Longrightarrow> relay_step limit s (move_to s d (Finished (Inl (GIo e))))"
| write_error: "relay_result s = None \<Longrightarrow> rs_at s d = Writing chunk \<Longrightarrow> relay_step limit s (move_to s d (Finished (Inl (GIo e))))"
| unlimited: "relay_result s = None \<Longrightarrow> rs_at s d = Loading chunk \<Longrightarrow> limit = None \<Longrightarrow>
     relay_step limit s ((move_to s d (Writing chunk))\<lparr>rs_transferred := (rs_transferred s + length chunk) mod (U64_MAX + 1)\<rparr>)"
| load: "relay_result s = None \<Longrightarrow> rs_at s d = Loading chunk \<Longrightarrow> limit = Some l \<Longrightarrow>
     relay_step limit s (move_to s d (Exchanging chunk (rs_transferred s)))"
| refuse: "relay_result s = None \<Longrightarrow> rs_at s d = Exchanging chunk current \<Longrightarrow> limit = Some l \<Longrightarrow>
     checked_total l current (length chunk) = Inl e \<Longrightarrow> relay_step limit s (move_to s d (Finished (Inl e)))"
| exchange: "relay_result s = None \<Longrightarrow> rs_at s d = Exchanging chunk current \<Longrightarrow> limit = Some l \<Longrightarrow>
     checked_total l current (length chunk) = Inr updated \<Longrightarrow> rs_transferred s = current \<Longrightarrow>
     relay_step limit s ((move_to s d (Writing chunk))\<lparr>rs_transferred := updated\<rparr>)"
| retry: "relay_result s = None \<Longrightarrow> rs_at s d = Exchanging chunk current \<Longrightarrow> limit = Some l \<Longrightarrow>
     checked_total l current (length chunk) = Inr updated \<Longrightarrow>
     relay_step limit s (move_to s d (Exchanging chunk (rs_transferred s)))"
| write_chunk: "relay_result s = None \<Longrightarrow> rs_at s d = Writing chunk \<Longrightarrow>
     relay_step limit s ((move_to s d Reading)\<lparr>rs_written := (rs_written s)(d := rs_written s d @ chunk)\<rparr>)"
| idle: "relay_result s = None \<Longrightarrow> relay_step limit s (s\<lparr>rs_timed_out := True\<rparr>)"

inductive relay_reachable :: "nat option \<Rightarrow> relay_state \<Rightarrow> bool" for limit :: "nat option" where
  init: "relay_reachable limit relay_init"
| step: "relay_reachable limit s \<Longrightarrow> relay_step limit s s' \<Longrightarrow> relay_reachable limit s'"

section \<open>The counter covers what was granted\<close>

lemma checked_total_Inr [simp]:
  "checked_total limit current amount = Inr updated \<longleftrightarrow>
     updated = current + amount \<and> current + amount \<le> limit \<and> current + amount \<le> U64_MAX"
  by (auto simp: checked_total_def)

text \<open>Bytes a direction has been granted and not yet written, unless its write failed.\<close>

fun pending_bytes :: "direction_state \<Rightarrow> nat" where
  "pending_bytes (Writing chunk) = length chunk"
| "pending_bytes _ = 0"

definition granted :: "relay_state \<Rightarrow> direction \<Rightarrow> nat" where
  "granted s d = length (rs_written s d) + pending_bytes (rs_at s d)"

definition within_budget :: "nat \<Rightarrow> relay_state \<Rightarrow> bool" where
  "within_budget l s \<longleftrightarrow> granted s LeftToRight + granted s RightToLeft \<le> rs_transferred s \<and> rs_transferred s \<le> l"

lemma granted_move: "granted (move_to s d at) d' = (if d' = d then length (rs_written s d) + pending_bytes at else granted s d')"
  by (auto simp: granted_def move_to_def)

lemma granted_updates [simp]:
  "granted (s\<lparr>rs_transferred := t\<rparr>) d = granted s d" "granted (s\<lparr>rs_timed_out := b\<rparr>) d = granted s d"
  "rs_transferred (move_to s d at) = rs_transferred s"
  by (simp_all add: granted_def move_to_def)

lemma relay_step_keeps_budget:
  assumes "relay_step (Some l) s s'" and "within_budget l s"
  shows "within_budget l s'"
  using assms
proof (cases rule: relay_step.cases)
  case (write_chunk d chunk)
  then have "granted s' d' = granted s d'" for d' by (simp add: granted_def move_to_def)
  with assms(2) write_chunk show ?thesis by (simp add: within_budget_def move_to_def)
next
  case (exchange d chunk current l updated)
  with assms(2) show ?thesis by (cases d) (auto simp: within_budget_def granted_def move_to_def)
next
  case (write_error d chunk e)
  with assms(2) show ?thesis by (cases d) (auto simp: within_budget_def granted_def move_to_def)
qed (auto simp: within_budget_def granted_def move_to_def)

lemma reachable_within_budget: "relay_reachable (Some l) s \<Longrightarrow> within_budget l s"
proof (induction rule: relay_reachable.induct)
  case init
  show ?case by (simp add: within_budget_def granted_def relay_init_def)
qed (rule relay_step_keeps_budget)

lemma relay_step_written:
  assumes "relay_step limit s s'"
  shows "prefix (rs_written s d) (rs_written s' d)"
  using assms by (cases rule: relay_step.cases) (auto simp: move_to_def)

lemma finished_stays:
  assumes "relay_result s = Some r"
  shows "\<not> relay_step limit s s'"
  using assms by (auto elim: relay_step.cases)

lemma relay_progress:
  assumes "relay_result s = None"
  shows "\<exists>s'. relay_step limit s s'"
  using relay_step.idle [OF assms] by blast

section \<open>Guarded bodies stay within the limit\<close>

lemma budget_add_Inr:
  "budget_add (Some l) observed current amount = Inr r \<longleftrightarrow>
     list_all (\<lambda>c. c + amount \<le> l \<and> c + amount \<le> U64_MAX) (current # observed) \<and> r = Some (last (current # observed) + amount)"
  by (induction observed arbitrary: current) (auto simp: result_simps)

text \<open>A byte slice is never longer than \<open>usize::MAX\<close>.\<close>

fun sized_poll :: "'e poll \<Rightarrow> bool" where
  "sized_poll (ReadyFrame data) \<longleftrightarrow> length data \<le> U64_MAX"
| "sized_poll _ \<longleftrightarrow> True"

definition delivered :: "'e guarded_poll \<Rightarrow> nat" where
  "delivered r = (case r of GFrame data \<Rightarrow> length data | _ \<Rightarrow> 0)"

fun poll_run :: "transfer_budget \<Rightarrow> (bool \<times> 'e poll) list \<Rightarrow> 'e guarded_poll list \<times> transfer_budget" where
  "poll_run b [] = ([], b)"
| "poll_run b ((fired, inner) # rest) =
     (case poll_frame b fired inner of (r, b', _) \<Rightarrow> (case poll_run b' rest of (rs, b'') \<Rightarrow> (r # rs, b'')))"

lemma poll_frame_counts:
  assumes "poll_frame b fired inner = (r, b', reset)" and "tb_limit b = Some l" and "sized_poll inner"
  shows "tb_limit b' = Some l \<and> tb_transferred b' = tb_transferred b + delivered r \<and>
    (tb_transferred b \<le> l \<longrightarrow> tb_transferred b' \<le> l)"
  using assms
  by (cases inner) (auto simp: poll_frame_def Let_def budget_add_Inr delivered_def frame_amount_def checked_total_def
      split: sum.splits option.splits if_splits)

lemma poll_run_counts:
  assumes "tb_limit b = Some l" and "list_all (sized_poll \<circ> snd) polls" and "tb_transferred b \<le> l"
  shows "tb_transferred b + sum_list (map delivered (fst (poll_run b polls))) \<le> l"
  using assms
proof (induction b polls rule: poll_run.induct)
  case (2 b fired inner rest)
  obtain r b' reset where r: "poll_frame b fired inner = (r, b', reset)" by (rule prod_cases3)
  have "sized_poll inner" using "2.prems"(2) by simp
  with poll_frame_counts [OF r "2.prems"(1)] "2.IH" [OF r [symmetric]] "2.prems" r show ?case
    by (auto split: prod.splits)
qed simp

section \<open>Properties\<close>

text \<open>C10: However reads, counter updates and writes of the two directions interleave, and however often a weak exchange fails
  spuriously, the bytes a relay has written in both directions together never exceed its limit; a guarded pair of HTTP bodies sharing one
  budget likewise delivers at most the limit.\<close>

theorem relay_respects_limit:
  "(relay_reachable (Some l) s \<longrightarrow> length (rs_written s LeftToRight) + length (rs_written s RightToLeft) \<le> l) \<and>
   (list_all (sized_poll \<circ> snd) polls \<longrightarrow> sum_list (map delivered (fst (poll_run (budget_new (Some l)) polls))) \<le> l)"
proof (intro conjI impI)
  assume "relay_reachable (Some l) s"
  then have "within_budget l s" by (rule reachable_within_budget)
  then show "length (rs_written s LeftToRight) + length (rs_written s RightToLeft) \<le> l"
    by (simp add: within_budget_def granted_def)
next
  assume "list_all (sized_poll \<circ> snd) polls"
  then show "sum_list (map delivered (fst (poll_run (budget_new (Some l)) polls))) \<le> l"
    using poll_run_counts [of "budget_new (Some l)" l polls] by (simp add: budget_new_def)
qed

theorem relay_respects_limit_witness:
  "\<exists>s. relay_reachable (Some 3) s \<and> rs_written s LeftToRight = ''ab'' \<and> length (rs_written s LeftToRight) + length (rs_written s RightToLeft) \<le> 3"
proof -
  define s1 where "s1 = move_to relay_init LeftToRight (Loading ''ab'')"
  define s2 where "s2 = move_to s1 LeftToRight (Exchanging ''ab'' 0)"
  define s3 where "s3 = (move_to s2 LeftToRight (Writing ''ab''))\<lparr>rs_transferred := 2\<rparr>"
  define s4 where "s4 = (move_to s3 LeftToRight Reading)\<lparr>rs_written := (rs_written s3)(LeftToRight := rs_written s3 LeftToRight @ ''ab'')\<rparr>"
  note defs = s1_def s2_def s3_def s4_def relay_init_def move_to_def relay_result_def
  have running: "relay_result relay_init = None" "relay_result s1 = None" "relay_result s2 = None" "relay_result s3 = None"
    by (simp_all add: defs)
  have "relay_step (Some 3) relay_init s1"
    unfolding s1_def by (rule relay_step.read [OF running(1)]) (simp_all add: relay_init_def BUFFER_BYTES_def)
  moreover have "relay_step (Some 3) s1 s2"
    using relay_step.load [OF running(2), of LeftToRight "''ab''" "Some 3" 3] by (simp add: s1_def s2_def relay_init_def move_to_def)
  moreover have "relay_step (Some 3) s2 s3"
    unfolding s3_def by (rule relay_step.exchange [OF running(3), of _ _ 0 _ 3]) (simp_all add: defs U64_MAX_def)
  moreover have "relay_step (Some 3) s3 s4"
    unfolding s4_def by (rule relay_step.write_chunk [OF running(4)]) (simp add: defs)
  ultimately have "relay_reachable (Some 3) s4" using relay_reachable.intros by blast
  with relay_respects_limit [THEN conjunct1, rule_format, OF this] show ?thesis
    by (intro exI [of _ s4]) (simp add: defs)
qed

end
