(* ===== verification/Gateway_Http.thy ===== *)
theory Gateway_Http
  imports Gateway_Relay
begin

text \<open>
  HTTP/1.1 forwarding (\<open>cageforge-network-proxy/src/http.rs\<close>): request validation, header sanitizing, CONNECT, error responses and
  the tasks of one connection. Header maps belong to the \<open>http\<close> crate: their operations are the record \<open>http_lib\<close>, and
  \<open>http_lib_ok\<close> states the documented laws the properties rely on. The request sent upstream and the
  answer to it are the argument \<open>exchange\<close>.
\<close>

section \<open>Header maps and requests\<close>

record 'h http_lib =
  hl_get_all :: "'h \<Rightarrow> string \<Rightarrow> string list"
  hl_remove :: "'h \<Rightarrow> string \<Rightarrow> 'h"
  hl_insert :: "'h \<Rightarrow> string \<Rightarrow> string \<Rightarrow> 'h"
  hl_header_name :: "string \<Rightarrow> string option"
  hl_header_value :: "string \<Rightarrow> string option"
  hl_to_str :: "string \<Rightarrow> string option"

text \<open>Removing a name removes every value of it and nothing else; inserting replaces every value of it.\<close>

definition http_lib_ok :: "'h http_lib \<Rightarrow> bool" where
  "http_lib_ok L \<longleftrightarrow>
     (\<forall>h n m. hl_get_all L (hl_remove L h n) m = (if m = n then [] else hl_get_all L h m)) \<and>
     (\<forall>h n v m. hl_get_all L (hl_insert L h n v) m = (if m = n then [v] else hl_get_all L h m))"

record uri =
  uri_scheme :: "string option"
  uri_authority :: "string option"
  uri_path_and_query :: "string option"

record 'h http_request =
  hr_is_connect :: bool
  hr_uri :: uri
  hr_headers :: 'h

record 'h http_response =
  resp_status :: nat
  resp_headers :: 'h
  resp_body :: string

section \<open>Request validation\<close>

definition ordinary_authority :: "authority_parser \<Rightarrow> uri \<Rightarrow> (gateway_error, authority) rust_result" where
  "ordinary_authority A u =
     (if uri_scheme u \<noteq> Some ''http''
      then Inl (GInvalidHttpRequest ''ordinary proxy requests require an absolute http URI'')
      else case uri_authority u of
        None \<Rightarrow> Inl (GInvalidHttpRequest ''absolute URI is missing an authority'')
      | Some text \<Rightarrow> authority_parse A text (Some 80))"

text \<open>\<open>build\<close> is \<open>Uri::builder().path_and_query(..).build()\<close>.\<close>

definition origin_form :: "(string \<Rightarrow> uri option) \<Rightarrow> uri \<Rightarrow> (gateway_error, uri) rust_result" where
  "origin_form build u =
     (case build (case uri_path_and_query u of None \<Rightarrow> ''/'' | Some path \<Rightarrow> path) of
        None \<Rightarrow> Inl (GInvalidHttpRequest ''request target cannot be converted to origin form'')
      | Some target \<Rightarrow> Inr target)"

definition reject_connect_body :: "'h http_lib \<Rightarrow> 'h \<Rightarrow> (gateway_error, unit) rust_result" where
  "reject_connect_body L headers =
     (let has_nonempty_length = (case hl_get_all L headers ''content-length'' of [] \<Rightarrow> False | v # _ \<Rightarrow> v \<noteq> ''0'')
      in if has_nonempty_length \<or> hl_get_all L headers ''transfer-encoding'' \<noteq> []
         then Inl (GInvalidHttpRequest ''CONNECT request bodies are not supported'') else Inr ())"

definition validate_host_header :: "'h http_lib \<Rightarrow> authority_parser \<Rightarrow> 'h \<Rightarrow> authority \<Rightarrow> (gateway_error, unit) rust_result" where
  "validate_host_header L A headers authority =
     (case hl_get_all L headers ''host'' of
        [] \<Rightarrow> Inl (GInvalidHttpRequest ''ordinary proxy request is missing its Host header'')
      | [v] \<Rightarrow>
          (case hl_to_str L v of
             None \<Rightarrow> Inl (GInvalidHttpRequest ''ordinary proxy request has an invalid Host header'')
           | Some text \<Rightarrow>
               and_then (authority_parse A text (Some 80)) (\<lambda>host.
                 if \<not> same_endpoint authority host
                 then Inl (GInvalidHttpRequest ''Host header does not match the absolute request target'')
                 else Inr ()))
      | _ \<Rightarrow> Inl (GInvalidHttpRequest ''ordinary proxy request contains multiple Host headers''))"

section \<open>Hop-by-hop headers\<close>

definition nominated_headers :: "'h http_lib \<Rightarrow> (string \<Rightarrow> gateway_error) \<Rightarrow> 'h \<Rightarrow> (gateway_error, string list) rust_result" where
  "nominated_headers L failure headers =
     and_then (try_map (\<lambda>v. case hl_to_str L v of
                  None \<Rightarrow> Inl (failure ''Connection header contains non-ASCII data'') | Some t \<Rightarrow> Inr t)
                (hl_get_all L headers ''connection''))
       (\<lambda>values. try_map (\<lambda>name. case hl_header_name L name of
                  None \<Rightarrow> Inl (failure ''Connection header contains an invalid field name'') | Some n \<Rightarrow> Inr n)
                (map str_trim (concat (map (split_on CHR '','') values))))"

definition hop_by_hop_names :: "string list" where
  "hop_by_hop_names =
     [''connection'', ''keep-alive'', ''proxy-connection'', ''te'', ''trailer'', ''transfer-encoding'', ''upgrade'',
      ''proxy-authenticate'', ''proxy-authorization'']"

definition remove_hop_by_hop_headers :: "'h http_lib \<Rightarrow> 'h \<Rightarrow> string list \<Rightarrow> 'h" where
  "remove_hop_by_hop_headers L headers nominated =
     foldl (hl_remove L) (foldl (hl_remove L) headers nominated) hop_by_hop_names"

definition remove_request_hop_by_hop_headers :: "'h http_lib \<Rightarrow> 'h \<Rightarrow> (gateway_error, 'h) rust_result" where
  "remove_request_hop_by_hop_headers L headers =
     and_then (nominated_headers L GInvalidHttpRequest headers) (\<lambda>nominated. Inr (remove_hop_by_hop_headers L headers nominated))"

definition remove_response_hop_by_hop_headers :: "'h http_lib \<Rightarrow> 'h \<Rightarrow> (gateway_error, 'h) rust_result" where
  "remove_response_hop_by_hop_headers L headers =
     and_then (nominated_headers L GInvalidHttpResponse headers) (\<lambda>nominated. Inr (remove_hop_by_hop_headers L headers nominated))"

definition host_header_text :: "authority \<Rightarrow> string" where
  "host_header_text authority =
     (if auth_port authority = 80 then auth_host authority
      else if CHR '':'' \<in> set (auth_host authority) then host_port_text (''['' @ auth_host authority @ '']'') (auth_port authority)
      else host_port_text (auth_host authority) (auth_port authority))"

definition sanitize_request_headers :: "'h http_lib \<Rightarrow> 'h \<Rightarrow> authority \<Rightarrow> (gateway_error, 'h) rust_result" where
  "sanitize_request_headers L headers authority =
     and_then (remove_request_hop_by_hop_headers L headers) (\<lambda>headers.
       case hl_header_value L (host_header_text authority) of
         None \<Rightarrow> Inl (GInvalidHttpRequest ''authority cannot be represented as a Host header'')
       | Some v \<Rightarrow> Inr (hl_insert L headers ''host'' v))"

section \<open>Responses\<close>

fun error_status :: "gateway_error \<Rightarrow> nat \<times> string" where
  "error_status (GInvalidHttpRequest _) = (400, ''invalid proxy request'')"
| "error_status (GInvalidAuthority _) = (400, ''invalid proxy request'')"
| "error_status (GPolicyDenied _ _) = (403, ''destination denied'')"
| "error_status (GExternallyEnforced _ _) = (403, ''destination denied'')"
| "error_status (GUnsupportedPolicy _) = (403, ''destination denied'')"
| "error_status (GPolicyEvaluation _) = (403, ''destination denied'')"
| "error_status (GInvalidResolvedTarget _) = (403, ''destination denied'')"
| "error_status (GDnsTimedOut _) = (504, ''upstream timed out'')"
| "error_status (GConnectTimedOut _ _) = (504, ''upstream timed out'')"
| "error_status (GResponseHeaderTimedOut _ _) = (504, ''upstream timed out'')"
| "error_status GConnectionLimitReached = (429, ''connection limit exceeded'')"
| "error_status (GRelayByteLimitExceeded _) = (413, ''transfer limit exceeded'')"
| "error_status (GInvalidHttpResponse _) = (502, ''invalid upstream response'')"
| "error_status _ = (502, ''upstream failed'')"

definition error_response :: "'h http_lib \<Rightarrow> 'h \<Rightarrow> nat \<Rightarrow> string \<Rightarrow> bool \<Rightarrow> 'h http_response" where
  "error_response L no_headers status message close =
     \<lparr>resp_status = status, resp_headers = (if close then hl_insert L no_headers ''connection'' ''close'' else no_headers),
      resp_body = message @ [CHR 0x0A]\<rparr>"

definition response_for_error :: "'h http_lib \<Rightarrow> 'h \<Rightarrow> gateway_error \<Rightarrow> 'h http_response" where
  "response_for_error L no_headers error = (case error_status error of (status, message) \<Rightarrow> error_response L no_headers status message False)"

section \<open>Handling a request\<close>

type_synonym 'h exchange = "socket_addr \<Rightarrow> 'h \<Rightarrow> uri \<Rightarrow> (gateway_error, 'h http_response) rust_result"

text \<open>The request that is sent upstream, and where.\<close>

definition forward_target ::
  "'h http_lib \<Rightarrow> authority_parser \<Rightarrow> (string \<Rightarrow> uri option) \<Rightarrow> unicode_data \<Rightarrow> effective_network \<Rightarrow> gateway_config \<Rightarrow> network_world
     \<Rightarrow> 'h http_request \<Rightarrow> socket_addr list \<times> (gateway_error, socket_addr \<times> 'h \<times> uri) rust_result" where
  "forward_target L A build U n cfg w request =
     (case ordinary_authority A (hr_uri request) of
        Inl e \<Rightarrow> ([], Inl e)
      | Inr authority \<Rightarrow>
          (case validate_host_header L A (hr_headers request) authority of
             Inl e \<Rightarrow> ([], Inl e)
           | Inr _ \<Rightarrow>
               (case gateway_connect U n cfg w authority of
                  (attempts, Inl e) \<Rightarrow> (attempts, Inl e)
                | (attempts, Inr upstream) \<Rightarrow>
                    (attempts,
                     and_then (sanitize_request_headers L (hr_headers request) authority) (\<lambda>headers.
                     and_then (origin_form build (hr_uri request)) (\<lambda>target. Inr (upstream, headers, target)))))))"

definition http_forward ::
  "'h http_lib \<Rightarrow> authority_parser \<Rightarrow> (string \<Rightarrow> uri option) \<Rightarrow> unicode_data \<Rightarrow> effective_network \<Rightarrow> gateway_config \<Rightarrow> network_world
     \<Rightarrow> 'h exchange \<Rightarrow> 'h http_request \<Rightarrow> socket_addr list \<times> (gateway_error, 'h http_response) rust_result" where
  "http_forward L A build U n cfg w exchange request =
     apsnd (\<lambda>r. and_then r (\<lambda>(upstream, headers, target).
        and_then (exchange upstream headers target) (\<lambda>response.
        and_then (remove_response_hop_by_hop_headers L (resp_headers response)) (\<lambda>headers.
        Inr (response\<lparr>resp_headers := headers\<rparr>)))))
       (forward_target L A build U n cfg w request)"

text \<open>A successful CONNECT also starts the relay with the address it returns.\<close>

definition handle_connect ::
  "'h http_lib \<Rightarrow> authority_parser \<Rightarrow> unicode_data \<Rightarrow> effective_network \<Rightarrow> gateway_config \<Rightarrow> network_world
     \<Rightarrow> 'h http_request \<Rightarrow> socket_addr list \<times> (gateway_error, socket_addr) rust_result" where
  "handle_connect L A U n cfg w request =
     (case and_then (reject_connect_body L (hr_headers request)) (\<lambda>_.
             case uri_authority (hr_uri request) of
               None \<Rightarrow> Inl (GInvalidHttpRequest ''CONNECT requires authority-form target'')
             | Some text \<Rightarrow> authority_parse A text None) of
        Inl e \<Rightarrow> ([], Inl e)
      | Inr authority \<Rightarrow> gateway_connect U n cfg w authority)"

text \<open>\<open>served\<close> is the value of the connection's \<open>AtomicUsize\<close> before the request.\<close>

definition handle_request ::
  "'h http_lib \<Rightarrow> 'h \<Rightarrow> authority_parser \<Rightarrow> (string \<Rightarrow> uri option) \<Rightarrow> unicode_data \<Rightarrow> effective_network \<Rightarrow> gateway_config
     \<Rightarrow> network_world \<Rightarrow> 'h exchange \<Rightarrow> nat \<Rightarrow> 'h http_request \<Rightarrow> nat \<times> socket_addr list \<times> 'h http_response" where
  "handle_request L no_headers A build U n cfg w exchange served request =
     (let number = min (served + 1) U64_MAX; served' = (served + 1) mod (U64_MAX + 1)
      in if number > cfg_max_requests_per_connection cfg
         then (served', [], error_response L no_headers 429 ''request limit exceeded'' True)
         else if hr_is_connect request
         then (case handle_connect L A U n cfg w request of
                 (attempts, Inl e) \<Rightarrow> (served', attempts, response_for_error L no_headers e)
               | (attempts, Inr _) \<Rightarrow> (served', attempts, \<lparr>resp_status = 200, resp_headers = no_headers, resp_body = []\<rparr>))
         else (case http_forward L A build U n cfg w exchange request of
                 (attempts, Inl e) \<Rightarrow> (served', attempts, response_for_error L no_headers e)
               | (attempts, Inr response) \<Rightarrow> (served', attempts, response)))"

section \<open>Tasks and idleness of a connection\<close>

datatype task_outcome = TaskJoinError string | TaskDone "(gateway_error, unit) rust_result"

text \<open>\<open>finish\<close> awaits the handles from the last to the first; the first failure aborts those left. The second component
  lists the aborted ones.\<close>

fun finish_tasks :: "task_outcome list \<Rightarrow> (gateway_error, unit) rust_result \<times> task_outcome list" where
  "finish_tasks [] = (Inr (), [])"
| "finish_tasks (h # hs) =
     (let handles = h # hs
      in case last handles of
           TaskJoinError e \<Rightarrow> (Inl (GProtocolTask e), butlast handles)
         | TaskDone (Inl e) \<Rightarrow> (Inl e, butlast handles)
         | TaskDone (Inr _) \<Rightarrow> finish_tasks (butlast handles))"

record http_activity =
  act_armed :: bool
  act_last_transfer :: nanos

definition activity_record :: "nanos \<Rightarrow> http_activity \<Rightarrow> http_activity" where
  "activity_record now a = a\<lparr>act_last_transfer := now\<rparr>"

definition activity_arm :: "nanos \<Rightarrow> http_activity \<Rightarrow> http_activity" where
  "activity_arm now a = (if act_armed a then a else activity_record now (a\<lparr>act_armed := True\<rparr>))"

definition activity_idle :: "nanos \<Rightarrow> nanos \<Rightarrow> http_activity \<Rightarrow> bool" where
  "activity_idle idle_timeout now a \<longleftrightarrow> act_armed a \<and> act_last_transfer a + idle_timeout \<le> now"

section \<open>What removal leaves\<close>

lemma get_all_remove: "http_lib_ok L \<Longrightarrow> hl_get_all L (hl_remove L h n) m = (if m = n then [] else hl_get_all L h m)"
  by (simp add: http_lib_ok_def)

lemma get_all_insert: "http_lib_ok L \<Longrightarrow> hl_get_all L (hl_insert L h n v) m = (if m = n then [v] else hl_get_all L h m)"
  by (simp add: http_lib_ok_def)

lemma get_all_remove_all:
  "http_lib_ok L \<Longrightarrow> hl_get_all L (foldl (hl_remove L) h names) m = (if m \<in> set names then [] else hl_get_all L h m)"
  by (induction names arbitrary: h) (auto simp: get_all_remove)

lemma get_all_hop_by_hop:
  "http_lib_ok L \<Longrightarrow> hl_get_all L (remove_hop_by_hop_headers L h nominated) m =
     (if m \<in> set nominated \<union> set hop_by_hop_names then [] else hl_get_all L h m)"
  by (simp add: remove_hop_by_hop_headers_def get_all_remove_all)

text \<open>An element of a comma-separated list, and the fields a client nominates: the trimmed elements of all its
  \<open>Connection\<close> headers, read as field names.\<close>

definition comma_element :: "string \<Rightarrow> string \<Rightarrow> bool" where
  "comma_element e t \<longleftrightarrow> CHR '','' \<notin> set e \<and>
     (\<exists>before after. t = before @ e @ after \<and> (before = [] \<or> last before = CHR '','') \<and> (after = [] \<or> hd after = CHR '',''))"

definition nominates :: "'h http_lib \<Rightarrow> 'h \<Rightarrow> string \<Rightarrow> bool" where
  "nominates L headers name \<longleftrightarrow>
     (\<exists>v t e. v \<in> set (hl_get_all L headers ''connection'') \<and> hl_to_str L v = Some t \<and> comma_element e t \<and>
        hl_header_name L (str_trim e) = Some name)"

lemma comma_elementI:
  "CHR '','' \<notin> set e \<Longrightarrow> before = [] \<or> last before = CHR '','' \<Longrightarrow> after = [] \<or> hd after = CHR '','' \<Longrightarrow>
     comma_element e (before @ e @ after)"
  unfolding comma_element_def by blast

lemma comma_element_split: "comma_element e t \<longleftrightarrow> e \<in> set (split_on CHR '','' t)"
proof
  assume "e \<in> set (split_on CHR '','' t)"
  then show "comma_element e t"
  proof (induction t rule: length_induct)
    case (1 t)
    show ?case
    proof (cases "CHR '','' \<in> set t")
      case True
      then obtain a b where t: "t = a @ CHR '','' # b" "CHR '','' \<notin> set a" by (metis split_list_first)
      then have "e = a \<or> e \<in> set (split_on CHR '','' b)" using 1(2) by (simp add: split_on_append_no_sep)
      moreover have "comma_element a t" using comma_elementI [of a "[]" "CHR '','' # b"] t by simp
      moreover have "comma_element e t" if "comma_element e b"
      proof -
        from that obtain before after where b: "CHR '','' \<notin> set e" "b = before @ e @ after"
          "before = [] \<or> last before = CHR '',''" "after = [] \<or> hd after = CHR '',''" unfolding comma_element_def by blast
        then show ?thesis using comma_elementI [of e "a @ CHR '','' # before" after] t by auto
      qed
      ultimately show ?thesis using 1(1) t by auto
    next
      case False
      with 1(2) show ?thesis using comma_elementI [of t "[]" "[]"] by (simp add: split_on_no_sep)
    qed
  qed
next
  assume "comma_element e t"
  then obtain before after where e: "CHR '','' \<notin> set e" and t: "t = before @ e @ after"
    and ends: "before = [] \<or> last before = CHR '',''" "after = [] \<or> hd after = CHR '',''"
    unfolding comma_element_def by blast
  have rest: "e \<in> set (split_on CHR '','' (e @ after))"
    using ends(2) e by (cases after) (simp_all add: split_on_no_sep split_on_append_no_sep)
  show "e \<in> set (split_on CHR '','' t)"
  proof (cases before rule: rev_cases)
    case (snoc b x)
    then show ?thesis using ends(1) rest split_on_append [of "CHR '',''" b "e @ after"] t by simp
  qed (use rest t in simp)
qed

lemma list_all2_Some_set: "list_all2 (\<lambda>x y. f x = Some y) xs ys \<Longrightarrow> y \<in> set ys \<longleftrightarrow> (\<exists>x \<in> set xs. f x = Some y)"
  by (induction rule: list_all2_induct) auto

lemma nominated_headers_set:
  assumes "nominated_headers L failure headers = Inr nominated"
  shows "name \<in> set nominated \<longleftrightarrow> nominates L headers name"
proof -
  have read: "(case x of None \<Rightarrow> Inl e | Some t \<Rightarrow> Inr t) = Inr y \<longleftrightarrow> x = Some y" for x :: "string option" and e :: gateway_error and y
    by (cases x) auto
  from assms obtain texts where
    v: "list_all2 (\<lambda>v t. hl_to_str L v = Some t) (hl_get_all L headers ''connection'') texts"
    and n: "list_all2 (\<lambda>e n. hl_header_name L e = Some n) (map str_trim (concat (map (split_on CHR '','') texts))) nominated"
    by (auto simp: nominated_headers_def result_simps try_map_Inr read)
  show ?thesis
    unfolding nominates_def comma_element_split list_all2_Some_set [OF n]
    unfolding set_map set_concat using list_all2_Some_set [OF v] by blast
qed

lemma finish_tasks_snoc:
  "finish_tasks (hs @ [h]) =
     (case h of TaskJoinError e \<Rightarrow> (Inl (GProtocolTask e), hs) | TaskDone (Inl e) \<Rightarrow> (Inl e, hs) | TaskDone (Inr _) \<Rightarrow> finish_tasks hs)"
proof -
  obtain x xs where eq: "hs @ [h] = x # xs" by (cases "hs @ [h]") auto
  then have "last (x # xs) = h" "butlast (x # xs) = hs" by (metis last_snoc, metis butlast_snoc)
  then show ?thesis unfolding eq finish_tasks.simps(2) Let_def by (simp only:)
qed

lemma finish_tasks_ok: "finish_tasks hs = (Inr (), rest) \<longleftrightarrow> rest = [] \<and> list_all (\<lambda>h. h = TaskDone (Inr ())) hs"
  by (induction hs rule: rev_induct) (auto simp: finish_tasks_snoc split: task_outcome.splits sum.splits)

lemma sanitize_request_headers_Inr:
  assumes "sanitize_request_headers L h a = Inr h'"
  obtains nominated v where "nominated_headers L GInvalidHttpRequest h = Inr nominated" and "hl_header_value L (host_header_text a) = Some v"
    and "h' = hl_insert L (remove_hop_by_hop_headers L h nominated) ''host'' v"
  using assms that
  by (auto simp: sanitize_request_headers_def remove_request_hop_by_hop_headers_def result_simps split: option.splits)

lemma validate_host_header_Inr:
  assumes "validate_host_header L A h a = Inr u"
  obtains v spelled host where "hl_get_all L h ''host'' = [v]" and "hl_to_str L v = Some spelled"
    and "authority_parse A spelled (Some 80) = Inr host" and "same_endpoint a host"
  using assms that
  by (auto simp: validate_host_header_def result_simps split: list.splits option.splits if_splits)

section \<open>Properties\<close>

text \<open>C9: A forwarded request says nothing but what the gateway checked. Upstream is an address the gateway was authorized to contact
  for the authority of the request target; the client sent exactly one Host header, naming the same endpoint; the forwarded headers
  have exactly one Host value, built from that authority, none of the nine fields \<open>Connection\<close>, \<open>Keep-Alive\<close>, \<open>Proxy-Connection\<close>,
  \<open>TE\<close>, \<open>Trailer\<close>, \<open>Transfer-Encoding\<close>, \<open>Upgrade\<close>, \<open>Proxy-Authenticate\<close> and \<open>Proxy-Authorization\<close>, and none of the fields
  that an element of any of the client's Connection headers names; and every other field is forwarded unchanged.\<close>

theorem forwarded_request_is_clean:
  assumes "http_lib_ok L" and "forward_target L A build U n cfg w request = (attempts, Inr (upstream, headers, target))"
  shows "\<exists>authority v spelled host hv. ordinary_authority A (hr_uri request) = Inr authority \<and>
    gateway_connect U n cfg w authority = (attempts, Inr upstream) \<and>
    hl_get_all L (hr_headers request) ''host'' = [v] \<and> hl_to_str L v = Some spelled \<and>
    authority_parse A spelled (Some 80) = Inr host \<and> same_endpoint authority host \<and>
    hl_header_value L (host_header_text authority) = Some hv \<and> hl_get_all L headers ''host'' = [hv] \<and>
    (\<forall>name. name \<noteq> ''host'' \<longrightarrow>
       hl_get_all L headers name =
         (if name \<in> {''connection'', ''keep-alive'', ''proxy-connection'', ''te'', ''trailer'', ''transfer-encoding'', ''upgrade'',
               ''proxy-authenticate'', ''proxy-authorization''} \<or> nominates L (hr_headers request) name
          then [] else hl_get_all L (hr_headers request) name))"
proof -
  from assms(2) obtain authority where a: "ordinary_authority A (hr_uri request) = Inr authority"
    and valid: "validate_host_header L A (hr_headers request) authority = Inr ()"
    and connect: "gateway_connect U n cfg w authority = (attempts, Inr upstream)"
    and clean: "sanitize_request_headers L (hr_headers request) authority = Inr headers"
    by (auto simp: forward_target_def result_simps split: sum.splits prod.splits)
  from validate_host_header_Inr [OF valid] obtain v spelled host where v: "hl_get_all L (hr_headers request) ''host'' = [v]"
    "hl_to_str L v = Some spelled" "authority_parse A spelled (Some 80) = Inr host" "same_endpoint authority host" .
  from sanitize_request_headers_Inr [OF clean] obtain nominated hv where
    h: "nominated_headers L GInvalidHttpRequest (hr_headers request) = Inr nominated" "hl_header_value L (host_header_text authority) = Some hv"
    "headers = hl_insert L (remove_hop_by_hop_headers L (hr_headers request) nominated) ''host'' hv" .
  have names: "set hop_by_hop_names = {''connection'', ''keep-alive'', ''proxy-connection'', ''te'', ''trailer'', ''transfer-encoding'',
      ''upgrade'', ''proxy-authenticate'', ''proxy-authorization''}" by (simp add: hop_by_hop_names_def)
  have "hl_get_all L headers ''host'' = [hv]" unfolding h(3) by (simp add: get_all_insert [OF assms(1)])
  moreover have "hl_get_all L headers name = (if name \<in> set hop_by_hop_names \<or> nominates L (hr_headers request) name then []
      else hl_get_all L (hr_headers request) name)" if "name \<noteq> ''host''" for name
    unfolding h(3) nominated_headers_set [OF h(1), symmetric]
    using that by (simp add: get_all_insert [OF assms(1)] get_all_hop_by_hop [OF assms(1)])
  ultimately show ?thesis unfolding names using a connect v h(2) by blast
qed

definition alist_headers :: "(string \<times> string) list http_lib" where
  "alist_headers =
     \<lparr>hl_get_all = (\<lambda>h n. map snd (filter (\<lambda>(m, _). m = n) h)),
      hl_remove = (\<lambda>h n. filter (\<lambda>(m, _). m \<noteq> n) h),
      hl_insert = (\<lambda>h n v. filter (\<lambda>(m, _). m \<noteq> n) h @ [(n, v)]),
      hl_header_name = (\<lambda>s. if s = [] then None else Some (ascii_lower s)), hl_header_value = Some, hl_to_str = Some\<rparr>"

lemma alist_headers_ok: "http_lib_ok alist_headers"
  by (auto simp: http_lib_ok_def alist_headers_def filter_empty_conv filter_filter intro!: arg_cong [where f = "map snd"] filter_cong)

definition example_http_request :: "(string \<times> string) list http_request" where
  "example_http_request =
     \<lparr>hr_is_connect = False,
      hr_uri = \<lparr>uri_scheme = Some ''http'', uri_authority = Some ''example.com'', uri_path_and_query = Some ''/x''\<rparr>,
      hr_headers = [(''host'', ''Example.com''), (''connection'', ''x-trace''), (''x-trace'', ''1''), (''accept'', ''a'')]\<rparr>"

definition plain_authority :: authority_parser where
  "plain_authority text = Some (text, None)"

definition plain_uri :: "string \<Rightarrow> uri option" where
  "plain_uri path = Some \<lparr>uri_scheme = None, uri_authority = None, uri_path_and_query = Some path\<rparr>"

theorem forwarded_request_is_clean_witness:
  "\<exists>attempts upstream headers target.
     forward_target alist_headers plain_authority plain_uri ascii_tables example_effective_network gateway_config_default example_world
       example_http_request = (attempts, Inr (upstream, headers, target)) \<and>
     hl_get_all alist_headers headers ''accept'' = [''a''] \<and> hl_get_all alist_headers headers ''connection'' = [] \<and>
     hl_get_all alist_headers headers ''x-trace'' = []"
proof -
  have "case forward_target alist_headers plain_authority plain_uri ascii_tables example_effective_network gateway_config_default example_world
       example_http_request of (attempts, r) \<Rightarrow> is_ok r" by code_simp
  then obtain attempts upstream headers target where run:
    "forward_target alist_headers plain_authority plain_uri ascii_tables example_effective_network gateway_config_default example_world
       example_http_request = (attempts, Inr (upstream, headers, target))"
    by (auto simp: is_ok_iff split: prod.splits)
  have "nominated_headers alist_headers GInvalidHttpRequest (hr_headers example_http_request) = Inr [''x-trace'']" by code_simp
  note nominated = nominated_headers_set [OF this]
  have accept: "hl_get_all alist_headers (hr_headers example_http_request) ''accept'' = [''a'']" by code_simp
  from forwarded_request_is_clean [OF alist_headers_ok run] have
    "\<forall>name. name \<noteq> ''host'' \<longrightarrow> hl_get_all alist_headers headers name =
         (if name \<in> {''connection'', ''keep-alive'', ''proxy-connection'', ''te'', ''trailer'', ''transfer-encoding'', ''upgrade'',
               ''proxy-authenticate'', ''proxy-authorization''} \<or> nominates alist_headers (hr_headers example_http_request) name
          then [] else hl_get_all alist_headers (hr_headers example_http_request) name)" by blast
  note all = this [rule_format]
  from all [of "''accept''"] all [of "''connection''"] all [of "''x-trace''"] accept run show ?thesis
    by (simp flip: nominated)
qed

text \<open>The Host field of a request to an IPv6 literal loses its brackets when the port is 80, and only then.\<close>

lemma host_header_unbracketed_on_port_80:
  "host_header_text \<lparr>auth_host = ''::1'', auth_port = 80\<rparr> = ''::1''"
  "host_header_text \<lparr>auth_host = ''::1'', auth_port = 8080\<rparr> = ''[::1]:8080''"
  by code_simp+

end
