(* ===== verification/Permissions.thy ===== *)
theory Permissions
  imports Collections Utf8 "HOL-Library.Product_Lexorder" "HOL-Library.Word"
begin

unbundle bit_operations_syntax

text \<open>
  Permission requests, escalations, grant identities and grants (\<open>cageforge-permissions/src/lib.rs\<close>).
  The SHA-256 digest of a serialized request is a parameter. A byte is a \<open>char\<close>, a Unix time a number.
\<close>

section \<open>Requests\<close>

datatype platform_id = Linux | Macos | Windows

fun platform_as_str :: "platform_id \<Rightarrow> string" where
  "platform_as_str Linux = ''linux''"
| "platform_as_str Macos = ''macos''"
| "platform_as_str Windows = ''windows''"

datatype permission_mode = PermDisabled | Preflight | OnDemand | PreflightAndOnDemand

datatype approval_timeout_action = TimeoutDeny

datatype approval_persistence = PersistLaunch | PersistSession | PersistPersistent

datatype permission_error =
    InvalidCapability string
  | InvalidIdentity string
  | InvalidDigest string
  | InvalidGrantId
  | InvalidScope string
  | GrantExceedsRequest
  | InvalidExpiration
  | InvalidTimeout
  | InvalidEscalationReason
  | EmptyEscalation

record approval_config =
  appr_mode :: permission_mode
  appr_timeout_ms :: nat
  appr_on_timeout :: approval_timeout_action
  appr_persistence :: approval_persistence

definition approval_default :: approval_config where
  "approval_default = \<lparr>appr_mode = PermDisabled, appr_timeout_ms = 10000, appr_on_timeout = TimeoutDeny,
     appr_persistence = PersistSession\<rparr>"

definition approval_new ::
  "permission_mode \<Rightarrow> nat \<Rightarrow> approval_timeout_action \<Rightarrow> approval_persistence \<Rightarrow> (permission_error, approval_config) rust_result" where
  "approval_new mode timeout_ms on_timeout persistence =
     (if timeout_ms = 0 then Inl InvalidTimeout
      else Inr \<lparr>appr_mode = mode, appr_timeout_ms = timeout_ms, appr_on_timeout = on_timeout,
                appr_persistence = persistence\<rparr>)"

datatype filesystem_operation = OpRead | OpWrite | OpDeny | OpMapExecutable

fun operation_as_str :: "filesystem_operation \<Rightarrow> string" where
  "operation_as_str OpRead = ''read''"
| "operation_as_str OpWrite = ''write''"
| "operation_as_str OpDeny = ''deny''"
| "operation_as_str OpMapExecutable = ''map-executable''"

record filesystem_capability =
  cap_operation :: filesystem_operation
  cap_path :: string

record network_capability =
  cap_endpoint :: string

record process_capability =
  cap_program :: string

datatype permission_scope = ScopeLaunch | ScopeSession | ScopePersistent

record permission_set =
  set_filesystem :: "filesystem_capability list"
  set_network :: "network_capability list"
  set_child_processes :: "process_capability list"

record permission_request =
  req_tool_id :: string
  req_tool_version :: string
  req_manifest_digest :: string
  req_config_digest :: string
  req_platform :: platform_id
  req_architecture :: string
  req_capabilities :: permission_set

record permission_escalation_request =
  esc_base :: permission_request
  esc_request :: permission_request
  esc_additional :: permission_set
  esc_reason :: string

definition unsafe_label :: "string \<Rightarrow> bool" where
  "unsafe_label value \<longleftrightarrow> str_trim value = [] \<or> CHR 0x00 \<in> set value"

definition validate_path :: "string \<Rightarrow> (permission_error, unit) rust_result" where
  "validate_path path =
     (if unsafe_label path then Inl (InvalidCapability ''filesystem path must be non-empty and NUL-free'') else Inr ())"

definition validate_identity :: "string \<Rightarrow> string \<Rightarrow> (permission_error, string) rust_result" where
  "validate_identity value field = (if unsafe_label value then Inl (InvalidIdentity field) else Inr value)"

definition lower_hex_digit :: "char \<Rightarrow> bool" where
  "lower_hex_digit c \<longleftrightarrow> CHR ''0'' \<le> c \<and> c \<le> CHR ''9'' \<or> CHR ''a'' \<le> c \<and> c \<le> CHR ''f''"

definition validate_digest :: "string \<Rightarrow> string \<Rightarrow> (permission_error, string) rust_result" where
  "validate_digest value field =
     (if length value \<noteq> 64 \<or> \<not> list_all lower_hex_digit value then Inl (InvalidDigest field) else Inr value)"

definition filesystem_capability_new ::
  "filesystem_operation \<Rightarrow> string \<Rightarrow> (permission_error, filesystem_capability) rust_result" where
  "filesystem_capability_new operation path =
     and_then (validate_path path) (\<lambda>_. Inr \<lparr>cap_operation = operation, cap_path = path\<rparr>)"

definition network_capability_new :: "string \<Rightarrow> (permission_error, network_capability) rust_result" where
  "network_capability_new endpoint =
     (if unsafe_label endpoint then Inl (InvalidCapability ''network endpoint must be non-empty and NUL-free'')
      else Inr \<lparr>cap_endpoint = endpoint\<rparr>)"

definition process_capability_new :: "string \<Rightarrow> (permission_error, process_capability) rust_result" where
  "process_capability_new program =
     (if unsafe_label program then Inl (InvalidCapability ''program must be non-empty and NUL-free'')
      else Inr \<lparr>cap_program = program\<rparr>)"

definition scope_parse :: "string \<Rightarrow> (permission_error, permission_scope) rust_result" where
  "scope_parse value =
     (if value = ''launch'' then Inr ScopeLaunch
      else if value = ''session'' then Inr ScopeSession
      else if value = ''persistent'' then Inr ScopePersistent
      else Inl (InvalidScope value))"

text \<open>The derived order of the capability types: the operation in declaration order, then the path.\<close>

fun operation_rank :: "filesystem_operation \<Rightarrow> nat" where
  "operation_rank OpRead = 0"
| "operation_rank OpWrite = 1"
| "operation_rank OpDeny = 2"
| "operation_rank OpMapExecutable = 3"

definition filesystem_capability_key :: "filesystem_capability \<Rightarrow> nat \<times> string" where
  "filesystem_capability_key c = (operation_rank (cap_operation c), cap_path c)"

definition permission_set_new :: permission_set where
  "permission_set_new = \<lparr>set_filesystem = [], set_network = [], set_child_processes = []\<rparr>"

definition add_capability :: "('a \<Rightarrow> 'k :: linorder) \<Rightarrow> 'a list \<Rightarrow> 'a \<Rightarrow> 'a list" where
  "add_capability key cs c = (if c \<in> set cs then cs else sort_key key (cs @ [c]))"

definition with_filesystem :: "permission_set \<Rightarrow> filesystem_capability \<Rightarrow> permission_set" where
  "with_filesystem s c = s\<lparr>set_filesystem := add_capability filesystem_capability_key (set_filesystem s) c\<rparr>"

definition with_network :: "permission_set \<Rightarrow> network_capability \<Rightarrow> permission_set" where
  "with_network s c = s\<lparr>set_network := add_capability cap_endpoint (set_network s) c\<rparr>"

definition with_child_process :: "permission_set \<Rightarrow> process_capability \<Rightarrow> permission_set" where
  "with_child_process s c = s\<lparr>set_child_processes := add_capability cap_program (set_child_processes s) c\<rparr>"

definition is_subset_of :: "permission_set \<Rightarrow> permission_set \<Rightarrow> bool" where
  "is_subset_of s request \<longleftrightarrow>
     list_all (\<lambda>v. v \<in> set (set_filesystem request)) (set_filesystem s) \<and>
     list_all (\<lambda>v. v \<in> set (set_network request)) (set_network s) \<and>
     list_all (\<lambda>v. v \<in> set (set_child_processes request)) (set_child_processes s)"

definition permission_set_is_empty :: "permission_set \<Rightarrow> bool" where
  "permission_set_is_empty s \<longleftrightarrow> set_filesystem s = [] \<and> set_network s = [] \<and> set_child_processes s = []"

definition additional_to :: "permission_set \<Rightarrow> permission_set \<Rightarrow> permission_set" where
  "additional_to s base =
     \<lparr>set_filesystem = filter (\<lambda>c. c \<notin> set (set_filesystem base)) (set_filesystem s),
      set_network = filter (\<lambda>c. c \<notin> set (set_network base)) (set_network s),
      set_child_processes = filter (\<lambda>c. c \<notin> set (set_child_processes base)) (set_child_processes s)\<rparr>"

definition push_missing :: "'a list \<Rightarrow> 'a \<Rightarrow> 'a list" where
  "push_missing cs c = (if c \<in> set cs then cs else cs @ [c])"

definition extend_from :: "permission_set \<Rightarrow> permission_set \<Rightarrow> permission_set" where
  "extend_from s other =
     \<lparr>set_filesystem = sort_key filesystem_capability_key (foldl push_missing (set_filesystem s) (set_filesystem other)),
      set_network = sort_key cap_endpoint (foldl push_missing (set_network s) (set_network other)),
      set_child_processes = sort_key cap_program (foldl push_missing (set_child_processes s) (set_child_processes other))\<rparr>"

definition permission_request_new ::
  "string \<Rightarrow> string \<Rightarrow> string \<Rightarrow> string \<Rightarrow> platform_id \<Rightarrow> string \<Rightarrow> permission_set
     \<Rightarrow> (permission_error, permission_request) rust_result" where
  "permission_request_new tool_id tool_version manifest_digest config_digest platform architecture capabilities =
     and_then (validate_identity tool_id ''tool id'') (\<lambda>tool_id.
     and_then (validate_identity tool_version ''tool version'') (\<lambda>tool_version.
     and_then (validate_digest manifest_digest ''manifest digest'') (\<lambda>manifest_digest.
     and_then (validate_digest config_digest ''config digest'') (\<lambda>config_digest.
     and_then (validate_identity architecture ''architecture'') (\<lambda>architecture.
     Inr \<lparr>req_tool_id = tool_id, req_tool_version = tool_version, req_manifest_digest = manifest_digest,
          req_config_digest = config_digest, req_platform = platform, req_architecture = architecture,
          req_capabilities = capabilities\<rparr>)))))"

definition escalation_new ::
  "permission_request \<Rightarrow> permission_set \<Rightarrow> string \<Rightarrow> (permission_error, permission_escalation_request) rust_result" where
  "escalation_new base requested_additional reason =
     (if unsafe_label reason then Inl InvalidEscalationReason
      else let additional = additional_to requested_additional (req_capabilities base)
           in if permission_set_is_empty additional then Inl EmptyEscalation
              else and_then (permission_request_new (req_tool_id base) (req_tool_version base) (req_manifest_digest base)
                     (req_config_digest base) (req_platform base) (req_architecture base)
                     (extend_from (req_capabilities base) additional))
                   (\<lambda>request. Inr \<lparr>esc_base = base, esc_request = request, esc_additional = additional, esc_reason = reason\<rparr>))"

section \<open>Grant identities\<close>

type_synonym grant_id = string

definition hex_nibble :: "char \<Rightarrow> nat option" where
  "hex_nibble value =
     (if CHR ''0'' \<le> value \<and> value \<le> CHR ''9'' then Some (of_char value - 48)
      else if CHR ''a'' \<le> value \<and> value \<le> CHR ''f'' then Some (of_char value - 97 + 10)
      else if CHR ''A'' \<le> value \<and> value \<le> CHR ''F'' then Some (of_char value - 65 + 10)
      else None)"

fun hex_pairs :: "string \<Rightarrow> grant_id option" where
  "hex_pairs (a # b # rest) =
     (case (hex_nibble a, hex_nibble b) of
        (Some high, Some low) \<Rightarrow> map_option ((#) (char_of (push_bit 4 high OR low))) (hex_pairs rest)
      | _ \<Rightarrow> None)"
| "hex_pairs _ = Some []"

definition grant_id_from_hex :: "string \<Rightarrow> (permission_error, grant_id) rust_result" where
  "grant_id_from_hex value =
     (if length value \<noteq> 64 then Inl InvalidGrantId
      else case hex_pairs value of None \<Rightarrow> Inl InvalidGrantId | Some bytes \<Rightarrow> Inr bytes)"

definition hex_digit :: "nat \<Rightarrow> char" where
  "hex_digit n = ''0123456789abcdef'' ! n"

definition byte_hex :: "char \<Rightarrow> string" where
  "byte_hex b = [hex_digit (of_char b div 16), hex_digit (of_char b mod 16)]"

definition digest_hex :: "string \<Rightarrow> string" where
  "digest_hex bytes = concat (map byte_hex bytes)"

definition request_digest :: "(permission_request \<Rightarrow> string) \<Rightarrow> permission_request \<Rightarrow> string" where
  "request_digest sha r = digest_hex (sha r)"

section \<open>Grants\<close>

record permission_grant =
  grant_request_digest :: string
  grant_approved :: permission_set
  grant_scope :: permission_scope
  grant_expires_at :: "nat option"
  grant_issued_at :: nat

definition grant_matches :: "(permission_request \<Rightarrow> string) \<Rightarrow> permission_grant \<Rightarrow> permission_request \<Rightarrow> bool" where
  "grant_matches sha g r \<longleftrightarrow>
     grant_request_digest g = request_digest sha r \<and> is_subset_of (grant_approved g) (req_capabilities r)"

definition grant_is_valid_at :: "permission_grant \<Rightarrow> nat \<Rightarrow> bool" where
  "grant_is_valid_at g now = (case grant_expires_at g of None \<Rightarrow> True | Some expires_at \<Rightarrow> now < expires_at)"

definition approve :: "(permission_request \<Rightarrow> string) \<Rightarrow> nat \<Rightarrow> permission_request \<Rightarrow> permission_grant" where
  "approve sha now r = \<lparr>grant_request_digest = request_digest sha r, grant_approved = req_capabilities r,
     grant_scope = ScopeSession, grant_expires_at = None, grant_issued_at = now\<rparr>"

definition approve_with ::
  "(permission_request \<Rightarrow> string) \<Rightarrow> nat \<Rightarrow> permission_request \<Rightarrow> permission_set \<Rightarrow> permission_scope \<Rightarrow> nat option
     \<Rightarrow> (permission_error, permission_grant) rust_result" where
  "approve_with sha now r approved scope expires_at =
     (if expires_at = Some 0 then Inl InvalidExpiration
      else if \<not> is_subset_of approved (req_capabilities r) then Inl GrantExceedsRequest
      else Inr \<lparr>grant_request_digest = request_digest sha r, grant_approved = approved, grant_scope = scope,
                grant_expires_at = expires_at, grant_issued_at = now\<rparr>)"

definition approve_subset ::
  "(permission_request \<Rightarrow> string) \<Rightarrow> nat \<Rightarrow> permission_request \<Rightarrow> permission_set \<Rightarrow> (permission_error, permission_grant) rust_result" where
  "approve_subset sha now r approved = approve_with sha now r approved ScopeSession None"

definition approve_escalation ::
  "(permission_request \<Rightarrow> string) \<Rightarrow> nat \<Rightarrow> permission_escalation_request \<Rightarrow> permission_set \<Rightarrow> permission_scope \<Rightarrow> nat option
     \<Rightarrow> (permission_error, permission_grant) rust_result" where
  "approve_escalation sha now e approved_additional scope expires_at =
     (if \<not> is_subset_of approved_additional (esc_additional e) then Inl GrantExceedsRequest
      else approve_with sha now (esc_request e) (extend_from (req_capabilities (esc_base e)) approved_additional) scope expires_at)"

section \<open>Hexadecimal identities\<close>

lemma hex_digit_facts:
  assumes "n < 16"
  shows "hex_nibble (hex_digit n) = Some n"
proof -
  have "list_all (\<lambda>n. hex_nibble (hex_digit n) = Some n) [0..<16]" by code_simp
  with assms show ?thesis by (simp add: list_all_iff)
qed

lemma hex_nibble_Some:
  assumes "hex_nibble c = Some n"
  shows "n < 16" and "hex_digit n = to_ascii_lowercase c"
proof -
  have "list_all (\<lambda>c. case hex_nibble c of None \<Rightarrow> True | Some n \<Rightarrow> n < 16 \<and> hex_digit n = to_ascii_lowercase c)
      (map char_of [0..<256 :: nat])" by code_simp
  moreover have "c \<in> set (map char_of [0..<256 :: nat])"
    by (auto intro!: image_eqI [of _ _ "of_char c"])
  ultimately have "case hex_nibble c of None \<Rightarrow> True | Some n \<Rightarrow> n < 16 \<and> hex_digit n = to_ascii_lowercase c"
    unfolding list_all_iff by blast
  with assms show "n < 16" and "hex_digit n = to_ascii_lowercase c" by simp_all
qed

lemma join_nibbles:
  assumes "h < 16" and "l < 16"
  shows "push_bit 4 h OR l = h * 16 + (l :: nat)"
proof -
  have "list_all (\<lambda>h. list_all (\<lambda>l. push_bit 4 h OR l = h * 16 + l) [0..<16]) [0..<16 :: nat]" by code_simp
  with assms show ?thesis by (simp add: list_all_iff)
qed

lemma hex_digit_less:
  assumes "m < 16" and "n < 16"
  shows "hex_digit m < hex_digit n \<longleftrightarrow> m < n"
proof -
  have "list_all (\<lambda>m. list_all (\<lambda>n. hex_digit m < hex_digit n \<longleftrightarrow> m < n) [0..<16]) [0..<16]" by code_simp
  with assms show ?thesis by (simp add: list_all_iff)
qed

lemma nibble_bounds: "of_char b div 16 < (16 :: nat)" "of_char b mod 16 < (16 :: nat)"
proof -
  show "of_char b div 16 < (16 :: nat)" using nat_of_char_less_256 [of b] by linarith
qed simp

lemma char_of_nibbles: "char_of (of_char b div 16 * 16 + of_char b mod 16 :: nat) = b"
  by simp

lemma digest_hex_Nil [simp]: "digest_hex [] = []"
  by (simp add: digest_hex_def)

lemma digest_hex_Cons: "digest_hex (b # bs) = hex_digit (of_char b div 16) # hex_digit (of_char b mod 16) # digest_hex bs"
  by (simp add: digest_hex_def byte_hex_def)

lemma length_digest_hex [simp]: "length (digest_hex bs) = 2 * length bs"
  by (induction bs) (simp_all add: digest_hex_Cons)

lemma hex_pairs_digest_hex: "hex_pairs (digest_hex bs) = Some bs"
  by (induction bs) (simp_all add: digest_hex_Cons hex_digit_facts nibble_bounds join_nibbles)

lemma hex_pairs_Some:
  "hex_pairs s = Some bs \<Longrightarrow> even (length s) \<Longrightarrow> digest_hex bs = ascii_lower s \<and> 2 * length bs = length s"
proof (induction s arbitrary: bs rule: hex_pairs.induct)
  case (1 a b rest)
  then obtain h l cs where n: "hex_nibble a = Some h" "hex_nibble b = Some l" "hex_pairs rest = Some cs"
    and bs: "bs = char_of (push_bit 4 h OR l) # cs"
    by (auto split: option.splits)
  note hl = hex_nibble_Some [OF n(1)] hex_nibble_Some [OF n(2)]
  have "of_char (char_of (h * 16 + l) :: char) = h * 16 + l" using hl(1,3) by simp
  with 1 n hl show ?case by (simp add: bs join_nibbles digest_hex_Cons ascii_lower_def)
qed (simp_all add: ascii_lower_def)

lemma grant_id_from_hex_Inr:
  "grant_id_from_hex s = Inr i \<Longrightarrow> digest_hex i = ascii_lower s \<and> length i = 32"
  using hex_pairs_Some [of s i] by (auto simp: grant_id_from_hex_def split: if_splits option.splits)

lemma grant_id_from_digest_hex [simp]: "length i = 32 \<Longrightarrow> grant_id_from_hex (digest_hex i) = Inr i"
  by (simp add: grant_id_from_hex_def hex_pairs_digest_hex)

lemma nibble_order:
  fixes a b :: nat
  shows "a < b \<longleftrightarrow> a div 16 < b div 16 \<or> a div 16 = b div 16 \<and> a mod 16 < b mod 16"
proof -
  have "a = 16 * (a div 16) + a mod 16" "b = 16 * (b div 16) + b mod 16" by simp_all
  moreover have "a mod 16 < 16" "b mod 16 < 16" by simp_all
  ultimately show ?thesis by linarith
qed

lemma nibble_eq:
  fixes a b :: nat
  shows "a = b \<longleftrightarrow> a div 16 = b div 16 \<and> a mod 16 = b mod 16"
  by (metis div_mult_mod_eq)

lemma hex_digit_eq: "m < 16 \<Longrightarrow> n < 16 \<Longrightarrow> hex_digit m = hex_digit n \<longleftrightarrow> m = n"
  using hex_digit_less [of m n] hex_digit_less [of n m] by (metis less_irrefl linorder_less_linear)

lemma digest_hex_less: "digest_hex a < digest_hex b \<longleftrightarrow> a < b"
proof (induction a arbitrary: b)
  case Nil
  then show ?case by (cases b) (simp_all add: digest_hex_Cons)
next
  case (Cons x xs)
  show ?case
  proof (cases b)
    case (Cons y ys)
    let ?x = "of_char x :: nat" and ?y = "of_char y :: nat"
    have "x < y \<longleftrightarrow> ?x < ?y" "x = y \<longleftrightarrow> ?x = ?y" by (simp_all add: less_char_def)
    then have "x < y \<longleftrightarrow> ?x div 16 < ?y div 16 \<or> ?x div 16 = ?y div 16 \<and> ?x mod 16 < ?y mod 16"
      "x = y \<longleftrightarrow> ?x div 16 = ?y div 16 \<and> ?x mod 16 = ?y mod 16"
      using nibble_order [of ?x ?y] nibble_eq [of ?x ?y] by simp_all
    then show ?thesis
      unfolding Cons digest_hex_Cons Cons_less_Cons hex_digit_less [OF nibble_bounds(1) nibble_bounds(1)]
        hex_digit_less [OF nibble_bounds(2) nibble_bounds(2)] hex_digit_eq [OF nibble_bounds(1) nibble_bounds(1)]
        hex_digit_eq [OF nibble_bounds(2) nibble_bounds(2)] Cons.IH by argo
  qed (simp add: digest_hex_Cons)
qed

section \<open>Capability sets\<close>

lemma set_foldl_push_missing: "set (foldl push_missing cs ds) = set cs \<union> set ds"
  by (induction ds arbitrary: cs) (auto simp: push_missing_def)

lemma extend_from_sets:
  "set (set_filesystem (extend_from s t)) = set (set_filesystem s) \<union> set (set_filesystem t)"
  "set (set_network (extend_from s t)) = set (set_network s) \<union> set (set_network t)"
  "set (set_child_processes (extend_from s t)) = set (set_child_processes s) \<union> set (set_child_processes t)"
  by (simp_all add: extend_from_def set_foldl_push_missing)

lemma is_subset_of_sets:
  "is_subset_of s t \<longleftrightarrow> set (set_filesystem s) \<subseteq> set (set_filesystem t) \<and>
     set (set_network s) \<subseteq> set (set_network t) \<and> set (set_child_processes s) \<subseteq> set (set_child_processes t)"
  by (auto simp: is_subset_of_def list_all_iff)

lemma is_subset_of_refl [simp]: "is_subset_of s s"
  by (simp add: is_subset_of_sets)

lemma is_subset_of_extend:
  "is_subset_of s (extend_from s t)" "is_subset_of t (extend_from s t)"
  "is_subset_of (extend_from s t) u \<longleftrightarrow> is_subset_of s u \<and> is_subset_of t u"
  by (auto simp: is_subset_of_sets extend_from_sets)

lemma is_subset_of_trans: "is_subset_of s t \<Longrightarrow> is_subset_of t u \<Longrightarrow> is_subset_of s u"
  by (auto simp: is_subset_of_sets)

lemma permission_request_new_Inr:
  "permission_request_new tool version manifest config platform architecture caps = Inr r \<Longrightarrow>
     req_capabilities r = caps \<and> req_tool_id r = tool \<and> req_tool_version r = version \<and> req_manifest_digest r = manifest \<and>
     req_config_digest r = config \<and> req_platform r = platform \<and> req_architecture r = architecture"
  by (auto simp: permission_request_new_def validate_identity_def validate_digest_def result_simps guard_eq_Inr)

section \<open>Properties\<close>

text \<open>C14: Escalation. A grant for an escalation is bound to the expanded request, never exceeds it, keeps every
  capability of the base launch, and adds nothing beyond what was approved; only capabilities absent from the
  base count as additional and there is at least one; tool, digests, platform and architecture stay those of the base.\<close>

theorem escalation_grant_exact:
  assumes "escalation_new base extra reason = Inr e" and "approve_escalation sha now e approved scope expires = Inr g"
  shows "grant_matches sha g (esc_request e) \<and> is_subset_of (req_capabilities base) (grant_approved g) \<and>
     is_subset_of approved (grant_approved g) \<and> is_subset_of approved (esc_additional e) \<and>
     is_subset_of (grant_approved g) (extend_from (req_capabilities base) approved) \<and>
     \<not> permission_set_is_empty (esc_additional e) \<and> is_subset_of (esc_additional e) extra \<and>
     set (set_filesystem (esc_additional e)) \<inter> set (set_filesystem (req_capabilities base)) = {} \<and>
     set (set_network (esc_additional e)) \<inter> set (set_network (req_capabilities base)) = {} \<and>
     set (set_child_processes (esc_additional e)) \<inter> set (set_child_processes (req_capabilities base)) = {} \<and>
     req_tool_id (esc_request e) = req_tool_id base \<and> req_tool_version (esc_request e) = req_tool_version base \<and>
     req_manifest_digest (esc_request e) = req_manifest_digest base \<and> req_config_digest (esc_request e) = req_config_digest base \<and>
     req_platform (esc_request e) = req_platform base \<and> req_architecture (esc_request e) = req_architecture base"
proof -
  let ?add = "additional_to extra (req_capabilities base)"
  from assms(1) obtain r where r: "permission_request_new (req_tool_id base) (req_tool_version base) (req_manifest_digest base)
      (req_config_digest base) (req_platform base) (req_architecture base) (extend_from (req_capabilities base) ?add) = Inr r"
    and ne: "\<not> permission_set_is_empty ?add"
    and e: "e = \<lparr>esc_base = base, esc_request = r, esc_additional = ?add, esc_reason = reason\<rparr>"
    by (auto simp: escalation_new_def Let_def result_simps split: if_splits)
  from assms(2) have sub: "is_subset_of approved ?add"
    and g: "grant_request_digest g = request_digest sha r" "grant_approved g = extend_from (req_capabilities base) approved"
      "is_subset_of (grant_approved g) (req_capabilities r)"
    by (auto simp: approve_escalation_def approve_with_def e split: if_splits)
  have add: "is_subset_of ?add extra"
    "set (set_filesystem ?add) \<inter> set (set_filesystem (req_capabilities base)) = {}"
    "set (set_network ?add) \<inter> set (set_network (req_capabilities base)) = {}"
    "set (set_child_processes ?add) \<inter> set (set_child_processes (req_capabilities base)) = {}"
    by (auto simp: additional_to_def is_subset_of_sets)
  show ?thesis
    using permission_request_new_Inr [OF r] g sub ne add by (simp add: e grant_matches_def is_subset_of_extend)
qed

text \<open>An example request and a constant digest.\<close>

definition example_sha :: "permission_request \<Rightarrow> string" where
  "example_sha r = replicate 32 (CHR ''a'')"

definition example_hex :: string where
  "example_hex = replicate 64 (CHR ''0'')"

definition example_base :: permission_request where
  "example_base = \<lparr>req_tool_id = ''tool'', req_tool_version = ''1'', req_manifest_digest = example_hex,
     req_config_digest = example_hex, req_platform = Linux, req_architecture = ''x86_64'',
     req_capabilities = permission_set_new\<rparr>"

definition example_extra :: permission_set where
  "example_extra = with_network permission_set_new \<lparr>cap_endpoint = ''example.com''\<rparr>"

theorem escalation_grant_exact_witness:
  "\<exists>e g. escalation_new example_base example_extra ''needs network'' = Inr e \<and>
     approve_escalation example_sha 5 e example_extra ScopePersistent (Some 9) = Inr g \<and>
     grant_matches example_sha g (esc_request e)"
proof -
  have "(case escalation_new example_base example_extra ''needs network'' of Inl _ \<Rightarrow> False
      | Inr e \<Rightarrow> is_ok (approve_escalation example_sha 5 e example_extra ScopePersistent (Some 9)))" by code_simp
  then obtain e g where eg: "escalation_new example_base example_extra ''needs network'' = Inr e"
    "approve_escalation example_sha 5 e example_extra ScopePersistent (Some 9) = Inr g"
    by (auto simp: is_ok_iff split: sum.splits)
  with escalation_grant_exact [OF eg] show ?thesis by blast
qed

end
