(* ===== verification/Permission_Store.thy ===== *)
theory Permission_Store
  imports Permissions Std_Path
begin

unbundle bit_operations_syntax

text \<open>
  The persistent grant store (\<open>cageforge-permissions/src/lib.rs\<close>): the document, lookup, storing,
  revocation and paged listing. The SHA-256 digest of a serialized value and the \<open>serde_json\<close> encoding
  of the document are parameters, with \<open>sha256_width\<close> and \<open>serde_round_trips\<close> as the facts relied
  on. The store file is its bytes and mode, or absent; \<open>store_faults\<close> holds the failures the operating
  system reports at the fallible steps of one operation.
\<close>

section \<open>The store\<close>

datatype store_error =
    PathNotAbsolute string
  | StoreRead string
  | StoreFormat string
  | UnsupportedSchema nat
  | Poisoned
  | GrantMismatch
  | NonPersistentGrant
  | StoreWrite string
  | StoreInvalidGrantId
  | GrantNotFound
  | ListingSnapshotExpired
  | InvalidPageSize nat nat
  | InvalidCursor
  | StoreLocked string

record stored_grant =
  sg_request_digest :: string
  sg_tool_id :: string
  sg_tool_version :: string
  sg_manifest_digest :: string
  sg_config_digest :: string
  sg_platform :: platform_id
  sg_architecture :: string
  sg_approved :: permission_set
  sg_scope :: permission_scope
  sg_expires_at :: "nat option"
  sg_issued_at :: nat

record store_document =
  doc_schema_version :: nat
  doc_grants :: "(string \<times> stored_grant) list"

record grant_summary =
  sum_id :: grant_id
  sum_tool_id :: string
  sum_tool_version :: string
  sum_platform :: platform_id
  sum_architecture :: string
  sum_scope :: permission_scope
  sum_issued_at :: nat
  sum_expires_at :: "nat option"

record grant_page_cursor =
  cursor_snapshot :: grant_id
  cursor_last_id :: grant_id

record grant_page =
  page_entries :: "grant_summary list"
  page_next_cursor :: "grant_page_cursor option"

record grant_page_request =
  pr_page_size :: nat
  pr_cursor :: "grant_page_cursor option"

datatype revoke_result = Revoked | NotFound

definition cursor_to_token :: "grant_page_cursor \<Rightarrow> string" where
  "cursor_to_token c = ''v1.'' @ digest_hex (cursor_snapshot c) @ ''.'' @ digest_hex (cursor_last_id c)"

definition cursor_from_token :: "string \<Rightarrow> (store_error, grant_page_cursor) rust_result" where
  "cursor_from_token value =
     (let parts = split_on (CHR ''.'') value
      in if length parts \<noteq> 3 \<or> parts ! 0 \<noteq> ''v1'' then Inl InvalidCursor
         else and_then (map_err (\<lambda>_. InvalidCursor) (grant_id_from_hex (parts ! 1)))
           (\<lambda>snapshot. and_then (map_err (\<lambda>_. InvalidCursor) (grant_id_from_hex (parts ! 2)))
             (\<lambda>last_id. Inr \<lparr>cursor_snapshot = snapshot, cursor_last_id = last_id\<rparr>)))"

definition max_page_size :: nat where
  "max_page_size = 1000"

definition page_request_new :: "nat \<Rightarrow> grant_page_cursor option \<Rightarrow> (store_error, grant_page_request) rust_result" where
  "page_request_new page_size cursor =
     (if page_size = 0 then Inl (InvalidPageSize page_size max_page_size)
      else if page_size > max_page_size then Inl (InvalidPageSize page_size max_page_size)
      else Inr \<lparr>pr_page_size = page_size, pr_cursor = cursor\<rparr>)"

text \<open>The file the store keeps its document in, and what can fail outside the program.\<close>

record 'b store_file =
  file_bytes :: 'b
  file_mode :: "32 word"

record store_faults =
  fault_lock :: "store_error option"
  fault_metadata :: "string option"
  fault_read :: "string option"
  fault_prepare :: "string option"
  fault_write :: "string option"
  fault_settle :: "string option"

record 'b store_codec =
  codec_parse :: "'b \<Rightarrow> (string, store_document) rust_result"
  codec_render :: "store_document \<Rightarrow> (string, 'b) rust_result"

definition guard_fault :: "('e \<Rightarrow> 'f) \<Rightarrow> 'e option \<Rightarrow> ('f, unit) rust_result" where
  "guard_fault h fault = (case fault of None \<Rightarrow> Inr () | Some e \<Rightarrow> Inl (h e))"

definition schema_version :: nat where
  "schema_version = 2"

definition empty_document :: store_document where
  "empty_document = \<lparr>doc_schema_version = schema_version, doc_grants = []\<rparr>"

definition ensure_owner_only_permissions :: "string option \<Rightarrow> 'b store_file \<Rightarrow> (string, unit) rust_result" where
  "ensure_owner_only_permissions fault f =
     and_then (guard_fault (\<lambda>e. e) fault)
       (\<lambda>_. if file_mode f AND 0x3F \<noteq> 0 then Inl ''permission store is accessible by group or other users'' else Inr ())"

definition check_entry :: "unit \<Rightarrow> string \<times> stored_grant \<Rightarrow> (store_error, unit) rust_result" where
  "check_entry _ e =
     and_then (map_err (\<lambda>_. StoreInvalidGrantId) (grant_id_from_hex (fst e)))
       (\<lambda>i. if digest_hex i \<noteq> fst e then Inl StoreInvalidGrantId
             else if sg_request_digest (snd e) \<noteq> fst e then Inl (StoreFormat ''grant key does not match request digest'')
             else Inr ())"

definition read_document :: "'b store_codec \<Rightarrow> store_faults \<Rightarrow> 'b store_file \<Rightarrow> (store_error, store_document) rust_result" where
  "read_document codec io f =
     and_then (map_err StoreWrite (ensure_owner_only_permissions (fault_metadata io) f)) (\<lambda>_.
     and_then (guard_fault StoreRead (fault_read io)) (\<lambda>_.
     and_then (map_err StoreFormat (codec_parse codec (file_bytes f))) (\<lambda>document.
     if doc_schema_version document \<noteq> schema_version then Inl (UnsupportedSchema (doc_schema_version document))
     else and_then (try_fold check_entry () (doc_grants document)) (\<lambda>_. Inr document))))"

text \<open>Writing renames a finished temporary file of mode \<open>0o600\<close> (\<open>0x180\<close>) over the store; a failure before the
  rename leaves the old file, one after it the new file.\<close>

definition write_document ::
  "'b store_codec \<Rightarrow> store_faults \<Rightarrow> store_document \<Rightarrow> 'b store_file option \<Rightarrow> 'b store_file option \<times> (store_error, unit) rust_result" where
  "write_document codec io document file =
     (case and_then (guard_fault StoreWrite (fault_prepare io)) (\<lambda>_.
             and_then (map_err StoreFormat (codec_render codec document)) (\<lambda>bytes.
             and_then (guard_fault StoreWrite (fault_write io)) (\<lambda>_. Inr bytes))) of
        Inl e \<Rightarrow> (file, Inl e)
      | Inr bytes \<Rightarrow>
          (let replaced = \<lparr>file_bytes = bytes, file_mode = 0x180\<rparr>
           in (Some replaced, map_err StoreWrite (ensure_owner_only_permissions (fault_settle io) replaced))))"

definition read_current_document ::
  "'b store_codec \<Rightarrow> store_faults \<Rightarrow> 'b store_file option \<Rightarrow> (store_error, store_document) rust_result" where
  "read_current_document codec io file =
     (case file of None \<Rightarrow> Inr empty_document
      | Some f \<Rightarrow> and_then (guard_fault (\<lambda>e. e) (fault_lock io)) (\<lambda>_. read_document codec io f))"

definition store_open ::
  "'b store_codec \<Rightarrow> store_faults \<Rightarrow> (string \<Rightarrow> 'b store_file option) \<Rightarrow> string \<Rightarrow> (store_error, string) rust_result" where
  "store_open codec io files path =
     (if \<not> is_absolute path then Inl (PathNotAbsolute path)
      else case files path of None \<Rightarrow> Inr path
           | Some f \<Rightarrow> and_then (read_document codec io f) (\<lambda>_. Inr path))"

definition stored_grant_usable ::
  "(permission_request \<Rightarrow> string) \<Rightarrow> nat \<Rightarrow> permission_request \<Rightarrow> stored_grant \<Rightarrow> permission_grant option" where
  "stored_grant_usable sha now request stored =
     (let metadata_matches = (sg_request_digest stored = request_digest sha request \<and> sg_tool_id stored = req_tool_id request
            \<and> sg_tool_version stored = req_tool_version request \<and> sg_manifest_digest stored = req_manifest_digest request
            \<and> sg_config_digest stored = req_config_digest request \<and> sg_platform stored = req_platform request
            \<and> sg_architecture stored = req_architecture request);
          grant = \<lparr>grant_request_digest = sg_request_digest stored, grant_approved = sg_approved stored,
                   grant_scope = sg_scope stored, grant_expires_at = sg_expires_at stored,
                   grant_issued_at = sg_issued_at stored\<rparr>
      in if metadata_matches \<and> sg_scope stored = ScopePersistent \<and> grant_matches sha grant request
            \<and> grant_is_valid_at grant now
         then Some grant else None)"

definition store_get ::
  "(permission_request \<Rightarrow> string) \<Rightarrow> 'b store_codec \<Rightarrow> store_faults \<Rightarrow> nat \<Rightarrow> 'b store_file option \<Rightarrow> permission_request
     \<Rightarrow> (store_error, permission_grant option) rust_result" where
  "store_get sha codec io now file request =
     and_then (read_current_document codec io file)
       (\<lambda>document. Inr (case map_of (doc_grants document) (request_digest sha request) of
           None \<Rightarrow> None | Some stored \<Rightarrow> stored_grant_usable sha now request stored))"

definition stored_from :: "permission_grant \<Rightarrow> permission_request \<Rightarrow> stored_grant" where
  "stored_from g r =
     \<lparr>sg_request_digest = grant_request_digest g, sg_tool_id = req_tool_id r, sg_tool_version = req_tool_version r,
      sg_manifest_digest = req_manifest_digest r, sg_config_digest = req_config_digest r, sg_platform = req_platform r,
      sg_architecture = req_architecture r, sg_approved = grant_approved g, sg_scope = grant_scope g,
      sg_expires_at = grant_expires_at g, sg_issued_at = grant_issued_at g\<rparr>"

definition store_put ::
  "(permission_request \<Rightarrow> string) \<Rightarrow> 'b store_codec \<Rightarrow> store_faults \<Rightarrow> 'b store_file option \<Rightarrow> permission_grant \<Rightarrow> permission_request
     \<Rightarrow> 'b store_file option \<times> (store_error, unit) rust_result" where
  "store_put sha codec io file grant request =
     (if \<not> grant_matches sha grant request then (file, Inl GrantMismatch)
      else if grant_scope grant \<noteq> ScopePersistent then (file, Inl NonPersistentGrant)
      else case and_then (guard_fault (\<lambda>e. e) (fault_lock io))
                  (\<lambda>_. case file of None \<Rightarrow> Inr empty_document | Some f \<Rightarrow> read_document codec io f) of
             Inl e \<Rightarrow> (file, Inl e)
           | Inr document \<Rightarrow>
               write_document codec io
                 (document\<lparr>doc_grants := bt_insert id (request_digest sha request) (stored_from grant request) (doc_grants document)\<rparr>)
                 file)"

definition summary_from_stored :: "grant_id \<Rightarrow> stored_grant \<Rightarrow> grant_summary" where
  "summary_from_stored i stored =
     \<lparr>sum_id = i, sum_tool_id = sg_tool_id stored, sum_tool_version = sg_tool_version stored,
      sum_platform = sg_platform stored, sum_architecture = sg_architecture stored, sum_scope = sg_scope stored,
      sum_issued_at = sg_issued_at stored, sum_expires_at = sg_expires_at stored\<rparr>"

fun page_loop ::
  "grant_id option \<Rightarrow> nat \<Rightarrow> grant_summary list \<Rightarrow> (string \<times> stored_grant) list \<Rightarrow> (store_error, grant_summary list \<times> bool) rust_result" where
  "page_loop after page_size entries [] = Inr (entries, False)"
| "page_loop after page_size entries ((key, stored) # rest) =
     and_then (map_err (\<lambda>_. StoreInvalidGrantId) (grant_id_from_hex key))
       (\<lambda>i. if (case after of None \<Rightarrow> False | Some a \<Rightarrow> i \<le> a) then page_loop after page_size entries rest
             else if length entries = page_size then Inr (entries, True)
             else page_loop after page_size (entries @ [summary_from_stored i stored]) rest)"

definition list_page ::
  "(store_document \<Rightarrow> grant_id) \<Rightarrow> 'b store_codec \<Rightarrow> store_faults \<Rightarrow> 'b store_file option \<Rightarrow> grant_page_request
     \<Rightarrow> (store_error, grant_page) rust_result" where
  "list_page doc_sha codec io file request =
     and_then (read_current_document codec io file) (\<lambda>document.
     let snapshot = doc_sha document
     in if (case pr_cursor request of None \<Rightarrow> False | Some c \<Rightarrow> cursor_snapshot c \<noteq> snapshot) then Inl ListingSnapshotExpired
        else and_then (page_loop (map_option cursor_last_id (pr_cursor request)) (pr_page_size request) [] (doc_grants document))
          (\<lambda>(entries, has_more). Inr \<lparr>page_entries = entries,
             page_next_cursor = (if has_more \<and> entries \<noteq> []
               then Some \<lparr>cursor_snapshot = snapshot, cursor_last_id = sum_id (last entries)\<rparr> else None)\<rparr>))"

definition store_revoke ::
  "'b store_codec \<Rightarrow> store_faults \<Rightarrow> 'b store_file option \<Rightarrow> grant_id \<Rightarrow> 'b store_file option \<times> (store_error, revoke_result) rust_result" where
  "store_revoke codec io file i =
     (case file of None \<Rightarrow> (file, Inr NotFound)
      | Some f \<Rightarrow>
          (case and_then (guard_fault (\<lambda>e. e) (fault_lock io)) (\<lambda>_. read_document codec io f) of
             Inl e \<Rightarrow> (file, Inl e)
           | Inr document \<Rightarrow>
               if map_of (doc_grants document) (digest_hex i) = None then (file, Inr NotFound)
               else case write_document codec io
                           (document\<lparr>doc_grants := bt_remove id (digest_hex i) (doc_grants document)\<rparr>) file of
                      (file', r) \<Rightarrow> (file', and_then r (\<lambda>_. Inr Revoked))))"

definition revoke_all ::
  "'b store_codec \<Rightarrow> store_faults \<Rightarrow> 'b store_file option \<Rightarrow> 'b store_file option \<times> (store_error, unit) rust_result" where
  "revoke_all codec io file =
     (case file of None \<Rightarrow> (file, Inr ())
      | Some f \<Rightarrow>
          (case and_then (guard_fault (\<lambda>e. e) (fault_lock io)) (\<lambda>_. read_document codec io f) of
             Inl e \<Rightarrow> (file, Inl e)
           | Inr document \<Rightarrow> write_document codec io (document\<lparr>doc_grants := []\<rparr>) file))"

section \<open>What the store relies on\<close>

definition sha256_width :: "('a \<Rightarrow> string) \<Rightarrow> bool" where
  "sha256_width sha \<longleftrightarrow> (\<forall>x. length (sha x) = 32)"

definition serde_round_trips :: "'b store_codec \<Rightarrow> bool" where
  "serde_round_trips codec \<longleftrightarrow>
     (\<forall>d. bt_sorted id (doc_grants d) \<longrightarrow> (\<exists>b. codec_render codec d = Inr b \<and> codec_parse codec b = Inr d)) \<and>
     (\<forall>b d. codec_parse codec b = Inr d \<longrightarrow> bt_sorted id (doc_grants d))"

definition quiet :: "store_faults \<Rightarrow> bool" where
  "quiet io \<longleftrightarrow> fault_lock io = None \<and> fault_metadata io = None \<and> fault_read io = None \<and> fault_prepare io = None
     \<and> fault_write io = None \<and> fault_settle io = None"

definition no_faults :: store_faults where
  "no_faults = \<lparr>fault_lock = None, fault_metadata = None, fault_read = None, fault_prepare = None,
     fault_write = None, fault_settle = None\<rparr>"

lemma quiet_no_faults [simp]: "quiet no_faults"
  by (simp add: quiet_def no_faults_def)

lemma guard_fault_simps [simp]:
  "guard_fault h None = Inr ()"
  "guard_fault h (Some e) = Inl (h e)"
  by (simp_all add: guard_fault_def)

lemma guard_fault_Inr [result_simps]: "guard_fault h fault = Inr u \<longleftrightarrow> fault = None"
  by (cases fault) auto

section \<open>Documents\<close>

definition wf_entry :: "string \<times> stored_grant \<Rightarrow> bool" where
  "wf_entry e \<longleftrightarrow> (\<exists>i. length i = 32 \<and> fst e = digest_hex i) \<and> sg_request_digest (snd e) = fst e"

definition wf_document :: "store_document \<Rightarrow> bool" where
  "wf_document d \<longleftrightarrow>
     doc_schema_version d = schema_version \<and> bt_sorted id (doc_grants d) \<and> (\<forall>e \<in> set (doc_grants d). wf_entry e)"

lemma check_entry_Inr [result_simps]: "check_entry u e = Inr v \<longleftrightarrow> wf_entry e"
proof
  assume "check_entry u e = Inr v"
  then obtain i where "grant_id_from_hex (fst e) = Inr i" "digest_hex i = fst e" "sg_request_digest (snd e) = fst e"
    by (auto simp: check_entry_def result_simps split: if_splits)
  then show "wf_entry e" unfolding wf_entry_def using grant_id_from_hex_Inr by metis
qed (auto simp: check_entry_def wf_entry_def)

lemma check_entries: "try_fold check_entry u es = Inr v \<longleftrightarrow> (\<forall>e \<in> set es. wf_entry e)"
  by (induction es arbitrary: u) (auto simp: result_simps)

lemma wf_empty_document [simp]: "wf_document empty_document"
  by (simp add: wf_document_def empty_document_def)

lemma read_document_Inr:
  assumes "serde_round_trips codec"
  shows "read_document codec io f = Inr d \<longleftrightarrow>
    fault_metadata io = None \<and> fault_read io = None \<and> file_mode f AND 0x3F = 0 \<and>
    codec_parse codec (file_bytes f) = Inr d \<and> wf_document d"
  using assms
  by (auto simp: read_document_def ensure_owner_only_permissions_def result_simps guard_eq_Inr check_entries
      wf_document_def serde_round_trips_def)

definition current_document :: "'b store_codec \<Rightarrow> 'b store_file option \<Rightarrow> (store_error, store_document) rust_result" where
  "current_document codec file = read_current_document codec no_faults file"

lemma read_current_quiet: "quiet io \<Longrightarrow> read_current_document codec io file = current_document codec file"
  by (simp add: current_document_def read_current_document_def read_document_def quiet_def no_faults_def
      ensure_owner_only_permissions_def split: option.splits)

lemma current_wf: "serde_round_trips codec \<Longrightarrow> current_document codec file = Inr d \<Longrightarrow> wf_document d"
  by (auto simp: current_document_def read_current_document_def result_simps read_document_Inr split: option.splits)

lemma owner_only_mode: "(0x180 :: 32 word) AND 0x3F = 0"
  by simp

lemma write_document_quiet:
  assumes "serde_round_trips codec" and "quiet io" and "wf_document d"
  obtains f where "write_document codec io d file = (Some f, Inr ())" and "current_document codec (Some f) = Inr d"
proof -
  from assms(1,3) obtain b where b: "codec_render codec d = Inr b" "codec_parse codec b = Inr d"
    by (auto simp: serde_round_trips_def wf_document_def)
  let ?f = "\<lparr>file_bytes = b, file_mode = 0x180\<rparr>"
  have "write_document codec io d file = (Some ?f, Inr ())"
    using assms(2) by (simp add: write_document_def b quiet_def ensure_owner_only_permissions_def)
  moreover have "current_document codec (Some ?f) = Inr d"
    using assms(3) b by (simp add: current_document_def read_current_document_def no_faults_def read_document_Inr [OF assms(1)])
  ultimately show ?thesis by (rule that)
qed

lemma write_document_atomic:
  assumes "serde_round_trips codec" and "wf_document d" and "write_document codec io d file = (file', r)"
  shows "(file' = file \<and> (\<exists>e. r = Inl e)) \<or> current_document codec file' = Inr d \<and> (r = Inr () \<or> fault_settle io \<noteq> None)"
proof -
  from assms(1,2) obtain b where b: "codec_render codec d = Inr b" "codec_parse codec b = Inr d"
    by (auto simp: serde_round_trips_def wf_document_def)
  then have "current_document codec (Some \<lparr>file_bytes = b, file_mode = 0x180\<rparr>) = Inr d"
    using assms(2) by (simp add: current_document_def read_current_document_def no_faults_def read_document_Inr [OF assms(1)])
  with assms(3) b show ?thesis
    by (cases "fault_prepare io"; cases "fault_write io"; cases "fault_settle io")
      (auto simp: write_document_def ensure_owner_only_permissions_def)
qed

section \<open>The store as a map\<close>

definition store_map :: "'b store_codec \<Rightarrow> 'b store_file option \<Rightarrow> string \<Rightarrow> stored_grant option" where
  "store_map codec file = (case current_document codec file of Inl _ \<Rightarrow> Map.empty | Inr d \<Rightarrow> map_of (doc_grants d))"

lemma wf_insert:
  assumes "wf_document d" and "wf_entry (k, v)"
  shows "wf_document (d\<lparr>doc_grants := bt_insert id k v (doc_grants d)\<rparr>)"
proof -
  have "set (bt_insert id k v m) \<subseteq> insert (k, v) (set m)" for m
    by (induction m) (auto split: if_splits)
  with assms show ?thesis by (fastforce simp: wf_document_def bt_sorted_insert)
qed

lemma wf_remove: "wf_document d \<Longrightarrow> wf_document (d\<lparr>doc_grants := bt_remove id k (doc_grants d)\<rparr>)"
  by (auto simp: wf_document_def bt_sorted_remove set_bt_remove)

lemma wf_cleared: "wf_document d \<Longrightarrow> wf_document (d\<lparr>doc_grants := []\<rparr>)"
  by (simp add: wf_document_def)

lemma wf_stored:
  "sha256_width sha \<Longrightarrow> grant_matches sha g r \<Longrightarrow> wf_entry (request_digest sha r, stored_from g r)"
  by (auto simp: wf_entry_def sha256_width_def request_digest_def grant_matches_def stored_from_def)

lemma put_reads:
  "and_then (guard_fault (\<lambda>e. e) (fault_lock io)) (\<lambda>_. case file of None \<Rightarrow> Inr empty_document | Some f \<Rightarrow> read_document codec io f) = Inr d
   \<Longrightarrow> current_document codec file = Inr d"
  by (auto simp: current_document_def read_current_document_def result_simps guard_eq_Inr no_faults_def read_document_def
      ensure_owner_only_permissions_def split: option.splits)

lemma store_put_quiet:
  assumes "serde_round_trips codec" and "sha256_width sha" and "quiet io" and "current_document codec file = Inr d"
    and "grant_matches sha g r" and "grant_scope g = ScopePersistent"
  obtains file' where "store_put sha codec io file g r = (file', Inr ())"
    and "current_document codec file' = Inr (d\<lparr>doc_grants := bt_insert id (request_digest sha r) (stored_from g r) (doc_grants d)\<rparr>)"
proof -
  let ?d = "d\<lparr>doc_grants := bt_insert id (request_digest sha r) (stored_from g r) (doc_grants d)\<rparr>"
  have "wf_document ?d" by (rule wf_insert [OF current_wf [OF assms(1,4)] wf_stored [OF assms(2,5)]])
  from write_document_quiet [OF assms(1,3) this] obtain f where f: "write_document codec io ?d file = (Some f, Inr ())"
    "current_document codec (Some f) = Inr ?d" by metis
  have "and_then (guard_fault (\<lambda>e. e) (fault_lock io))
      (\<lambda>_. case file of None \<Rightarrow> Inr empty_document | Some f \<Rightarrow> read_document codec io f) = Inr d"
    using read_current_quiet [OF assms(3), of codec "file"] assms(3,4)
    by (cases "file") (simp_all add: read_current_document_def quiet_def)
  then have "store_put sha codec io file g r = (Some f, Inr ())"
    using assms(5,6) f(1) by (simp add: store_put_def)
  then show ?thesis using f(2) by (rule that)
qed

lemma store_revoke_quiet:
  assumes "serde_round_trips codec" and "quiet io" and "current_document codec file = Inr d"
  obtains file' where "store_revoke codec io file i = (file', Inr (if map_of (doc_grants d) (digest_hex i) = None then NotFound else Revoked))"
    and "current_document codec file' = Inr (d\<lparr>doc_grants := bt_remove id (digest_hex i) (doc_grants d)\<rparr>)"
    and "map_of (doc_grants d) (digest_hex i) = None \<Longrightarrow> file' = file"
proof (cases "file")
  case None
  with assms(3) have d: "d = empty_document" by (simp add: current_document_def read_current_document_def)
  show ?thesis
    by (rule that [of None]) (simp_all add: store_revoke_def None d empty_document_def current_document_def
        read_current_document_def bt_remove_def)
next
  case (Some f)
  have rd: "and_then (guard_fault (\<lambda>e. e) (fault_lock io)) (\<lambda>_. read_document codec io f) = Inr d"
    using read_current_quiet [OF assms(2), of codec "file"] assms(3) by (simp add: Some read_current_document_def)
  show ?thesis
  proof (cases "map_of (doc_grants d) (digest_hex i)")
    case None
    have "bt_remove id (digest_hex i) (doc_grants d) = doc_grants d"
      using None unfolding bt_remove_def filter_id_conv by (force simp: map_of_eq_None_iff)
    then show ?thesis using assms(3) by (intro that [of "file"]) (simp_all add: store_revoke_def Some rd None)
  next
    case (Some v)
    let ?d = "d\<lparr>doc_grants := bt_remove id (digest_hex i) (doc_grants d)\<rparr>"
    from write_document_quiet [OF assms(1,2) wf_remove [OF current_wf [OF assms(1,3)]]]
    obtain f' where f': "write_document codec io ?d file = (Some f', Inr ())" "current_document codec (Some f') = Inr ?d" by metis
    then show ?thesis
      using Some \<open>file = Some f\<close> by (intro that [of "Some f'"]) (simp_all add: store_revoke_def rd)
  qed
qed

lemma revoke_all_quiet:
  assumes "serde_round_trips codec" and "quiet io" and "current_document codec file = Inr d"
  obtains file' where "revoke_all codec io file = (file', Inr ())" and "current_document codec file' = Inr (d\<lparr>doc_grants := []\<rparr>)"
proof (cases "file")
  case None
  with assms(3) show ?thesis
    by (intro that [of None]) (auto simp: revoke_all_def current_document_def read_current_document_def empty_document_def)
next
  case (Some f)
  have rd: "and_then (guard_fault (\<lambda>e. e) (fault_lock io)) (\<lambda>_. read_document codec io f) = Inr d"
    using read_current_quiet [OF assms(2), of codec "file"] assms(3) by (simp add: Some read_current_document_def)
  from write_document_quiet [OF assms(1,2) wf_cleared [OF current_wf [OF assms(1,3)]]]
  obtain f' where "write_document codec io (d\<lparr>doc_grants := []\<rparr>) file = (Some f', Inr ())"
    "current_document codec (Some f') = Inr (d\<lparr>doc_grants := []\<rparr>)" by metis
  then show ?thesis using Some by (intro that [of "Some f'"]) (simp_all add: revoke_all_def rd)
qed

section \<open>Pages\<close>

definition entry_id :: "string \<times> stored_grant \<Rightarrow> grant_id" where
  "entry_id e = (case grant_id_from_hex (fst e) of Inl _ \<Rightarrow> [] | Inr i \<Rightarrow> i)"

definition entry_summary :: "string \<times> stored_grant \<Rightarrow> grant_summary" where
  "entry_summary e = summary_from_stored (entry_id e) (snd e)"

definition later :: "grant_id option \<Rightarrow> (string \<times> stored_grant) list \<Rightarrow> (string \<times> stored_grant) list" where
  "later after es = filter (\<lambda>e. case after of None \<Rightarrow> True | Some a \<Rightarrow> a < entry_id e) es"

lemma wf_entry_id: "wf_entry e \<Longrightarrow> grant_id_from_hex (fst e) = Inr (entry_id e) \<and> digest_hex (entry_id e) = fst e"
  by (auto simp: wf_entry_def entry_id_def)

lemma entry_summary_id [simp]: "sum_id (entry_summary e) = entry_id e"
  by (simp add: entry_summary_def summary_from_stored_def)

lemma page_loop_step:
  assumes "wf_entry e"
  shows "page_loop after page_size entries (e # es) =
    (if (case after of None \<Rightarrow> False | Some a \<Rightarrow> entry_id e \<le> a) then page_loop after page_size entries es
     else if length entries = page_size then Inr (entries, True)
     else page_loop after page_size (entries @ [entry_summary e]) es)"
proof (cases e)
  case (Pair key stored)
  show ?thesis using wf_entry_id [OF assms] unfolding Pair by (simp add: entry_summary_def)
qed

lemma page_loop_entries:
  assumes "\<forall>e \<in> set es. wf_entry e" and "length entries \<le> page_size"
  shows "page_loop after page_size entries es =
    Inr (entries @ map entry_summary (take (page_size - length entries) (later after es)),
         page_size - length entries < length (later after es))"
  using assms
proof (induction es arbitrary: entries)
  case (Cons e es)
  from Cons.prems(1) have wf: "wf_entry e" by simp
  show ?case
  proof (cases "case after of None \<Rightarrow> False | Some a \<Rightarrow> entry_id e \<le> a")
    case True
    then have "later after (e # es) = later after es" by (auto simp: later_def split: option.splits)
    then show ?thesis using True Cons by (simp add: page_loop_step [OF wf])
  next
    case False
    then have later: "later after (e # es) = e # later after es" by (auto simp: later_def split: option.splits)
    show ?thesis
    proof (cases "length entries = page_size")
      case True
      with False show ?thesis by (simp add: later page_loop_step [OF wf])
    next
      case False': False
      with Cons.prems have "length (entries @ [entry_summary e]) \<le> page_size" by simp
      note IH = Cons.IH [OF _ this]
      have "page_loop after page_size entries (e # es) = page_loop after page_size (entries @ [entry_summary e]) es"
        using False False' by (simp add: page_loop_step [OF wf])
      also have "\<dots> = Inr (entries @ map entry_summary (take (page_size - length entries) (later after (e # es))),
          page_size - length entries < length (later after (e # es)))"
      proof -
        from False' Cons.prems have "page_size - length entries = Suc (page_size - Suc (length entries))" by simp
        then show ?thesis using IH Cons.prems by (simp add: later)
      qed
      finally show ?thesis .
    qed
  qed
qed (simp add: later_def)

lemma sorted_entry_ids:
  assumes "bt_sorted id es" and "\<forall>e \<in> set es. wf_entry e"
  shows "sorted_wrt (\<lambda>a b. entry_id a < entry_id b) es"
proof -
  from assms(1) have sorted: "sorted_wrt (\<lambda>a b. fst a < fst b) es" by (simp add: bt_sorted_def sorted_wrt_map)
  have less: "entry_id a < entry_id b" if "fst a < fst b" and "a \<in> set es" "b \<in> set es" for a b
    using assms(2) that digest_hex_less [of "entry_id a" "entry_id b"] wf_entry_id [of a] wf_entry_id [of b] by simp
  show ?thesis by (rule sorted_wrt_mono_rel [OF _ sorted]) (rule less)
qed

lemma later_after_page:
  assumes "sorted_wrt (\<lambda>a b. entry_id a < entry_id b) es" and "es = front @ e # rest"
  shows "later (Some (entry_id e)) es = rest"
proof -
  have "filter (\<lambda>x. entry_id e < entry_id x) front = []" using assms by (auto simp: sorted_wrt_append filter_empty_conv dest: less_asym)
  moreover have "filter (\<lambda>x. entry_id e < entry_id x) rest = rest" using assms by (auto simp: sorted_wrt_append)
  ultimately show ?thesis by (simp add: later_def assms(2))
qed

text \<open>A client that asks for pages until there is no next cursor.\<close>

fun list_pages ::
  "nat \<Rightarrow> (store_document \<Rightarrow> grant_id) \<Rightarrow> 'b store_codec \<Rightarrow> store_faults \<Rightarrow> 'b store_file option \<Rightarrow> nat \<Rightarrow> grant_page_cursor option
     \<Rightarrow> (store_error, grant_page list) rust_result option" where
  "list_pages 0 doc_sha codec io file page_size cursor = None"
| "list_pages (Suc fuel) doc_sha codec io file page_size cursor =
     (case list_page doc_sha codec io file \<lparr>pr_page_size = page_size, pr_cursor = cursor\<rparr> of
        Inl e \<Rightarrow> Some (Inl e)
      | Inr page \<Rightarrow>
          (case page_next_cursor page of
             None \<Rightarrow> Some (Inr [page])
           | Some next \<Rightarrow> map_option (\<lambda>r. and_then r (\<lambda>pages. Inr (page # pages)))
                 (list_pages fuel doc_sha codec io file page_size (Some next))))"

lemma list_page_quiet:
  assumes "serde_round_trips codec" and "quiet io" and "current_document codec file = Inr d"
    and "case cursor of None \<Rightarrow> True | Some c \<Rightarrow> cursor_snapshot c = doc_sha d"
  shows "list_page doc_sha codec io file \<lparr>pr_page_size = n, pr_cursor = cursor\<rparr> =
    (let rest = later (map_option cursor_last_id cursor) (doc_grants d); entries = take n rest
     in Inr \<lparr>page_entries = map entry_summary entries,
             page_next_cursor = (if n < length rest \<and> entries \<noteq> []
               then Some \<lparr>cursor_snapshot = doc_sha d, cursor_last_id = entry_id (last entries)\<rparr> else None)\<rparr>)"
proof -
  have "\<forall>e \<in> set (doc_grants d). wf_entry e" using current_wf [OF assms(1,3)] by (simp add: wf_document_def)
  note loop = page_loop_entries [OF this, of "[]" n]
  show ?thesis
    using assms(3,4) loop read_current_quiet [OF assms(2), of codec "file"]
    by (auto simp: list_page_def Let_def last_map split: option.splits)
qed

lemma list_pages_complete:
  assumes "serde_round_trips codec" and "quiet io" and "current_document codec file = Inr d" and "0 < n"
    and "case cursor of None \<Rightarrow> True | Some c \<Rightarrow> cursor_snapshot c = doc_sha d"
    and "doc_grants d = front @ later (map_option cursor_last_id cursor) (doc_grants d)"
    and "length (later (map_option cursor_last_id cursor) (doc_grants d)) < fuel"
  shows "\<exists>pages. list_pages fuel doc_sha codec io file n cursor = Some (Inr pages) \<and>
    concat (map page_entries pages) = map entry_summary (later (map_option cursor_last_id cursor) (doc_grants d)) \<and>
    (\<forall>page \<in> set pages. length (page_entries page) \<le> n)"
  using assms(5-)
proof (induction fuel arbitrary: cursor front)
  case (Suc fuel)
  let ?rest = "later (map_option cursor_last_id cursor) (doc_grants d)"
  note page = list_page_quiet [where doc_sha = doc_sha and n = n, OF assms(1,2,3) Suc.prems(1), unfolded Let_def]
  show ?case
  proof (cases "n < length ?rest")
    case False
    then show ?thesis by (auto simp: page)
  next
    case True
    with assms(4) have ne: "take n ?rest \<noteq> []" by auto
    let ?e = "last (take n ?rest)"
    let ?c = "\<lparr>cursor_snapshot = doc_sha d, cursor_last_id = entry_id ?e\<rparr>"
    have split: "doc_grants d = (front @ butlast (take n ?rest)) @ ?e # drop n ?rest"
      using Suc.prems(2) ne append_take_drop_id [of n ?rest] by (metis append.assoc append_Cons append_Nil append_butlast_last_id)
    have "sorted_wrt (\<lambda>a b. entry_id a < entry_id b) (doc_grants d)"
      using current_wf [OF assms(1,3)] sorted_entry_ids by (auto simp: wf_document_def)
    then have next_rest: "later (map_option cursor_last_id (Some ?c)) (doc_grants d) = drop n ?rest"
      using later_after_page [OF _ split] by simp
    have "doc_grants d = (front @ take n ?rest) @ later (map_option cursor_last_id (Some ?c)) (doc_grants d)"
      unfolding next_rest using Suc.prems(2) by simp
    moreover have "length (later (map_option cursor_last_id (Some ?c)) (doc_grants d)) < fuel"
      unfolding next_rest using Suc.prems(3) True assms(4) by simp
    ultimately obtain pages where pages: "list_pages fuel doc_sha codec io file n (Some ?c) = Some (Inr pages)"
      "concat (map page_entries pages) = map entry_summary (drop n ?rest)" "\<forall>page \<in> set pages. length (page_entries page) \<le> n"
      using Suc.IH [of "Some ?c" "front @ take n ?rest"] unfolding next_rest by auto
    let ?page = "\<lparr>page_entries = map entry_summary (take n ?rest), page_next_cursor = Some ?c\<rparr>"
    have "list_pages (Suc fuel) doc_sha codec io file n cursor = Some (Inr (?page # pages))"
      using True ne by (simp add: page pages(1))
    moreover have "concat (map page_entries (?page # pages)) = map entry_summary ?rest"
      using pages(2) by (simp flip: map_append)
    ultimately show ?thesis using pages(3) by fastforce
  qed
qed simp

section \<open>Properties\<close>

lemma example_sha_width: "sha256_width example_sha"
  by (simp add: sha256_width_def example_sha_def)

text \<open>An example codec: the identity on sorted documents.\<close>

definition example_codec :: "store_document store_codec" where
  "example_codec =
     \<lparr>codec_parse = (\<lambda>d. if bt_sorted id (doc_grants d) then Inr d else Inl ''unsorted''), codec_render = Inr\<rparr>"

lemma example_codec_round_trips: "serde_round_trips example_codec"
  by (auto simp: serde_round_trips_def example_codec_def split: if_splits)

text \<open>C13: A stored grant is only ever handed out for the request it was approved for. Whatever the store file holds and
  whatever fails, a grant returned by a lookup is persistent, not expired, carries the digest of the request,
  approves no more than the request asks for, and was stored for the same tool, version, digests, platform and
  architecture.\<close>

theorem store_get_is_safe:
  assumes "store_get sha codec io now file request = Inr (Some g)"
  shows "grant_scope g = ScopePersistent \<and> grant_matches sha g request \<and> grant_is_valid_at g now \<and>
     (\<exists>d stored. read_current_document codec io file = Inr d \<and>
        map_of (doc_grants d) (request_digest sha request) = Some stored \<and> stored = stored_from g request)"
proof -
  from assms obtain d stored where d: "read_current_document codec io file = Inr d"
    "map_of (doc_grants d) (request_digest sha request) = Some stored" "stored_grant_usable sha now request stored = Some g"
    by (auto simp: store_get_def result_simps split: option.splits)
  moreover from d(3) have "grant_scope g = ScopePersistent \<and> grant_matches sha g request \<and> grant_is_valid_at g now \<and>
      stored = stored_from g request"
    by (cases stored) (auto simp: stored_grant_usable_def Let_def stored_from_def split: if_splits)
  ultimately show ?thesis by blast
qed

definition example_grant :: permission_grant where
  "example_grant = \<lparr>grant_request_digest = request_digest example_sha example_base, grant_approved = permission_set_new,
     grant_scope = ScopePersistent, grant_expires_at = Some 9, grant_issued_at = 5\<rparr>"

lemma example_grant_matches: "grant_matches example_sha example_grant example_base"
  by (simp add: grant_matches_def example_grant_def example_base_def)

theorem store_get_is_safe_witness:
  "store_get example_sha example_codec no_faults 7
     (fst (store_put example_sha example_codec no_faults None example_grant example_base)) example_base = Inr (Some example_grant)
   \<and> grant_is_valid_at example_grant 7"
proof -
  have get: "store_get example_sha example_codec no_faults 7
     (fst (store_put example_sha example_codec no_faults None example_grant example_base)) example_base = Inr (Some example_grant)"
    by code_simp
  from store_get_is_safe [OF this] get show ?thesis by blast
qed





text \<open>C38: Listing terminates and is complete. On a readable store that does not change, asking for pages of any
  positive size and following the returned cursors ends after at most one request per grant and one more, every page is
  within its size, and the pages together are the summaries of all grants, each once and in the order of their identities.\<close>

theorem listing_is_complete:
  assumes "serde_round_trips codec" and "quiet io" and "current_document codec file = Inr d"
    and "page_request_new n None = Inr request"
  shows "\<exists>pages. list_pages (Suc (length (doc_grants d))) doc_sha codec io file (pr_page_size request) (pr_cursor request) = Some (Inr pages) \<and>
     (\<forall>page \<in> set pages. length (page_entries page) \<le> min n max_page_size) \<and>
     map (\<lambda>s. (digest_hex (sum_id s), sum_tool_id s)) (concat (map page_entries pages)) =
       map (\<lambda>(k, v). (k, sg_tool_id v)) (doc_grants d) \<and>
     sorted_wrt (<) (map sum_id (concat (map page_entries pages)))"
proof -
  from assms(4) have n: "0 < n" "n \<le> max_page_size" "pr_page_size request = n" "pr_cursor request = None"
    by (auto simp: page_request_new_def split: if_splits)
  have all: "later None (doc_grants d) = doc_grants d" by (simp add: later_def)
  have wf: "\<forall>e \<in> set (doc_grants d). wf_entry e" "bt_sorted id (doc_grants d)"
    using current_wf [OF assms(1,3)] by (auto simp: wf_document_def)
  obtain pages where pages: "list_pages (Suc (length (doc_grants d))) doc_sha codec io file n None = Some (Inr pages)"
    "concat (map page_entries pages) = map entry_summary (doc_grants d)" "\<forall>page \<in> set pages. length (page_entries page) \<le> n"
    using list_pages_complete [where cursor = None and front = "[]" and fuel = "Suc (length (doc_grants d))" and doc_sha = doc_sha,
        OF assms(1,2,3) n(1)] by (auto simp: all)
  have "map (\<lambda>s. (digest_hex (sum_id s), sum_tool_id s)) (concat (map page_entries pages)) =
      map (\<lambda>(k, v). (k, sg_tool_id v)) (doc_grants d)"
    unfolding pages(2) using wf(1) wf_entry_id by (auto simp: entry_summary_def summary_from_stored_def)
  moreover have "sorted_wrt (<) (map sum_id (concat (map page_entries pages)))"
    using sorted_entry_ids [OF wf(2,1)] by (simp add: pages(2) sorted_wrt_map comp_def)
  ultimately show ?thesis using pages(1,3) n by fastforce
qed

theorem listing_is_complete_witness:
  "\<exists>pages. list_pages 1 (\<lambda>_. replicate 32 (CHR ''b'')) example_codec no_faults None 10 None = Some (Inr pages) \<and>
     concat (map page_entries pages) = []"
proof -
  have cur: "current_document example_codec None = Inr empty_document"
    by (simp add: current_document_def read_current_document_def)
  have "page_request_new 10 None = Inr \<lparr>pr_page_size = 10, pr_cursor = None\<rparr>"
    by (simp add: page_request_new_def max_page_size_def)
  from listing_is_complete [OF example_codec_round_trips quiet_no_faults cur this, of "\<lambda>_. replicate 32 (CHR ''b'')"]
  show ?thesis by (auto simp: empty_document_def)
qed

text \<open>Identities and cursors survive their text form. Printing a 32-byte identity and parsing it gives it back, the
  printed order is the order of the identities, parsing accepts either case but printing is canonical, and a cursor is
  recovered from its token.\<close>

theorem identity_text_round_trip:
  assumes "length a = 32" and "length b = 32"
  shows "grant_id_from_hex (digest_hex a) = Inr a \<and> (digest_hex a < digest_hex b \<longleftrightarrow> a < b) \<and>
     (grant_id_from_hex s = Inr a \<longrightarrow> digest_hex a = ascii_lower s) \<and>
     cursor_from_token (cursor_to_token \<lparr>cursor_snapshot = a, cursor_last_id = b\<rparr>) = Inr \<lparr>cursor_snapshot = a, cursor_last_id = b\<rparr>"
proof -
  have nodot: "CHR ''.'' \<notin> set (digest_hex x)" for x
  proof -
    have "list_all (\<lambda>n. hex_digit n \<noteq> CHR ''.'') [0..<16]" by code_simp
    then have "hex_digit n \<noteq> CHR ''.''" if "n < 16" for n using that by (simp add: list_all_iff)
    then show ?thesis by (induction x) (auto simp: digest_hex_Cons nibble_bounds dest: sym)
  qed
  have "split_on (CHR ''.'') (cursor_to_token \<lparr>cursor_snapshot = a, cursor_last_id = b\<rparr>) = [''v1'', digest_hex a, digest_hex b]"
    using split_on_append_no_sep [of "CHR ''.''" "''v1''" "digest_hex a @ ''.'' @ digest_hex b"]
      split_on_append_no_sep [OF nodot, of a "digest_hex b"] split_on_no_sep [OF nodot]
    by (simp add: cursor_to_token_def)
  then have "cursor_from_token (cursor_to_token \<lparr>cursor_snapshot = a, cursor_last_id = b\<rparr>) = Inr \<lparr>cursor_snapshot = a, cursor_last_id = b\<rparr>"
    using assms by (simp add: cursor_from_token_def)
  then show ?thesis using assms digest_hex_less grant_id_from_hex_Inr by auto
qed

theorem identity_text_round_trip_witness:
  "grant_id_from_hex (digest_hex (replicate 32 (CHR 0xAB))) = Inr (replicate 32 (CHR 0xAB))"
  using identity_text_round_trip [of "replicate 32 (CHR 0xAB)" "replicate 32 (CHR 0xAB)"] by simp

end
