(* ===== verification/Config_Model.thy ===== *)
theory Config_Model
  imports Sandbox_Policy Environment Command Permissions
begin

text \<open>
  The configuration document (\<open>cageforge-config/src/model.rs\<close>) and the merge of profiles from parents to children
  (\<open>merge.rs\<close>). The enumerations of the document have the constructors of the policy and command types they are converted
  to, so those types are used for them; \<open>BTreeMap\<close>s are sorted association lists. The Unicode tables \<open>U\<close>, the
  glob compiler \<open>build\<close> and the wildcard matcher \<open>wild\<close> are arguments. Every keyed list of the document is merged by
  the same loop: an entry whose key is known replaces the entry at its position, another is appended.
\<close>

section \<open>The document (model.rs)\<close>

datatype raw_filesystem_target =
    TargetAbsolute | TargetWorkspace | TargetWorkspaceRoot | TargetRoot | TargetMinimal | TargetTmpdir | TargetSlashTmp
  | TargetAbsoluteGlob | TargetWorkspaceGlob

datatype raw_timeout_mode = RawBackendDefault | RawLimit | RawDisabled

datatype raw_relay_byte_limit = RelayBytes nat | RelayUnlimited

record raw_selector =
  rsel_target :: raw_filesystem_target
  rsel_path :: "string option"

record raw_filesystem_rule =
  rfr_target :: raw_filesystem_target
  rfr_path :: "string option"
  rfr_pattern :: "string option"
  rfr_access :: access_mode
  rfr_missing_path :: "missing_path_behavior option"
  rfr_read_only_subpaths :: "raw_selector list"

record raw_filesystem =
  rfs_mode :: "filesystem_mode option"
  rfs_glob_scan_max_depth :: "nat option"
  rfs_additional_protected_paths :: "string list"
  rfs_security :: "bool option option"
  rfs_rules :: "raw_filesystem_rule list"

record raw_domain_rule =
  rdr_pattern :: string
  rdr_access :: domain_access

record raw_unix_socket_rule =
  rur_path :: string
  rur_access :: domain_access

record raw_gateway_config =
  rgw_handshake_timeout_ms :: "nat option"
  rgw_dns_timeout_ms :: "nat option"
  rgw_connect_timeout_ms :: "nat option"
  rgw_response_header_timeout_ms :: "nat option"
  rgw_relay_idle_timeout_ms :: "nat option"
  rgw_max_concurrent_connections :: "nat option"
  rgw_max_requests_per_connection :: "nat option"
  rgw_max_resolved_addresses :: "nat option"
  rgw_http_header_bytes :: "nat option"
  rgw_relay_byte_limit :: "raw_relay_byte_limit option"

record raw_network =
  rnet_mode :: "network_mode option"
  rnet_domain_mode :: "domain_mode option"
  rnet_unix_socket_mode :: "unix_socket_mode option"
  rnet_local_network_access :: "local_network_access option"
  rnet_gateway :: "raw_gateway_config option"
  rnet_domains :: "raw_domain_rule list"
  rnet_unix_sockets :: "raw_unix_socket_rule list"

record raw_local_ipc =
  ripc_unix_sockets :: "string list"
  ripc_named_pipes :: "string list"

record raw_environment =
  renv_inherit :: "environment_base option"
  renv_filters :: "(string \<times> environment_filter_action) list"
  renv_set :: "(string \<times> string) list"
  renv_remove :: "string list"

record raw_stdio =
  rio_stdin :: "stdio_mode option"
  rio_stdout :: "stdio_mode option"
  rio_stderr :: "stdio_mode option"

record raw_timeout =
  rto_mode :: "raw_timeout_mode option"
  rto_milliseconds :: "nat option"

record raw_command =
  rcmd_program :: "string option"
  rcmd_args :: "string list option"
  rcmd_working_directory :: "string option"
  rcmd_environment :: "raw_environment option"
  rcmd_stdio :: "raw_stdio option"
  rcmd_timeout :: "raw_timeout option"

record raw_approval =
  rapp_mode :: "permission_mode option"
  rapp_timeout_ms :: "nat option"
  rapp_on_timeout :: "approval_timeout_action option"
  rapp_persistence :: "approval_persistence option"

record raw_runtime =
  rrun_executable_roots :: "string list"

text \<open>An overlay has the sections of a profile; a profile also has parents and overlays.\<close>

record raw_platform_profile =
  rpp_description :: "string option"
  rpp_workspace_roots :: "(string \<times> bool) list"
  rpp_filesystem :: "raw_filesystem option"
  rpp_network :: "raw_network option"
  rpp_local_ipc :: "raw_local_ipc option"
  rpp_command :: "raw_command option"
  rpp_approval :: "raw_approval option"
  rpp_runtime :: "raw_runtime option"

record raw_profile = raw_platform_profile +
  rp_inherits :: "string list"
  rp_platforms :: "(platform_id \<times> raw_platform_profile) list"

record raw_config =
  rc_default_profile :: "string option"
  rc_profiles :: "(string \<times> raw_profile) list"

section \<open>Identities of entries (merge.rs)\<close>

datatype selector_key = ValidSelector "nat \<times> native_component_key list option" | PlatformSelector platform_path_key | MissingSelector

datatype glob_key = ValidGlob platform_path_key | RawGlob platform_path_key | MissingGlob

datatype filesystem_rule_key =
    SelectorRule raw_filesystem_target selector_key
  | GlobRule raw_filesystem_target glob_key

datatype environment_filter_key = ValidFilter folded_text | InvalidFilter string

text \<open>A key holds what equality and hashing of a selector read of it: its variant and the components of its path.\<close>

definition config_selector_key ::
  "unicode_data \<Rightarrow> string option \<Rightarrow> (string \<Rightarrow> (policy_error, path_selector) rust_result) \<Rightarrow> path_dialect \<Rightarrow> selector_key" where
  "config_selector_key U path constructor dialect =
     (case path of
        None \<Rightarrow> MissingSelector
      | Some p \<Rightarrow>
          (case constructor p of
             Inl _ \<Rightarrow> PlatformSelector (platform_path_key_new U p dialect)
           | Inr s \<Rightarrow> ValidSelector (selector_hash s)))"

definition config_glob_key ::
  "unicode_data \<Rightarrow> string option \<Rightarrow> (string \<Rightarrow> (policy_error, path_pattern) rust_result) \<Rightarrow> path_dialect \<Rightarrow> glob_key" where
  "config_glob_key U pattern constructor dialect =
     (case pattern of
        None \<Rightarrow> MissingGlob
      | Some p \<Rightarrow>
          (case constructor p of
             Inl _ \<Rightarrow> RawGlob (platform_path_key_new U p dialect)
           | Inr _ \<Rightarrow> ValidGlob (platform_path_key_new U p dialect)))"

definition config_rule_key :: "unicode_data \<Rightarrow> glob_builder \<Rightarrow> path_dialect \<Rightarrow> raw_filesystem_rule \<Rightarrow> filesystem_rule_key" where
  "config_rule_key U build dialect rule =
     (case rfr_target rule of
        TargetAbsolute \<Rightarrow> SelectorRule TargetAbsolute (config_selector_key U (rfr_path rule) selector_absolute dialect)
      | TargetWorkspace \<Rightarrow> SelectorRule TargetWorkspace (config_selector_key U (rfr_path rule) selector_workspace dialect)
      | TargetAbsoluteGlob \<Rightarrow> GlobRule TargetAbsoluteGlob (config_glob_key U (rfr_pattern rule) (pattern_absolute build) dialect)
      | TargetWorkspaceGlob \<Rightarrow> GlobRule TargetWorkspaceGlob (config_glob_key U (rfr_pattern rule) (pattern_workspace build) dialect)
      | target \<Rightarrow> SelectorRule target MissingSelector)"

definition config_domain_key :: "glob_builder \<Rightarrow> string \<Rightarrow> string" where
  "config_domain_key build pattern =
     (case domain_rule_new build pattern DomAllow of
        Inl _ \<Rightarrow> ascii_lower (trim_end_matches CHR ''.'' (str_trim pattern))
      | Inr rule \<Rightarrow> dom_pattern rule)"

definition config_filter_key :: "unicode_data \<Rightarrow> wild_matcher \<Rightarrow> string \<Rightarrow> environment_filter_key" where
  "config_filter_key U wild pattern =
     (case env_pattern_new U wild pattern of
        Inl _ \<Rightarrow> InvalidFilter (str_to_lowercase U pattern)
      | Inr p \<Rightarrow> ValidFilter (pat_canonical p))"

section \<open>The merger (merge.rs)\<close>

record merged_profile =
  mp_description :: "string option"
  mp_workspace_roots :: "(string \<times> bool) list"
  mp_filesystem :: "raw_filesystem option"
  mp_network :: "raw_network option"
  mp_local_ipc :: "raw_local_ipc option"
  mp_command :: "raw_command option"
  mp_approval :: "raw_approval option"
  mp_runtime :: "raw_runtime option"

record profile_merger =
  pm_dialect :: path_dialect
  pm_merged :: merged_profile
  pm_workspace_roots :: "platform_path_key \<rightharpoonup> string"
  pm_protected_paths :: "platform_path_key set"
  pm_filesystem_rules :: "filesystem_rule_key \<rightharpoonup> nat"
  pm_domain_rules :: "string \<rightharpoonup> nat"
  pm_unix_sockets :: "platform_path_key \<rightharpoonup> nat"
  pm_local_ipc_unix_sockets :: "platform_path_key \<rightharpoonup> nat"
  pm_local_ipc_named_pipes :: "string \<rightharpoonup> nat"
  pm_executable_roots :: "platform_path_key \<rightharpoonup> nat"
  pm_environment_filters :: "environment_filter_key \<rightharpoonup> string"
  pm_environment_overrides :: "(environment_name_key \<times> string \<times> string option) list"

definition merged_default :: merged_profile where
  "merged_default =
     \<lparr>mp_description = None, mp_workspace_roots = [], mp_filesystem = None, mp_network = None, mp_local_ipc = None,
      mp_command = None, mp_approval = None, mp_runtime = None\<rparr>"

definition merger_new :: "path_dialect \<Rightarrow> profile_merger" where
  "merger_new dialect =
     \<lparr>pm_dialect = dialect, pm_merged = merged_default, pm_workspace_roots = (\<lambda>_. None), pm_protected_paths = {},
      pm_filesystem_rules = (\<lambda>_. None), pm_domain_rules = (\<lambda>_. None), pm_unix_sockets = (\<lambda>_. None),
      pm_local_ipc_unix_sockets = (\<lambda>_. None), pm_local_ipc_named_pipes = (\<lambda>_. None), pm_executable_roots = (\<lambda>_. None),
      pm_environment_filters = (\<lambda>_. None), pm_environment_overrides = []\<rparr>"

definition raw_filesystem_default :: raw_filesystem where
  "raw_filesystem_default =
     \<lparr>rfs_mode = None, rfs_glob_scan_max_depth = None, rfs_additional_protected_paths = [], rfs_security = None, rfs_rules = []\<rparr>"

definition raw_network_default :: raw_network where
  "raw_network_default =
     \<lparr>rnet_mode = None, rnet_domain_mode = None, rnet_unix_socket_mode = None, rnet_local_network_access = None,
      rnet_gateway = None, rnet_domains = [], rnet_unix_sockets = []\<rparr>"

definition raw_local_ipc_default :: raw_local_ipc where
  "raw_local_ipc_default = \<lparr>ripc_unix_sockets = [], ripc_named_pipes = []\<rparr>"

definition raw_gateway_default :: raw_gateway_config where
  "raw_gateway_default =
     \<lparr>rgw_handshake_timeout_ms = None, rgw_dns_timeout_ms = None, rgw_connect_timeout_ms = None,
      rgw_response_header_timeout_ms = None, rgw_relay_idle_timeout_ms = None, rgw_max_concurrent_connections = None,
      rgw_max_requests_per_connection = None, rgw_max_resolved_addresses = None, rgw_http_header_bytes = None,
      rgw_relay_byte_limit = None\<rparr>"

definition raw_environment_default :: raw_environment where
  "raw_environment_default = \<lparr>renv_inherit = None, renv_filters = [], renv_set = [], renv_remove = []\<rparr>"

definition raw_command_default :: raw_command where
  "raw_command_default =
     \<lparr>rcmd_program = None, rcmd_args = None, rcmd_working_directory = None, rcmd_environment = None,
      rcmd_stdio = None, rcmd_timeout = None\<rparr>"

definition raw_approval_default :: raw_approval where
  "raw_approval_default = \<lparr>rapp_mode = None, rapp_timeout_ms = None, rapp_on_timeout = None, rapp_persistence = None\<rparr>"

definition get_or :: "'a \<Rightarrow> 'a option \<Rightarrow> 'a" where
  "get_or d x = (case x of None \<Rightarrow> d | Some v \<Rightarrow> v)"

definition present :: "'a option \<Rightarrow> 'a option \<Rightarrow> 'a option" where
  "present child parent = (if child \<noteq> None then child else parent)"

definition upsert :: "('r \<Rightarrow> 'k) \<Rightarrow> 'r list \<times> ('k \<rightharpoonup> nat) \<Rightarrow> 'r list \<Rightarrow> 'r list \<times> ('k \<rightharpoonup> nat)" where
  "upsert key = foldl (collapse_step key (\<lambda>_ new. new))"

definition merge_runtime :: "unicode_data \<Rightarrow> profile_merger \<Rightarrow> raw_runtime \<Rightarrow> profile_merger" where
  "merge_runtime U m child =
     (let merged = get_or \<lparr>rrun_executable_roots = []\<rparr> (mp_runtime (pm_merged m))
      in case upsert (\<lambda>path. platform_path_key_new U path (pm_dialect m))
                (rrun_executable_roots merged, pm_executable_roots m) (rrun_executable_roots child) of
           (roots, positions) \<Rightarrow>
             m\<lparr>pm_merged := (pm_merged m)\<lparr>mp_runtime := Some \<lparr>rrun_executable_roots = roots\<rparr>\<rparr>, pm_executable_roots := positions\<rparr>)"

definition merge_approval :: "profile_merger \<Rightarrow> raw_approval \<Rightarrow> profile_merger" where
  "merge_approval m child =
     (let merged = get_or raw_approval_default (mp_approval (pm_merged m))
      in m\<lparr>pm_merged := (pm_merged m)\<lparr>mp_approval := Some
           \<lparr>rapp_mode = present (rapp_mode child) (rapp_mode merged),
            rapp_timeout_ms = present (rapp_timeout_ms child) (rapp_timeout_ms merged),
            rapp_on_timeout = present (rapp_on_timeout child) (rapp_on_timeout merged),
            rapp_persistence = present (rapp_persistence child) (rapp_persistence merged)\<rparr>\<rparr>\<rparr>)"

definition merge_local_ipc :: "unicode_data \<Rightarrow> profile_merger \<Rightarrow> raw_local_ipc \<Rightarrow> profile_merger" where
  "merge_local_ipc U m child =
     (let merged = get_or raw_local_ipc_default (mp_local_ipc (pm_merged m))
      in case upsert (\<lambda>path. platform_path_key_new U path (pm_dialect m))
                (ripc_unix_sockets merged, pm_local_ipc_unix_sockets m) (ripc_unix_sockets child) of
           (sockets, socket_positions) \<Rightarrow>
             (case upsert ascii_lower (ripc_named_pipes merged, pm_local_ipc_named_pipes m) (ripc_named_pipes child) of
                (pipes, pipe_positions) \<Rightarrow>
                  m\<lparr>pm_merged := (pm_merged m)\<lparr>mp_local_ipc := Some \<lparr>ripc_unix_sockets = sockets, ripc_named_pipes = pipes\<rparr>\<rparr>,
                    pm_local_ipc_unix_sockets := socket_positions, pm_local_ipc_named_pipes := pipe_positions\<rparr>))"

definition merge_workspace_root :: "unicode_data \<Rightarrow> profile_merger \<Rightarrow> string \<times> bool \<Rightarrow> profile_merger" where
  "merge_workspace_root U m entry =
     (case entry of (path, enabled) \<Rightarrow>
        (let key = platform_path_key_new U path (pm_dialect m);
             roots = (case pm_workspace_roots m key of
                        None \<Rightarrow> mp_workspace_roots (pm_merged m)
                      | Some existing \<Rightarrow> bt_remove id existing (mp_workspace_roots (pm_merged m)))
         in m\<lparr>pm_workspace_roots := (pm_workspace_roots m)(key \<mapsto> path),
              pm_merged := (pm_merged m)\<lparr>mp_workspace_roots := bt_insert id path enabled roots\<rparr>\<rparr>))"

definition merge_workspace_roots :: "unicode_data \<Rightarrow> profile_merger \<Rightarrow> (string \<times> bool) list \<Rightarrow> profile_merger" where
  "merge_workspace_roots U = foldl (merge_workspace_root U)"

definition merge_security :: "bool option option \<Rightarrow> bool option option \<Rightarrow> bool option option" where
  "merge_security parent child =
     (case child of None \<Rightarrow> parent | Some git \<Rightarrow> Some (present git (get_or None parent)))"

definition merge_filesystem :: "unicode_data \<Rightarrow> glob_builder \<Rightarrow> profile_merger \<Rightarrow> raw_filesystem \<Rightarrow> profile_merger" where
  "merge_filesystem U build m child =
     (let merged = get_or raw_filesystem_default (mp_filesystem (pm_merged m));
          clears = (rfs_mode child \<noteq> None \<and> rfs_mode child \<noteq> Some FsRestricted);
          merged = (if clears
                    then merged\<lparr>rfs_rules := [], rfs_additional_protected_paths := [], rfs_glob_scan_max_depth := None, rfs_security := None\<rparr>
                    else merged);
          rule_positions = (if clears then (\<lambda>_. None) else pm_filesystem_rules m);
          protected_keys = (if clears then {} else pm_protected_paths m);
          protected = foldl (push_unique (\<lambda>path. platform_path_key_new U path (pm_dialect m)))
                        (protected_keys, rfs_additional_protected_paths merged) (rfs_additional_protected_paths child)
      in case upsert (config_rule_key U build (pm_dialect m)) (rfs_rules merged, rule_positions) (rfs_rules child) of
           (rules, rule_positions) \<Rightarrow>
             m\<lparr>pm_merged := (pm_merged m)\<lparr>mp_filesystem := Some
                 \<lparr>rfs_mode = present (rfs_mode child) (rfs_mode merged),
                  rfs_glob_scan_max_depth = present (rfs_glob_scan_max_depth child) (rfs_glob_scan_max_depth merged),
                  rfs_additional_protected_paths = snd protected,
                  rfs_security = merge_security (rfs_security merged) (rfs_security child),
                  rfs_rules = rules\<rparr>\<rparr>,
               pm_protected_paths := fst protected, pm_filesystem_rules := rule_positions\<rparr>)"

definition merge_gateway :: "raw_gateway_config option \<Rightarrow> raw_gateway_config \<Rightarrow> raw_gateway_config" where
  "merge_gateway parent child =
     (let merged = get_or raw_gateway_default parent
      in \<lparr>rgw_handshake_timeout_ms = present (rgw_handshake_timeout_ms child) (rgw_handshake_timeout_ms merged),
          rgw_dns_timeout_ms = present (rgw_dns_timeout_ms child) (rgw_dns_timeout_ms merged),
          rgw_connect_timeout_ms = present (rgw_connect_timeout_ms child) (rgw_connect_timeout_ms merged),
          rgw_response_header_timeout_ms = present (rgw_response_header_timeout_ms child) (rgw_response_header_timeout_ms merged),
          rgw_relay_idle_timeout_ms = present (rgw_relay_idle_timeout_ms child) (rgw_relay_idle_timeout_ms merged),
          rgw_max_concurrent_connections = present (rgw_max_concurrent_connections child) (rgw_max_concurrent_connections merged),
          rgw_max_requests_per_connection = present (rgw_max_requests_per_connection child) (rgw_max_requests_per_connection merged),
          rgw_max_resolved_addresses = present (rgw_max_resolved_addresses child) (rgw_max_resolved_addresses merged),
          rgw_http_header_bytes = present (rgw_http_header_bytes child) (rgw_http_header_bytes merged),
          rgw_relay_byte_limit = present (rgw_relay_byte_limit child) (rgw_relay_byte_limit merged)\<rparr>)"

text \<open>An external network clears what was inherited of it, the local IPC section included.\<close>

definition clear_network :: "profile_merger \<Rightarrow> profile_merger" where
  "clear_network m =
     m\<lparr>pm_merged := (pm_merged m)\<lparr>mp_local_ipc := None\<rparr>, pm_domain_rules := (\<lambda>_. None), pm_unix_sockets := (\<lambda>_. None),
       pm_local_ipc_unix_sockets := (\<lambda>_. None), pm_local_ipc_named_pipes := (\<lambda>_. None)\<rparr>"

definition merge_network :: "unicode_data \<Rightarrow> glob_builder \<Rightarrow> profile_merger \<Rightarrow> raw_network \<Rightarrow> profile_merger" where
  "merge_network U build m child =
     (let merged = get_or raw_network_default (mp_network (pm_merged m));
          external = (rnet_mode child = Some NetExternal);
          merged = (if external
                    then merged\<lparr>rnet_domain_mode := None, rnet_unix_socket_mode := None, rnet_local_network_access := None,
                                rnet_domains := [], rnet_unix_sockets := []\<rparr>
                    else merged);
          m = (if external then clear_network m else m)
      in case upsert (\<lambda>r. config_domain_key build (rdr_pattern r)) (rnet_domains merged, pm_domain_rules m) (rnet_domains child) of
           (domains, domain_positions) \<Rightarrow>
             (case upsert (\<lambda>r. platform_path_key_new U (rur_path r) (pm_dialect m))
                     (rnet_unix_sockets merged, pm_unix_sockets m) (rnet_unix_sockets child) of
                (sockets, socket_positions) \<Rightarrow>
                  m\<lparr>pm_merged := (pm_merged m)\<lparr>mp_network := Some
                      \<lparr>rnet_mode = present (rnet_mode child) (rnet_mode merged),
                       rnet_domain_mode = present (rnet_domain_mode child) (rnet_domain_mode merged),
                       rnet_unix_socket_mode = present (rnet_unix_socket_mode child) (rnet_unix_socket_mode merged),
                       rnet_local_network_access = present (rnet_local_network_access child) (rnet_local_network_access merged),
                       rnet_gateway = (case rnet_gateway child of None \<Rightarrow> rnet_gateway merged
                                       | Some g \<Rightarrow> Some (merge_gateway (rnet_gateway merged) g)),
                       rnet_domains = domains, rnet_unix_sockets = sockets\<rparr>\<rparr>,
                    pm_domain_rules := domain_positions, pm_unix_sockets := socket_positions\<rparr>))"

text \<open>The derived order of \<open>EnvironmentNameKey\<close>.\<close>

fun name_key_rank :: "environment_name_key \<Rightarrow> nat \<times> nat list list \<times> string" where
  "name_key_rank (Folded t) = (0, t, [])"
| "name_key_rank (NativeBytes b) = (1, [], b)"

definition merge_filter_step ::
  "unicode_data \<Rightarrow> wild_matcher \<Rightarrow> (string \<times> environment_filter_action) list \<times> (environment_filter_key \<rightharpoonup> string)
     \<Rightarrow> string \<times> environment_filter_action \<Rightarrow> (string \<times> environment_filter_action) list \<times> (environment_filter_key \<rightharpoonup> string)" where
  "merge_filter_step U wild st entry =
     (case st of (filters, keys) \<Rightarrow>
        (let key = config_filter_key U wild (fst entry);
             filters = (case keys key of None \<Rightarrow> filters | Some existing \<Rightarrow> bt_remove id existing filters)
         in (bt_insert id (fst entry) (snd entry) filters, keys(key \<mapsto> fst entry))))"

definition merge_environment ::
  "unicode_data \<Rightarrow> wild_matcher \<Rightarrow> raw_environment \<times> (environment_filter_key \<rightharpoonup> string) \<times> (environment_name_key \<times> string \<times> string option) list
     \<Rightarrow> raw_environment \<Rightarrow> raw_environment \<times> (environment_filter_key \<rightharpoonup> string) \<times> (environment_name_key \<times> string \<times> string option) list" where
  "merge_environment U wild st child =
     (case st of (merged, filter_keys, overrides) \<Rightarrow>
        (case foldl (merge_filter_step U wild) (renv_filters merged, filter_keys) (renv_filters child) of (filters, filter_keys) \<Rightarrow>
           (let overrides = foldl (\<lambda>o' (name, v). bt_insert name_key_rank (environment_name_identity U name) (name, Some v) o')
                              overrides (renv_set child);
                overrides = foldl (\<lambda>o' name. bt_insert name_key_rank (environment_name_identity U name) (name, None) o')
                              overrides (renv_remove child)
            in (merged\<lparr>renv_inherit := present (renv_inherit child) (renv_inherit merged), renv_filters := filters\<rparr>,
                filter_keys, overrides))))"

definition merge_stdio :: "raw_stdio option \<Rightarrow> raw_stdio \<Rightarrow> raw_stdio" where
  "merge_stdio parent child =
     (let merged = get_or \<lparr>rio_stdin = None, rio_stdout = None, rio_stderr = None\<rparr> parent
      in \<lparr>rio_stdin = present (rio_stdin child) (rio_stdin merged), rio_stdout = present (rio_stdout child) (rio_stdout merged),
          rio_stderr = present (rio_stderr child) (rio_stderr merged)\<rparr>)"

definition merge_timeout :: "raw_timeout option \<Rightarrow> raw_timeout \<Rightarrow> raw_timeout" where
  "merge_timeout parent child =
     (let merged = get_or \<lparr>rto_mode = None, rto_milliseconds = None\<rparr> parent;
          merged = (if rto_mode child \<noteq> None
                    then merged\<lparr>rto_mode := rto_mode child,
                                rto_milliseconds :=
                                  (if rto_milliseconds child = None \<and> rto_mode child \<in> {Some RawBackendDefault, Some RawDisabled}
                                   then None else rto_milliseconds merged)\<rparr>
                    else merged)
      in merged\<lparr>rto_milliseconds := present (rto_milliseconds child) (rto_milliseconds merged)\<rparr>)"

definition merge_command :: "unicode_data \<Rightarrow> wild_matcher \<Rightarrow> profile_merger \<Rightarrow> raw_command \<Rightarrow> profile_merger" where
  "merge_command U wild m child =
     (let merged = get_or raw_command_default (mp_command (pm_merged m));
          (environment, filter_keys, overrides) =
            (case rcmd_environment child of
               None \<Rightarrow> (rcmd_environment merged, pm_environment_filters m, pm_environment_overrides m)
             | Some environment \<Rightarrow>
                 (case merge_environment U wild
                         (get_or raw_environment_default (rcmd_environment merged), pm_environment_filters m, pm_environment_overrides m)
                         environment of
                    (environment, filter_keys, overrides) \<Rightarrow> (Some environment, filter_keys, overrides)))
      in m\<lparr>pm_merged := (pm_merged m)\<lparr>mp_command := Some
             \<lparr>rcmd_program = present (rcmd_program child) (rcmd_program merged),
              rcmd_args = present (rcmd_args child) (rcmd_args merged),
              rcmd_working_directory = present (rcmd_working_directory child) (rcmd_working_directory merged),
              rcmd_environment = environment,
              rcmd_stdio = (case rcmd_stdio child of None \<Rightarrow> rcmd_stdio merged | Some s \<Rightarrow> Some (merge_stdio (rcmd_stdio merged) s)),
              rcmd_timeout = (case rcmd_timeout child of None \<Rightarrow> rcmd_timeout merged
                              | Some t \<Rightarrow> Some (merge_timeout (rcmd_timeout merged) t))\<rparr>\<rparr>,
           pm_environment_filters := filter_keys, pm_environment_overrides := overrides\<rparr>)"

definition if_present :: "(profile_merger \<Rightarrow> 'a \<Rightarrow> profile_merger) \<Rightarrow> 'a option \<Rightarrow> profile_merger \<Rightarrow> profile_merger" where
  "if_present f x m = (case x of None \<Rightarrow> m | Some v \<Rightarrow> f m v)"

text \<open>The sections a profile and an overlay share, in the order both are applied.\<close>

definition merge_sections ::
  "unicode_data \<Rightarrow> glob_builder \<Rightarrow> wild_matcher \<Rightarrow> 'p raw_platform_profile_scheme \<Rightarrow> profile_merger \<Rightarrow> profile_merger" where
  "merge_sections U build wild p m =
     if_present (merge_runtime U) (rpp_runtime p)
       (if_present merge_approval (rpp_approval p)
         (if_present (merge_command U wild) (rpp_command p)
           (if_present (merge_local_ipc U) (rpp_local_ipc p)
             (if_present (merge_network U build) (rpp_network p)
               (if_present (merge_filesystem U build) (rpp_filesystem p)
                 (merge_workspace_roots U m (rpp_workspace_roots p)))))))"

definition apply_platform_overlay ::
  "unicode_data \<Rightarrow> glob_builder \<Rightarrow> wild_matcher \<Rightarrow> profile_merger \<Rightarrow> raw_platform_profile \<Rightarrow> profile_merger" where
  "apply_platform_overlay U build wild m overlay =
     merge_sections U build wild overlay
       (m\<lparr>pm_merged := (pm_merged m)\<lparr>mp_description := present (rpp_description overlay) (mp_description (pm_merged m))\<rparr>\<rparr>)"

definition merger_apply ::
  "unicode_data \<Rightarrow> glob_builder \<Rightarrow> wild_matcher \<Rightarrow> platform_id option \<Rightarrow> profile_merger \<Rightarrow> raw_profile \<Rightarrow> profile_merger" where
  "merger_apply U build wild platform m profile =
     (let m = merge_sections U build wild profile (m\<lparr>pm_merged := (pm_merged m)\<lparr>mp_description := rpp_description profile\<rparr>\<rparr>)
      in case platform of
           None \<Rightarrow> m
         | Some p \<Rightarrow> (case map_of (rp_platforms profile) p of None \<Rightarrow> m | Some overlay \<Rightarrow> apply_platform_overlay U build wild m overlay))"

definition finish_environment :: "(environment_name_key \<times> string \<times> string option) list \<Rightarrow> raw_environment \<Rightarrow> raw_environment" where
  "finish_environment overrides environment =
     foldl (\<lambda>e (_, name, v). case v of
          Some value \<Rightarrow> e\<lparr>renv_set := bt_insert id name value (renv_set e)\<rparr>
        | None \<Rightarrow> e\<lparr>renv_remove := renv_remove e @ [name]\<rparr>)
       (environment\<lparr>renv_set := [], renv_remove := []\<rparr>) overrides"

definition merger_finish :: "profile_merger \<Rightarrow> merged_profile" where
  "merger_finish m =
     (pm_merged m)\<lparr>mp_command := map_option
        (\<lambda>c. c\<lparr>rcmd_environment := map_option (finish_environment (pm_environment_overrides m)) (rcmd_environment c)\<rparr>)
        (mp_command (pm_merged m))\<rparr>"

end
