(* ===== verification/Config_Build.thy ===== *)
theory Config_Build
  imports Config_Model Gateway
begin

text \<open>
  Conversion of a merged profile to policy, command, gateway and approval values (\<open>cageforge-config/src/build\<close>).
  The source context of an error is decoration and is left out. A rejected value carries the field, the reason and the
  text the message quotes, if it quotes one. Targets have 64-bit \<open>usize\<close>.
\<close>

section \<open>Errors (error.rs)\<close>

datatype config_error =
    CfgInvalidProfileName string
  | CfgUnknownProfile string
  | CfgNoDefaultProfile
  | CfgResolutionInvariant string
  | CfgProfileCycle "string list"
  | CfgInvalidValue string string string "string option"
  | CfgMissingCommandProgram string
  | CfgPolicy string policy_error
  | CfgCommand string command_error
  | CfgNetworkGateway string gateway_config_error

definition invalid_value :: "string \<Rightarrow> string \<Rightarrow> string \<Rightarrow> config_error" where
  "invalid_value profile field value = CfgInvalidValue profile field value None"

section \<open>Policies (policy.rs)\<close>

definition required_string :: "string option \<Rightarrow> string \<Rightarrow> string \<Rightarrow> (config_error, string) rust_result" where
  "required_string value profile field =
     (case value of None \<Rightarrow> Inl (invalid_value profile field ''value is required'') | Some v \<Rightarrow> Inr v)"

definition require_path :: "raw_selector \<Rightarrow> string \<Rightarrow> string \<Rightarrow> (config_error, string) rust_result" where
  "require_path raw profile field =
     (case rsel_path raw of None \<Rightarrow> Inl (invalid_value profile field ''path is required'') | Some p \<Rightarrow> Inr p)"

definition reject_path :: "raw_selector \<Rightarrow> string \<Rightarrow> string \<Rightarrow> (config_error, unit) rust_result" where
  "reject_path raw profile field =
     (if rsel_path raw \<noteq> None then Inl (invalid_value profile field ''path is not allowed for this target'') else Inr ())"

definition build_selector :: "raw_selector \<Rightarrow> string \<Rightarrow> string \<Rightarrow> (config_error, path_selector) rust_result" where
  "build_selector raw profile field =
     (case rsel_target raw of
        TargetAbsolute \<Rightarrow> and_then (require_path raw profile field) (\<lambda>p. map_err (CfgPolicy profile) (selector_absolute p))
      | TargetWorkspace \<Rightarrow> and_then (require_path raw profile field) (\<lambda>p. map_err (CfgPolicy profile) (selector_workspace p))
      | TargetWorkspaceRoot \<Rightarrow> and_then (reject_path raw profile field) (\<lambda>_. Inr selector_workspace_root)
      | TargetRoot \<Rightarrow> and_then (reject_path raw profile field) (\<lambda>_. Inr Root)
      | TargetMinimal \<Rightarrow> and_then (reject_path raw profile field) (\<lambda>_. Inr Minimal)
      | TargetTmpdir \<Rightarrow> and_then (reject_path raw profile field) (\<lambda>_. Inr Tmpdir)
      | TargetSlashTmp \<Rightarrow> and_then (reject_path raw profile field) (\<lambda>_. Inr SlashTmp)
      | TargetAbsoluteGlob \<Rightarrow> Inl (invalid_value profile field ''unsupported selector AbsoluteGlob'')
      | TargetWorkspaceGlob \<Rightarrow> Inl (invalid_value profile field ''unsupported selector WorkspaceGlob''))"

definition build_scope :: "raw_filesystem_rule \<Rightarrow> string \<Rightarrow> (config_error, filesystem_target) rust_result" where
  "build_scope raw profile =
     (if rfr_pattern raw \<noteq> None then Inl (invalid_value profile ''filesystem.rules.pattern'' ''not allowed for a scope target'')
      else and_then (build_selector \<lparr>rsel_target = rfr_target raw, rsel_path = rfr_path raw\<rparr> profile ''filesystem.rules.path'')
             (\<lambda>s. Inr (Scope s)))"

definition build_glob ::
  "(string \<Rightarrow> (policy_error, path_pattern) rust_result) \<Rightarrow> raw_filesystem_rule \<Rightarrow> string \<Rightarrow> (config_error, filesystem_target) rust_result" where
  "build_glob constructor raw profile =
     (if rfr_path raw \<noteq> None then Inl (invalid_value profile ''filesystem.rules.path'' ''not allowed for a glob target'')
      else and_then (required_string (rfr_pattern raw) profile ''filesystem.rules.pattern'')
             (\<lambda>p. and_then (map_err (CfgPolicy profile) (constructor p)) (\<lambda>g. Inr (Glob g))))"

definition build_target :: "glob_builder \<Rightarrow> raw_filesystem_rule \<Rightarrow> string \<Rightarrow> (config_error, filesystem_target) rust_result" where
  "build_target build raw profile =
     (case rfr_target raw of
        TargetAbsoluteGlob \<Rightarrow> build_glob (pattern_absolute build) raw profile
      | TargetWorkspaceGlob \<Rightarrow> build_glob (pattern_workspace build) raw profile
      | _ \<Rightarrow> build_scope raw profile)"

definition build_filesystem_rule :: "glob_builder \<Rightarrow> raw_filesystem_rule \<Rightarrow> string \<Rightarrow> (config_error, filesystem_rule) rust_result" where
  "build_filesystem_rule build raw profile =
     and_then (build_target build raw profile) (\<lambda>target.
       if is_glob target \<and> rfr_missing_path raw \<noteq> None
       then Inl (invalid_value profile ''filesystem.rules.missing_path'' ''not allowed for a glob target'')
       else and_then (map_err (CfgPolicy profile) (rule_from_target target (rfr_access raw))) (\<lambda>rule.
         let rule = (case rfr_missing_path raw of None \<Rightarrow> rule | Some b \<Rightarrow> with_missing_path_behavior rule b)
         in try_fold (\<lambda>rule selector. and_then (build_selector selector profile ''filesystem.rules.read_only_subpaths'')
                        (\<lambda>s. map_err (CfgPolicy profile) (with_read_only_subpath rule s)))
              rule (rfr_read_only_subpaths raw)))"

definition config_filesystem_mode :: "filesystem_mode option \<Rightarrow> filesystem_mode" where
  "config_filesystem_mode value = get_or FsRestricted value"

definition build_filesystem :: "glob_builder \<Rightarrow> raw_filesystem option \<Rightarrow> string \<Rightarrow> (config_error, filesystem_policy) rust_result" where
  "build_filesystem build raw profile =
     (let raw = get_or raw_filesystem_default raw;
          policy = (case config_filesystem_mode (rfs_mode raw) of
                      FsRestricted \<Rightarrow> fs_restricted [] | FsUnrestricted \<Rightarrow> fs_unrestricted | FsExternal \<Rightarrow> fs_external)
      in and_then (try_fold (\<lambda>policy raw_rule. and_then (build_filesystem_rule build raw_rule profile)
                       (\<lambda>rule. map_err (CfgPolicy profile) (fs_with_rule policy rule))) policy (rfs_rules raw)) (\<lambda>policy.
         and_then (try_fold (\<lambda>policy path. map_err (CfgPolicy profile) (with_additional_protected_relative_path policy path))
                     policy (rfs_additional_protected_paths raw)) (\<lambda>policy.
         let policy = (if get_or False (get_or None (rfs_security raw)) then dangerously_allow_git_write policy else policy)
         in and_then (case rfs_glob_scan_max_depth raw of
                        None \<Rightarrow> Inr policy
                      | Some depth \<Rightarrow>
                          (if depth = 0 then Inl (invalid_value profile ''filesystem.glob_scan_max_depth'' ''must be greater than zero'')
                           else map_err (CfgPolicy profile) (with_glob_scan_max_depth policy depth))) (\<lambda>policy.
            and_then (map_err (CfgPolicy profile) (fs_validate policy)) (\<lambda>_. Inr policy)))))"

definition config_network_mode :: "network_mode option \<Rightarrow> network_mode" where
  "config_network_mode value = get_or NetDisabled value"

definition has_ipc_sockets :: "raw_local_ipc option \<Rightarrow> bool" where
  "has_ipc_sockets local_ipc \<longleftrightarrow> (case local_ipc of None \<Rightarrow> False | Some v \<Rightarrow> ripc_unix_sockets v \<noteq> [])"

text \<open>Modes, then the loops over domains, sockets and local endpoints.\<close>

definition network_base :: "raw_network \<Rightarrow> raw_local_ipc option \<Rightarrow> network_policy" where
  "network_base raw local_ipc =
     (let mode = config_network_mode (case rnet_mode raw of
                    Some m \<Rightarrow> Some m | None \<Rightarrow> if has_ipc_sockets local_ipc then Some NetEnabled else None);
          policy = (case mode of NetDisabled \<Rightarrow> net_disabled | NetEnabled \<Rightarrow> net_enabled | NetExternal \<Rightarrow> net_external);
          policy = (if mode = NetEnabled \<and> has_ipc_sockets local_ipc then with_unix_socket_mode policy SocketsRestricted else policy);
          policy = (case rnet_domain_mode raw of None \<Rightarrow> policy | Some m \<Rightarrow> with_domain_mode policy m);
          policy = (case rnet_unix_socket_mode raw of None \<Rightarrow> policy | Some m \<Rightarrow> with_unix_socket_mode policy m)
      in case rnet_local_network_access raw of None \<Rightarrow> policy | Some a \<Rightarrow> with_local_network_access policy a)"

definition add_endpoints ::
  "(string \<Rightarrow> (policy_error, local_ipc_endpoint) rust_result) \<Rightarrow> string \<Rightarrow> network_policy \<Rightarrow> string list
     \<Rightarrow> (config_error, network_policy) rust_result" where
  "add_endpoints constructor profile =
     try_fold (\<lambda>policy name. and_then (map_err (CfgPolicy profile) (constructor name))
       (\<lambda>endpoint. map_err (CfgPolicy profile) (with_local_ipc policy endpoint DomAllow)))"

definition build_network ::
  "glob_builder \<Rightarrow> raw_network option \<Rightarrow> raw_local_ipc option \<Rightarrow> string \<Rightarrow> (config_error, network_policy) rust_result" where
  "build_network build raw local_ipc profile =
     (let raw = get_or raw_network_default raw
      in and_then (try_fold (\<lambda>policy r. map_err (CfgPolicy profile) (with_domain build policy (rdr_pattern r) (rdr_access r)))
                     (network_base raw local_ipc) (rnet_domains raw)) (\<lambda>policy.
         and_then (try_fold (\<lambda>policy r. map_err (CfgPolicy profile) (with_unix_socket policy (rur_path r) (rur_access r)))
                     policy (rnet_unix_sockets raw)) (\<lambda>policy.
         and_then (case local_ipc of
                     None \<Rightarrow> Inr policy
                   | Some ipc \<Rightarrow>
                       and_then (add_endpoints endpoint_unix_socket profile policy (ripc_unix_sockets ipc))
                         (\<lambda>policy. add_endpoints endpoint_windows_named_pipe profile policy (ripc_named_pipes ipc))) (\<lambda>policy.
         and_then (map_err (CfgPolicy profile) (net_validate policy)) (\<lambda>_. Inr policy)))))"

definition build_policy ::
  "glob_builder \<Rightarrow> raw_filesystem option \<Rightarrow> raw_network option \<Rightarrow> raw_local_ipc option \<Rightarrow> string
     \<Rightarrow> (config_error, sandbox_policy) rust_result" where
  "build_policy build filesystem network local_ipc profile =
     and_then (build_filesystem build filesystem profile) (\<lambda>filesystem.
       and_then (build_network build network local_ipc profile) (\<lambda>network.
         let policy = sandbox_new filesystem network
         in and_then (map_err (CfgPolicy profile) (sandbox_validate policy)) (\<lambda>_. Inr policy)))"

section \<open>Commands (command.rs)\<close>

definition millis :: "nat \<Rightarrow> nanos" where
  "millis n = n * 1000000"

definition build_environment ::
  "unicode_data \<Rightarrow> wild_matcher \<Rightarrow> raw_environment \<Rightarrow> string \<Rightarrow> (config_error, environment_spec) rust_result" where
  "build_environment U wild raw profile =
     (let environment = (case get_or EnvCore (renv_inherit raw) of EnvAll \<Rightarrow> inherit_all | EnvCore \<Rightarrow> inherit_core | EnvNone \<Rightarrow> spec_empty)
      in and_then (try_fold (\<lambda>e (pattern, action). map_err (CfgCommand profile) (with_filter U wild e pattern action))
                     environment (renv_filters raw)) (\<lambda>environment.
         and_then (try_fold (\<lambda>e (name, value). map_err (CfgCommand profile) (with_var U e name value))
                     environment (renv_set raw)) (\<lambda>environment.
         try_fold (\<lambda>e name. map_err (CfgCommand profile) (without_var U e name)) environment (renv_remove raw))))"

definition build_stdio :: "raw_stdio \<Rightarrow> stdio_spec" where
  "build_stdio raw =
     (let stdio = stdio_captured;
          stdio = (case rio_stdin raw of None \<Rightarrow> stdio | Some m \<Rightarrow> with_stdin stdio m);
          stdio = (case rio_stdout raw of None \<Rightarrow> stdio | Some m \<Rightarrow> with_stdout stdio m)
      in case rio_stderr raw of None \<Rightarrow> stdio | Some m \<Rightarrow> with_stderr stdio m)"

definition reject_timeout_milliseconds :: "raw_timeout \<Rightarrow> string \<Rightarrow> (config_error, unit) rust_result" where
  "reject_timeout_milliseconds raw profile =
     (if rto_milliseconds raw \<noteq> None
      then Inl (invalid_value profile ''command.timeout.milliseconds'' ''only valid with mode = \"limit\"'')
      else Inr ())"

definition build_timeout :: "raw_timeout \<Rightarrow> string \<Rightarrow> (config_error, timeout_policy) rust_result" where
  "build_timeout raw profile =
     (case rto_mode raw of
        None \<Rightarrow> Inl (invalid_value profile ''command.timeout.mode'' ''value is required'')
      | Some RawBackendDefault \<Rightarrow> and_then (reject_timeout_milliseconds raw profile) (\<lambda>_. Inr BackendDefault)
      | Some RawDisabled \<Rightarrow> and_then (reject_timeout_milliseconds raw profile) (\<lambda>_. Inr TimeoutDisabled)
      | Some RawLimit \<Rightarrow>
          (case rto_milliseconds raw of
             None \<Rightarrow> Inl (invalid_value profile ''command.timeout.milliseconds'' ''value is required for limit'')
           | Some ms \<Rightarrow> Inr (Limit (millis ms))))"

definition build_command ::
  "unicode_data \<Rightarrow> wild_matcher \<Rightarrow> raw_command option \<Rightarrow> string \<Rightarrow> (config_error, command_request option) rust_result" where
  "build_command U wild raw profile =
     (case raw of
        None \<Rightarrow> Inr None
      | Some raw \<Rightarrow>
          (case rcmd_program raw of
             None \<Rightarrow> Inl (CfgMissingCommandProgram profile)
           | Some program \<Rightarrow>
               and_then (map_err (CfgCommand profile) (command_new program)) (\<lambda>command.
               and_then (case rcmd_args raw of None \<Rightarrow> Inr command
                         | Some args \<Rightarrow> map_err (CfgCommand profile) (with_args command args)) (\<lambda>command.
               and_then (case rcmd_working_directory raw of None \<Rightarrow> Inr (request_new command)
                         | Some d \<Rightarrow> map_err (CfgCommand profile) (with_working_directory (request_new command) d)) (\<lambda>request.
               and_then (case rcmd_environment raw of None \<Rightarrow> Inr request
                         | Some e \<Rightarrow> and_then (build_environment U wild e profile) (\<lambda>e. Inr (with_environment request e))) (\<lambda>request.
               and_then (let request = (case rcmd_stdio raw of None \<Rightarrow> request | Some s \<Rightarrow> with_stdio request (build_stdio s))
                         in case rcmd_timeout raw of None \<Rightarrow> Inr request
                            | Some t \<Rightarrow> and_then (build_timeout t profile) (\<lambda>t. Inr (with_timeout_policy request t))) (\<lambda>request.
               Inr (Some request))))))))"

section \<open>Gateway settings (gateway.rs)\<close>

definition invalid_number :: "string \<Rightarrow> string \<Rightarrow> nat \<Rightarrow> config_error" where
  "invalid_number profile field value =
     CfgInvalidValue profile field (decimal_str value @ '' must be representable and greater than zero'') None"

definition config_timeout :: "nat \<Rightarrow> string \<Rightarrow> string \<Rightarrow> (config_error, nanos) rust_result" where
  "config_timeout value profile field = (if value = 0 then Inl (invalid_number profile field value) else Inr (millis value))"

definition nonzero_usize :: "nat \<Rightarrow> string \<Rightarrow> string \<Rightarrow> (config_error, nat) rust_result" where
  "nonzero_usize value profile field =
     (if value \<ge> 2 ^ 64 \<or> value = 0 then Inl (invalid_number profile field value) else Inr value)"

definition set_timeout ::
  "(gateway_config \<Rightarrow> nanos \<Rightarrow> (gateway_config_error, gateway_config) rust_result) \<Rightarrow> string \<Rightarrow> string \<Rightarrow> nat option
     \<Rightarrow> gateway_config \<Rightarrow> (config_error, gateway_config) rust_result" where
  "set_timeout setter field profile value config =
     (case value of None \<Rightarrow> Inr config
      | Some v \<Rightarrow> and_then (config_timeout v profile field) (\<lambda>t. map_err (CfgNetworkGateway profile) (setter config t)))"

definition set_limit ::
  "(gateway_config \<Rightarrow> nat \<Rightarrow> (gateway_config_error, gateway_config) rust_result) \<Rightarrow> string \<Rightarrow> string \<Rightarrow> nat option
     \<Rightarrow> gateway_config \<Rightarrow> (config_error, gateway_config) rust_result" where
  "set_limit setter field profile value config =
     (case value of None \<Rightarrow> Inr config
      | Some v \<Rightarrow> and_then (nonzero_usize v profile field) (\<lambda>n. map_err (CfgNetworkGateway profile) (setter config n)))"

definition set_byte_limit :: "string \<Rightarrow> raw_relay_byte_limit option \<Rightarrow> gateway_config \<Rightarrow> (config_error, gateway_config) rust_result" where
  "set_byte_limit profile value config =
     (case value of
        None \<Rightarrow> Inr config
      | Some (RelayBytes v) \<Rightarrow>
          (if v = 0 then Inl (invalid_number profile ''network.gateway.relay_byte_limit'' v) else Inr (with_relay_byte_limit config v))
      | Some RelayUnlimited \<Rightarrow> Inr (without_relay_byte_limit config))"

definition build_gateway_config :: "raw_gateway_config option \<Rightarrow> string \<Rightarrow> (config_error, gateway_config) rust_result" where
  "build_gateway_config raw profile =
     (let raw = get_or raw_gateway_default raw
      in and_then (set_timeout with_handshake_timeout ''network.gateway.handshake_timeout_ms'' profile
                     (rgw_handshake_timeout_ms raw) gateway_config_default) (\<lambda>c.
         and_then (set_timeout with_dns_timeout ''network.gateway.dns_timeout_ms'' profile (rgw_dns_timeout_ms raw) c) (\<lambda>c.
         and_then (set_timeout with_connect_timeout ''network.gateway.connect_timeout_ms'' profile (rgw_connect_timeout_ms raw) c) (\<lambda>c.
         and_then (set_timeout with_response_header_timeout ''network.gateway.response_header_timeout_ms'' profile
                     (rgw_response_header_timeout_ms raw) c) (\<lambda>c.
         and_then (set_timeout with_relay_idle_timeout ''network.gateway.relay_idle_timeout_ms'' profile
                     (rgw_relay_idle_timeout_ms raw) c) (\<lambda>c.
         and_then (set_limit with_max_concurrent_connections ''network.gateway.max_concurrent_connections'' profile
                     (rgw_max_concurrent_connections raw) c) (\<lambda>c.
         and_then (set_limit (\<lambda>c n. Inr (with_max_requests_per_connection c n)) ''network.gateway.max_requests_per_connection'' profile
                     (rgw_max_requests_per_connection raw) c) (\<lambda>c.
         and_then (set_limit (\<lambda>c n. Inr (with_max_resolved_addresses c n)) ''network.gateway.max_resolved_addresses'' profile
                     (rgw_max_resolved_addresses raw) c) (\<lambda>c.
         and_then (set_limit with_http_header_bytes ''network.gateway.http_header_bytes'' profile (rgw_http_header_bytes raw) c) (\<lambda>c.
         set_byte_limit profile (rgw_relay_byte_limit raw) c))))))))))"

section \<open>Approval (resolve.rs)\<close>

definition build_approval :: "raw_approval option \<Rightarrow> string \<Rightarrow> (config_error, approval_config) rust_result" where
  "build_approval approval profile =
     (case approval of
        None \<Rightarrow> Inr approval_default
      | Some a \<Rightarrow>
          map_err (\<lambda>_. invalid_value profile ''approval'' ''approval timeout must be greater than zero'')
            (approval_new (get_or PermDisabled (rapp_mode a)) (get_or (appr_timeout_ms approval_default) (rapp_timeout_ms a))
               (get_or (appr_on_timeout approval_default) (rapp_on_timeout a))
               (get_or (appr_persistence approval_default) (rapp_persistence a))))"

end
