(* ===== verification/Config_Resolve.thy ===== *)
theory Config_Resolve
  imports Config_Build
begin

text \<open>
  Validation of a document and resolution of a profile through its inheritance graph
  (\<open>cageforge-config/src/resolve.rs\<close>). The traversal keeps the explicit stack, the map of active names and the set of
  completed ones; its loop is a partial function, so returning is a theorem and not part of the definition. TOML parsing
  and source locations are not modelled: a document is the value the parser returns.
\<close>

section \<open>The traversal (resolve.rs)\<close>

type_synonym profiles = "(string \<times> raw_profile) list"

record resolve_frame =
  rf_name :: string
  rf_next_parent :: nat

record resolve_state =
  rst_frames :: "resolve_frame list"
  rst_active :: "string \<rightharpoonup> nat"
  rst_active_names :: "string list"
  rst_completed :: "string set"
  rst_order :: "string list"

definition frame_new :: "string \<Rightarrow> resolve_frame" where
  "frame_new name = \<lparr>rf_name = name, rf_next_parent = 0\<rparr>"

text \<open>One turn of the loop; an index out of range or an underflow panics.\<close>

datatype resolve_outcome = Continues resolve_state | Completes "string list" | Fails config_error | Panics

definition visit_parent :: "profiles \<Rightarrow> resolve_state \<Rightarrow> string \<Rightarrow> resolve_outcome" where
  "visit_parent profiles st parent_name =
     (let top = last (rst_frames st);
          frames = butlast (rst_frames st) @ [top\<lparr>rf_next_parent := rf_next_parent top + 1\<rparr>]
      in if parent_name \<in> rst_completed st then Continues (st\<lparr>rst_frames := frames\<rparr>)
         else (case rst_active st parent_name of
             Some start \<Rightarrow>
               (if start \<le> length (rst_active_names st)
                then Fails (CfgProfileCycle (drop start (rst_active_names st) @ [parent_name])) else Panics)
           | None \<Rightarrow>
               (if map_of profiles parent_name = None then Fails (CfgUnknownProfile parent_name)
                else Continues (st\<lparr>rst_active := (rst_active st)(parent_name \<mapsto> length (rst_active_names st)),
                                   rst_active_names := rst_active_names st @ [parent_name],
                                   rst_frames := frames @ [frame_new parent_name]\<rparr>))))"

definition complete_frame :: "resolve_state \<Rightarrow> resolve_outcome" where
  "complete_frame st =
     (if rst_frames st = [] then Fails (CfgResolutionInvariant ''resolution stack was empty while completing a profile'')
      else
        (let name = rf_name (last (rst_frames st));
             st = st\<lparr>rst_frames := butlast (rst_frames st), rst_active := (rst_active st)(name := None),
                     rst_active_names := butlast (rst_active_names st), rst_completed := insert name (rst_completed st),
                     rst_order := rst_order st @ [name]\<rparr>
         in if rst_frames st = [] then Completes (rst_order st) else Continues st))"

definition resolve_step :: "profiles \<Rightarrow> resolve_state \<Rightarrow> resolve_outcome" where
  "resolve_step profiles st =
     (if rst_frames st = [] then Panics
      else
        (let frame = last (rst_frames st)
         in case map_of profiles (rf_name frame) of
              None \<Rightarrow> Fails (CfgUnknownProfile (rf_name frame))
            | Some profile \<Rightarrow>
                (if rf_next_parent frame < length (rp_inherits profile)
                 then visit_parent profiles st (rp_inherits profile ! rf_next_parent frame)
                 else complete_frame st)))"

partial_function (option) resolve_loop :: "profiles \<Rightarrow> resolve_state \<Rightarrow> (config_error, string list) rust_result option" where
  "resolve_loop profiles st =
     (case resolve_step profiles st of
        Continues st' \<Rightarrow> resolve_loop profiles st'
      | Completes order \<Rightarrow> Some (Inr order)
      | Fails e \<Rightarrow> Some (Inl e)
      | Panics \<Rightarrow> None)"

declare resolve_loop.simps [code]

definition resolve_start :: "string \<Rightarrow> resolve_state" where
  "resolve_start name =
     \<lparr>rst_frames = [frame_new name], rst_active = [name \<mapsto> 0], rst_active_names = [name], rst_completed = {}, rst_order = []\<rparr>"

definition resolve_order :: "profiles \<Rightarrow> string \<Rightarrow> (config_error, string list) rust_result option" where
  "resolve_order profiles name =
     (if map_of profiles name = None then Some (Inl (CfgUnknownProfile name)) else resolve_loop profiles (resolve_start name))"

section \<open>The traversal visits the ancestors\<close>

definition parents :: "profiles \<Rightarrow> string \<Rightarrow> string list" where
  "parents profiles n = (case map_of profiles n of None \<Rightarrow> [] | Some p \<Rightarrow> rp_inherits p)"

abbreviation inherits_from :: "profiles \<Rightarrow> string \<Rightarrow> string \<Rightarrow> bool" where
  "inherits_from profiles a b \<equiv> b \<in> set (parents profiles a)"

definition ancestors :: "profiles \<Rightarrow> string \<Rightarrow> string set" where
  "ancestors profiles name = {n. (inherits_from profiles)\<^sup>*\<^sup>* name n}"

text \<open>The stack from the top: what a frame has passed is completed or is the frame above it, which it inherits from.\<close>

fun stack_ok :: "profiles \<Rightarrow> string \<Rightarrow> string set \<Rightarrow> string option \<Rightarrow> resolve_frame list \<Rightarrow> bool" where
  "stack_ok ps root done up [] \<longleftrightarrow> up = Some root"
| "stack_ok ps root done up (f # below) \<longleftrightarrow>
     (\<forall>p \<in> set (take (rf_next_parent f) (parents ps (rf_name f))). p \<in> done \<or> up = Some p) \<and>
     (\<forall>p. up = Some p \<longrightarrow> inherits_from ps (rf_name f) p) \<and>
     stack_ok ps root done (Some (rf_name f)) below"

definition resolve_inv :: "profiles \<Rightarrow> string \<Rightarrow> resolve_state \<Rightarrow> bool" where
  "resolve_inv ps root st \<longleftrightarrow>
     (let ns = map rf_name (rst_frames st); order = rst_order st
      in rst_frames st \<noteq> [] \<and> rst_active_names st = ns \<and> distinct (order @ ns) \<and> set (order @ ns) \<subseteq> dom (map_of ps) \<and>
         rst_completed st = set order \<and> (\<forall>n i. rst_active st n = Some i \<longleftrightarrow> i < length ns \<and> ns ! i = n) \<and>
         stack_ok ps root (set order) None (rev (rst_frames st)) \<and>
         (\<forall>k < length order. set (parents ps (order ! k)) \<subseteq> set (take k order)) \<and>
         set order \<subseteq> ancestors ps root)"

lemma successively_drop: "successively P xs \<Longrightarrow> successively P (drop n xs)"
  by (metis append_take_drop_id successively_append_iff)

lemma stack_ok_mono: "stack_ok ps root done up fs \<Longrightarrow> done \<subseteq> done' \<Longrightarrow> stack_ok ps root done' up fs"
  by (induction fs arbitrary: up) auto

lemma stack_ok_pop:
  "stack_ok ps root done (Some n) below \<Longrightarrow> below \<noteq> [] \<Longrightarrow> stack_ok ps root (insert n done) None below"
  by (cases below) (auto intro: stack_ok_mono)

lemma stack_ok_ancestor:
  "stack_ok ps root done up (f # below) \<Longrightarrow> rf_name f \<in> ancestors ps root"
proof (induction below arbitrary: up f)
  case Nil
  then show ?case by (simp add: ancestors_def)
next
  case (Cons g below)
  from Cons.prems have "rf_name g \<in> ancestors ps root" by (intro Cons.IH [of "Some (rf_name f)"]) simp
  moreover from Cons.prems have "inherits_from ps (rf_name g) (rf_name f)" by simp
  ultimately show ?case by (auto simp: ancestors_def intro: rtranclp.rtrancl_into_rtrancl)
qed

lemma stack_ok_chain:
  "stack_ok ps root done up fs \<Longrightarrow> successively (\<lambda>a b. inherits_from ps b a) (map rf_name fs)"
proof (induction fs arbitrary: up rule: induct_list012)
  case (3 f g fs)
  then have "stack_ok ps root done (Some (rf_name f)) (g # fs)" and link: "inherits_from ps (rf_name g) (rf_name f)" by simp_all
  from "3.IH"(2) [OF this(1)] link show ?case by simp
qed simp_all


definition resolution_order :: "profiles \<Rightarrow> string \<Rightarrow> string list \<Rightarrow> bool" where
  "resolution_order ps root order \<longleftrightarrow>
     distinct order \<and> set order = ancestors ps root \<and> set order \<subseteq> dom (map_of ps) \<and> order \<noteq> [] \<and> last order = root \<and>
     (\<forall>k < length order. set (parents ps (order ! k)) \<subseteq> set (take k order))"

definition resolution_failure :: "profiles \<Rightarrow> string \<Rightarrow> config_error \<Rightarrow> bool" where
  "resolution_failure ps root e \<longleftrightarrow>
     (case e of
        CfgUnknownProfile n \<Rightarrow> n \<in> ancestors ps root \<and> map_of ps n = None
      | CfgProfileCycle chain \<Rightarrow>
          2 \<le> length chain \<and> hd chain = last chain \<and> hd chain \<in> ancestors ps root \<and> successively (inherits_from ps) chain
      | _ \<Rightarrow> False)"

definition resolve_measure :: "profiles \<Rightarrow> resolve_state \<Rightarrow> nat \<times> nat \<times> nat" where
  "resolve_measure ps st =
     (let top = last (rst_frames st)
      in (card (dom (map_of ps) - rst_completed st), card (dom (map_of ps) - set (map rf_name (rst_frames st))),
          length (parents ps (rf_name top)) - rf_next_parent top))"

definition resolve_less :: "profiles \<Rightarrow> (resolve_state \<times> resolve_state) set" where
  "resolve_less ps = inv_image (less_than <*lex*> less_than <*lex*> less_than) (resolve_measure ps)"

lemma resolve_wf: "wf (resolve_less ps)"
  by (auto simp: resolve_less_def)

definition good_outcome :: "profiles \<Rightarrow> string \<Rightarrow> resolve_state \<Rightarrow> resolve_outcome \<Rightarrow> bool" where
  "good_outcome ps root st outcome \<longleftrightarrow>
     (case outcome of
        Continues st' \<Rightarrow> resolve_inv ps root st' \<and> (st', st) \<in> resolve_less ps
      | Completes order \<Rightarrow> resolution_order ps root order
      | Fails e \<Rightarrow> resolution_failure ps root e
      | Panics \<Rightarrow> False)"

lemma closed_ancestors:
  assumes "root \<in> S" and "\<And>n. n \<in> S \<Longrightarrow> set (parents ps n) \<subseteq> S"
  shows "ancestors ps root \<subseteq> S"
proof
  fix n
  assume "n \<in> ancestors ps root"
  then have "(inherits_from ps)\<^sup>*\<^sup>* root n" by (simp add: ancestors_def)
  then show "n \<in> S" by induction (use assms in auto)
qed

text \<open>A state of the loop with its stack taken apart at the top.\<close>

lemma resolve_inv_snoc:
  assumes "resolve_inv ps root st" and "rst_frames st = gs @ [f]"
  shows "distinct (rst_order st @ map rf_name gs @ [rf_name f])"
    and "set (rst_order st @ map rf_name gs @ [rf_name f]) \<subseteq> dom (map_of ps)"
    and "rst_completed st = set (rst_order st)"
    and "rst_active_names st = map rf_name gs @ [rf_name f]"
    and "rst_active st n = Some i \<longleftrightarrow> i < Suc (length gs) \<and> (map rf_name gs @ [rf_name f]) ! i = n"
    and "stack_ok ps root (set (rst_order st)) None (f # rev gs)"
    and "\<forall>k < length (rst_order st). set (parents ps (rst_order st ! k)) \<subseteq> set (take k (rst_order st))"
    and "set (rst_order st) \<subseteq> ancestors ps root"
  using assms unfolding resolve_inv_def Let_def by simp_all

lemma complete_frame_good:
  assumes inv: "resolve_inv ps root st" and fs: "rst_frames st = gs @ [f]"
    and exhausted: "length (parents ps (rf_name f)) \<le> rf_next_parent f"
  shows "good_outcome ps root st (complete_frame st)"
proof -
  note st = resolve_inv_snoc [OF inv fs]
  let ?order = "rst_order st @ [rf_name f]"
  from st(6) exhausted have ready: "set (parents ps (rf_name f)) \<subseteq> set (rst_order st)" by auto
  have closed: "\<forall>k < length ?order. set (parents ps (?order ! k)) \<subseteq> set (take k ?order)"
    using st(7) ready by (auto simp: nth_append less_Suc_eq)
  have known: "set ?order \<subseteq> ancestors ps root" using st(8) stack_ok_ancestor [OF st(6)] by simp
  show ?thesis
  proof (cases "gs = []")
    case True
    with st(6) have root: "rf_name f = root" by simp
    have "set (parents ps n) \<subseteq> set ?order" if "n \<in> set ?order" for n
    proof -
      from that obtain k where "k < length ?order" and "?order ! k = n" unfolding in_set_conv_nth by blast
      with closed have "set (parents ps n) \<subseteq> set (take k ?order)" by blast
      then show ?thesis by (meson order_trans set_take_subset)
    qed
    then have "ancestors ps root \<subseteq> set ?order" using root by (intro closed_ancestors) auto
    with known have "set ?order = ancestors ps root" by blast
    moreover have "distinct ?order" and "set ?order \<subseteq> dom (map_of ps)" using st(1,2) by auto
    moreover have "last ?order = root" and "?order \<noteq> []" using root by simp_all
    ultimately have "resolution_order ps root ?order"
      using closed unfolding resolution_order_def by (intro conjI)
    with True fs show ?thesis by (simp add: complete_frame_def good_outcome_def Let_def)
  next
    case False
    let ?st = "st\<lparr>rst_frames := gs, rst_active := (rst_active st)(rf_name f := None), rst_active_names := map rf_name gs,
                  rst_completed := insert (rf_name f) (rst_completed st), rst_order := ?order\<rparr>"
    have "stack_ok ps root (insert (rf_name f) (set (rst_order st))) None (rev gs)"
      using st(6) False by (intro stack_ok_pop) simp_all
    moreover have top: "rf_name f \<notin> rf_name ` set gs" using st(1) by auto
    have other: "rf_name (gs ! i) \<noteq> rf_name f" if "i < length gs" for i
      using imageI [OF nth_mem [OF that], of rf_name] top by metis
    have "((rst_active st)(rf_name f := None)) n = Some i \<longleftrightarrow> i < length gs \<and> map rf_name gs ! i = n" for n i
      using other [of i] by (auto simp: st(5) nth_append less_Suc_eq)
    ultimately have "resolve_inv ps root ?st"
      using st(1,2,3) closed known False unfolding resolve_inv_def Let_def by auto
    moreover have "card (dom (map_of ps) - insert (rf_name f) (rst_completed st)) < card (dom (map_of ps) - rst_completed st)"
      using st(1,2,3) finite_dom_map_of [of ps] by (intro psubset_card_mono) auto
    then have "(?st, st) \<in> resolve_less ps" by (simp add: resolve_less_def resolve_measure_def Let_def)
    moreover have "complete_frame st = Continues ?st"
      using fs False st(4) by (simp add: complete_frame_def Let_def)
    ultimately show ?thesis by (simp add: good_outcome_def)
  qed
qed


lemma visit_parent_good:
  assumes inv: "resolve_inv ps root st" and fs: "rst_frames st = gs @ [f]"
    and next_parent: "rf_next_parent f < length (parents ps (rf_name f))"
  shows "good_outcome ps root st (visit_parent ps st (parents ps (rf_name f) ! rf_next_parent f))"
proof -
  note st = resolve_inv_snoc [OF inv fs]
  define p where "p = parents ps (rf_name f) ! rf_next_parent f"
  define f' where "f' = f\<lparr>rf_next_parent := rf_next_parent f + 1\<rparr>"
  have f' [simp]: "rf_name f' = rf_name f" "rf_next_parent f' = Suc (rf_next_parent f)" by (simp_all add: f'_def)
  have link: "inherits_from ps (rf_name f) p" using next_parent by (simp add: p_def)
  have above: "rf_name f \<in> ancestors ps root" using stack_ok_ancestor [OF st(6)] .
  then have ancestor: "p \<in> ancestors ps root"
    using link by (auto simp: ancestors_def intro: rtranclp.rtrancl_into_rtrancl)
  have passed: "take (Suc (rf_next_parent f)) (parents ps (rf_name f)) = take (rf_next_parent f) (parents ps (rf_name f)) @ [p]"
    using next_parent by (simp add: take_Suc_conv_app_nth p_def)
  have "butlast (rst_frames st) @ [last (rst_frames st)\<lparr>rf_next_parent := rf_next_parent (last (rst_frames st)) + 1\<rparr>] = gs @ [f']"
    by (simp add: fs f'_def)
  note visit = visit_parent_def [of ps st p, unfolded Let_def this]
  consider (completed) "p \<in> rst_completed st"
    | (active) i where "p \<notin> rst_completed st" "rst_active st p = Some i"
    | (missing) "p \<notin> rst_completed st" "rst_active st p = None" "map_of ps p = None"
    | (push) "p \<notin> rst_completed st" "rst_active st p = None" "map_of ps p \<noteq> None"
    by (cases "rst_active st p") auto
  then have "good_outcome ps root st (visit_parent ps st p)"
  proof cases
    case completed
    let ?st = "st\<lparr>rst_frames := gs @ [f']\<rparr>"
    have "stack_ok ps root (set (rst_order st)) None (f' # rev gs)"
      using st(3,6) completed unfolding stack_ok.simps f' passed by auto
    then have "resolve_inv ps root ?st"
      using inv unfolding resolve_inv_def Let_def by (simp add: fs)
    moreover have "(?st, st) \<in> resolve_less ps"
      using next_parent by (simp add: resolve_less_def resolve_measure_def fs Let_def)
    ultimately show ?thesis using completed by (simp add: visit good_outcome_def)
  next
    case (active i)
    let ?ns = "map rf_name gs @ [rf_name f]"
    from active(2) have i: "i < length ?ns" "?ns ! i = p" by (simp_all add: st(5))
    have "successively (inherits_from ps) ?ns"
      using stack_ok_chain [OF st(6)] successively_rev [of "inherits_from ps" "map rf_name (f # rev gs)"]
      by (simp add: rev_map)
    then have "successively (inherits_from ps) (?ns @ [p])" using link by (simp add: successively_append_iff)
    then have "successively (inherits_from ps) (drop i (?ns @ [p]))" by (rule successively_drop)
    moreover have "drop i (?ns @ [p]) = drop i ?ns @ [p]" using i by simp
    ultimately have chain: "successively (inherits_from ps) (drop i ?ns @ [p])" by (simp only:)
    have "drop i ?ns \<noteq> []" using i(1) unfolding drop_eq_Nil by simp
    then have "hd (drop i ?ns @ [p]) = p" using hd_drop_conv_nth [OF i(1)] i(2) by (metis hd_append2)
    moreover have "2 \<le> length (drop i ?ns @ [p])" and "last (drop i ?ns @ [p]) = p" using i(1) by simp_all
    ultimately have "resolution_failure ps root (CfgProfileCycle (drop i ?ns @ [p]))"
      using chain ancestor unfolding resolution_failure_def config_error.case by metis
    with active i st(4) show ?thesis by (simp add: visit good_outcome_def)
  next
    case missing
    with ancestor show ?thesis
      by (simp add: visit good_outcome_def resolution_failure_def)
  next
    case push
    let ?ns = "map rf_name gs @ [rf_name f]"
    let ?st = "st\<lparr>rst_active := (rst_active st)(p \<mapsto> length ?ns), rst_active_names := ?ns @ [p],
                  rst_frames := (gs @ [f']) @ [frame_new p]\<rparr>"
    from push(2) have "\<not> (\<exists>i. i < Suc (length gs) \<and> ?ns ! i = p)" using st(5) [of p] by simp
    then have fresh: "p \<notin> set ?ns" unfolding in_set_conv_nth by simp
    have "stack_ok ps root (set (rst_order st)) None (frame_new p # f' # rev gs)"
      using st(6) link unfolding stack_ok.simps f' passed by (auto simp: frame_new_def)
    moreover have "((rst_active st)(p \<mapsto> length ?ns)) n = Some i \<longleftrightarrow> i < length (?ns @ [p]) \<and> (?ns @ [p]) ! i = n" for n i
      using fresh by (auto simp: st(5) nth_append less_Suc_eq)
    ultimately have "resolve_inv ps root ?st"
      using st(1,2,3,7,8) push fresh unfolding resolve_inv_def Let_def by (auto simp: frame_new_def)
    moreover have "card (dom (map_of ps) - insert p (set ?ns)) < card (dom (map_of ps) - set ?ns)"
      using push(3) fresh finite_dom_map_of [of ps] by (intro psubset_card_mono) auto
    then have "(?st, st) \<in> resolve_less ps"
      by (simp add: resolve_less_def resolve_measure_def fs frame_new_def Let_def insert_commute)
    moreover have "visit_parent ps st p = Continues ?st"
      using push st(4) by (simp add: visit)
    ultimately show ?thesis by (simp add: good_outcome_def)
  qed
  then show ?thesis by (simp add: p_def)
qed

lemma resolve_step_good:
  assumes inv: "resolve_inv ps root st"
  shows "good_outcome ps root st (resolve_step ps st)"
proof -
  have "rst_frames st \<noteq> []" using inv by (simp add: resolve_inv_def Let_def)
  then obtain gs f where fs: "rst_frames st = gs @ [f]" by (metis rev_exhaust)
  obtain profile where profile: "map_of ps (rf_name f) = Some profile"
    using resolve_inv_snoc(2) [OF inv fs] by auto
  then have parents: "parents ps (rf_name f) = rp_inherits profile" by (simp add: parents_def)
  have step: "resolve_step ps st =
      (if rf_next_parent f < length (parents ps (rf_name f))
       then visit_parent ps st (parents ps (rf_name f) ! rf_next_parent f) else complete_frame st)"
    by (simp add: resolve_step_def fs profile parents)
  show ?thesis
    unfolding step using visit_parent_good [OF inv fs] complete_frame_good [OF inv fs] by simp
qed

lemma resolve_loop_returns:
  assumes "resolve_inv ps root st"
  shows "\<exists>r. resolve_loop ps st = Some r \<and>
    (case r of Inl e \<Rightarrow> resolution_failure ps root e | Inr order \<Rightarrow> resolution_order ps root order)"
  using assms
proof (induction st rule: wf_induct_rule [OF resolve_wf [of ps]])
  case (1 st)
  note good = resolve_step_good [OF "1.prems"]
  show ?case
  proof (cases "resolve_step ps st")
    case (Continues st')
    with good have "resolve_inv ps root st'" and "(st', st) \<in> resolve_less ps" by (simp_all add: good_outcome_def)
    with "1.IH" Continues show ?thesis by (simp add: resolve_loop.simps [of ps st])
  qed (use good in \<open>simp_all add: good_outcome_def resolve_loop.simps [of ps st]\<close>)
qed

lemma resolve_start_inv: "map_of ps name \<noteq> None \<Longrightarrow> resolve_inv ps name (resolve_start name)"
  by (auto simp: resolve_inv_def resolve_start_def frame_new_def Let_def)


section \<open>Resolved profiles (resolve.rs)\<close>

record resolved_profile =
  res_description :: "string option"
  res_workspace_roots :: "string list"
  res_executable_roots :: "string list"
  res_policy :: sandbox_policy
  res_command :: "command_request option"
  res_network_gateway :: gateway_config
  res_approval :: approval_config

fun config_path_dialect :: "platform_id option \<Rightarrow> path_dialect" where
  "config_path_dialect (Some platform_id.Windows) = path_dialect.Windows"
| "config_path_dialect (Some Linux) = Posix"
| "config_path_dialect (Some Macos) = Posix"
| "config_path_dialect None = native_dialect"

definition apply_named ::
  "unicode_data \<Rightarrow> glob_builder \<Rightarrow> wild_matcher \<Rightarrow> profiles \<Rightarrow> platform_id option \<Rightarrow> profile_merger \<Rightarrow> string
     \<Rightarrow> (config_error, profile_merger) rust_result" where
  "apply_named U build wild profiles platform m name =
     (case map_of profiles name of None \<Rightarrow> Inl (CfgUnknownProfile name)
      | Some profile \<Rightarrow> Inr (merger_apply U build wild platform m profile))"

definition resolve_raw ::
  "unicode_data \<Rightarrow> glob_builder \<Rightarrow> wild_matcher \<Rightarrow> raw_config \<Rightarrow> string \<Rightarrow> platform_id option
     \<Rightarrow> (config_error, merged_profile) rust_result option" where
  "resolve_raw U build wild config name platform =
     map_option (\<lambda>order. and_then order (\<lambda>order.
        and_then (try_fold (apply_named U build wild (rc_profiles config) platform) (merger_new (config_path_dialect platform)) order)
          (\<lambda>m. Inr (merger_finish m))))
       (resolve_order (rc_profiles config) name)"

definition build_profile ::
  "unicode_data \<Rightarrow> glob_builder \<Rightarrow> wild_matcher \<Rightarrow> string \<Rightarrow> merged_profile \<Rightarrow> (config_error, resolved_profile) rust_result" where
  "build_profile U build wild name merged =
     and_then (build_policy build (mp_filesystem merged) (mp_network merged) (mp_local_ipc merged) name) (\<lambda>policy.
     and_then (build_command U wild (mp_command merged) name) (\<lambda>command.
     and_then (build_gateway_config (case mp_network merged of None \<Rightarrow> None | Some n \<Rightarrow> rnet_gateway n) name) (\<lambda>gateway.
     and_then (build_approval (mp_approval merged) name) (\<lambda>approval.
     Inr \<lparr>res_description = mp_description merged,
          res_workspace_roots = map fst (filter snd (mp_workspace_roots merged)),
          res_executable_roots = (case mp_runtime merged of None \<Rightarrow> [] | Some r \<Rightarrow> rrun_executable_roots r),
          res_policy = policy, res_command = command, res_network_gateway = gateway, res_approval = approval\<rparr>))))"

definition resolve_with_platform ::
  "unicode_data \<Rightarrow> glob_builder \<Rightarrow> wild_matcher \<Rightarrow> raw_config \<Rightarrow> string \<Rightarrow> platform_id option
     \<Rightarrow> (config_error, resolved_profile) rust_result option" where
  "resolve_with_platform U build wild config name platform =
     map_option (\<lambda>merged. and_then merged (build_profile U build wild name)) (resolve_raw U build wild config name platform)"

definition resolve_default ::
  "unicode_data \<Rightarrow> glob_builder \<Rightarrow> wild_matcher \<Rightarrow> raw_config \<Rightarrow> platform_id option
     \<Rightarrow> (config_error, resolved_profile) rust_result option" where
  "resolve_default U build wild config platform =
     (case rc_default_profile config of
        None \<Rightarrow> Some (Inl CfgNoDefaultProfile)
      | Some name \<Rightarrow> resolve_with_platform U build wild config name platform)"

section \<open>Validation of a document (resolve.rs)\<close>

definition reject_duplicates :: "('a \<Rightarrow> 'k) \<Rightarrow> ('a \<Rightarrow> config_error) \<Rightarrow> 'a list \<Rightarrow> (config_error, 'k set) rust_result" where
  "reject_duplicates key err =
     try_fold (\<lambda>seen x. if key x \<in> seen then Inl (err x) else Inr (insert (key x) seen)) {}"

definition validate_profile_name :: "string \<Rightarrow> (config_error, unit) rust_result" where
  "validate_profile_name name =
     (if name \<noteq> [] \<and> (is_ascii_alphabetic (hd name) \<or> is_ascii_digit (hd name)) \<and>
         list_all (\<lambda>c. is_ascii_alphabetic c \<or> is_ascii_digit c \<or> c = CHR ''-'' \<or> c = CHR ''_'') name
      then Inr () else Inl (CfgInvalidProfileName name))"

definition validate_approval :: "string \<Rightarrow> raw_approval option \<Rightarrow> (config_error, unit) rust_result" where
  "validate_approval profile approval =
     (if approval \<noteq> None \<and> rapp_timeout_ms (the approval) = Some 0
      then Inl (invalid_value profile ''approval.timeout_ms'' ''timeout must be greater than zero'') else Inr ())"

definition validate_filesystem_duplicates ::
  "unicode_data \<Rightarrow> glob_builder \<Rightarrow> string \<Rightarrow> path_dialect \<Rightarrow> raw_filesystem \<Rightarrow> (config_error, unit) rust_result" where
  "validate_filesystem_duplicates U build name dialect fs =
     and_then (reject_duplicates (config_rule_key U build dialect)
        (\<lambda>_. invalid_value name ''filesystem.rules'' ''duplicate target under native path semantics'') (rfs_rules fs)) (\<lambda>_.
     and_then (reject_duplicates (\<lambda>path. platform_path_key_new U path dialect)
        (\<lambda>_. invalid_value name ''filesystem.additional_protected_paths'' ''duplicate path under native semantics'')
        (rfs_additional_protected_paths fs)) (\<lambda>_. Inr ()))"

definition validate_network_duplicates ::
  "unicode_data \<Rightarrow> glob_builder \<Rightarrow> string \<Rightarrow> path_dialect \<Rightarrow> raw_network \<Rightarrow> (config_error, unit) rust_result" where
  "validate_network_duplicates U build name dialect net =
     and_then (reject_duplicates (\<lambda>r. config_domain_key build (rdr_pattern r))
        (\<lambda>_. invalid_value name ''network.domains'' ''duplicate normalized domain pattern'') (rnet_domains net)) (\<lambda>_.
     and_then (reject_duplicates (\<lambda>r. platform_path_key_new U (rur_path r) dialect)
        (\<lambda>_. invalid_value name ''network.unix_sockets'' ''duplicate path under native semantics'') (rnet_unix_sockets net)) (\<lambda>_. Inr ()))"

definition validate_policy_duplicates ::
  "unicode_data \<Rightarrow> glob_builder \<Rightarrow> string \<Rightarrow> raw_filesystem option \<Rightarrow> raw_network option \<Rightarrow> path_dialect
     \<Rightarrow> (config_error, unit) rust_result" where
  "validate_policy_duplicates U build name filesystem network dialect =
     and_then (case filesystem of None \<Rightarrow> Inr () | Some fs \<Rightarrow> validate_filesystem_duplicates U build name dialect fs) (\<lambda>_.
       case network of None \<Rightarrow> Inr () | Some net \<Rightarrow> validate_network_duplicates U build name dialect net)"

definition validate_workspace_root :: "string \<Rightarrow> string \<Rightarrow> path_dialect \<Rightarrow> (config_error, unit) rust_result" where
  "validate_workspace_root profile root dialect =
     (if root = [] then Inl (invalid_value profile ''workspace_roots'' ''path must not be empty'')
      else if CHR 0x00 \<in> set root then Inl (invalid_value profile ''workspace_roots'' ''path must not contain a NUL character'')
      else if contains_parent_traversal_text root dialect
      then Inl (invalid_value profile ''workspace_roots'' ''path must not contain parent traversal'')
      else Inr ())"

text \<open>Two loops that check each entry before looking for its key.\<close>

definition checked_step ::
  "('a \<Rightarrow> (config_error, unit) rust_result) \<Rightarrow> ('a \<Rightarrow> 'k) \<Rightarrow> ('a \<Rightarrow> config_error) \<Rightarrow> 'k set \<Rightarrow> 'a \<Rightarrow> (config_error, 'k set) rust_result" where
  "checked_step check key err seen x =
     and_then (check x) (\<lambda>_. if key x \<in> seen then Inl (err x) else Inr (insert (key x) seen))"

definition validate_workspace_roots ::
  "unicode_data \<Rightarrow> string \<Rightarrow> (string \<times> bool) list \<Rightarrow> path_dialect \<Rightarrow> (config_error, unit) rust_result" where
  "validate_workspace_roots U profile values dialect =
     and_then (try_fold (checked_step (\<lambda>root. validate_workspace_root profile root dialect)
          (\<lambda>root. platform_path_key_new U root dialect)
          (\<lambda>root. CfgInvalidValue profile ''workspace_roots'' ''duplicate path under target path semantics'' (Some root)))
        {} (map fst values)) (\<lambda>_. Inr ())"

definition validate_executable_root :: "string \<Rightarrow> path_dialect \<Rightarrow> string \<Rightarrow> (config_error, unit) rust_result" where
  "validate_executable_root profile dialect root =
     (if root = [] then Inl (invalid_value profile ''runtime.executable_roots'' ''path must not be empty'')
      else if CHR 0x00 \<in> set root
      then Inl (invalid_value profile ''runtime.executable_roots'' ''path must not contain a NUL character'')
      else if \<not> is_absolute_text root dialect
      then Inl (CfgInvalidValue profile ''runtime.executable_roots'' ''path must be absolute'' (Some root))
      else if contains_parent_traversal_text root dialect
      then Inl (CfgInvalidValue profile ''runtime.executable_roots'' ''path must not contain parent traversal'' (Some root))
      else Inr ())"

definition validate_runtime ::
  "unicode_data \<Rightarrow> string \<Rightarrow> raw_runtime option \<Rightarrow> platform_id option \<Rightarrow> (config_error, unit) rust_result" where
  "validate_runtime U profile runtime platform =
     (case runtime of
        None \<Rightarrow> Inr ()
      | Some r \<Rightarrow>
          (let dialect = config_path_dialect platform
           in and_then (try_fold (checked_step (validate_executable_root profile dialect) (\<lambda>root. platform_path_key_new U root dialect)
                (\<lambda>root. CfgInvalidValue profile ''runtime.executable_roots'' ''duplicate path under native semantics'' (Some root)))
              {} (rrun_executable_roots r)) (\<lambda>_. Inr ())))"

definition validate_environment :: "unicode_data \<Rightarrow> wild_matcher \<Rightarrow> string \<Rightarrow> raw_environment \<Rightarrow> (config_error, unit) rust_result" where
  "validate_environment U wild name env =
     and_then (reject_duplicates (\<lambda>(pattern, _). config_filter_key U wild pattern)
        (\<lambda>(pattern, _). CfgInvalidValue name ''command.environment.filters'' ''duplicate pattern ignoring case'' (Some pattern))
        (renv_filters env)) (\<lambda>_.
     and_then (reject_duplicates (\<lambda>(variable, _). environment_name_identity U variable)
        (\<lambda>(variable, _). CfgInvalidValue name ''command.environment'' ''duplicate set variable ignoring case'' (Some variable))
        (renv_set env)) (\<lambda>set_names.
     and_then (try_fold (\<lambda>seen variable.
          let key = environment_name_identity U variable
          in if key \<in> seen
             then Inl (CfgInvalidValue name ''command.environment.remove'' ''duplicate removed variable ignoring case'' (Some variable))
             else if key \<in> set_names
             then Inl (CfgInvalidValue name ''command.environment'' ''variable appears in both set and remove'' (Some variable))
             else Inr (insert key seen))
        {} (renv_remove env)) (\<lambda>_. Inr ())))"

definition validate_sections ::
  "unicode_data \<Rightarrow> glob_builder \<Rightarrow> string \<Rightarrow> path_dialect \<Rightarrow> platform_id option \<Rightarrow> 'p raw_platform_profile_scheme
     \<Rightarrow> (config_error, unit) rust_result" where
  "validate_sections U build name dialect platform p =
     and_then (validate_policy_duplicates U build name (rpp_filesystem p) (rpp_network p) dialect) (\<lambda>_.
     and_then (validate_approval name (rpp_approval p)) (\<lambda>_.
     and_then (validate_runtime U name (rpp_runtime p) platform) (\<lambda>_.
     validate_workspace_roots U name (rpp_workspace_roots p) dialect)))"

definition validate_profile ::
  "unicode_data \<Rightarrow> glob_builder \<Rightarrow> wild_matcher \<Rightarrow> unit \<Rightarrow> string \<times> raw_profile \<Rightarrow> (config_error, unit) rust_result" where
  "validate_profile U build wild u entry =
     (case entry of (name, profile) \<Rightarrow>
        and_then (validate_profile_name name) (\<lambda>_.
        and_then (validate_sections U build name native_dialect None profile) (\<lambda>_.
        and_then (try_fold (\<lambda>_ (platform, overlay).
            validate_sections U build name (config_path_dialect (Some platform)) (Some platform) overlay) () (rp_platforms profile)) (\<lambda>_.
        and_then (try_fold (checked_step validate_profile_name id
            (\<lambda>parent. CfgInvalidValue name ''inherits'' ''duplicate parent'' (Some parent))) {} (rp_inherits profile)) (\<lambda>_.
        case rpp_command profile of
          None \<Rightarrow> Inr ()
        | Some command \<Rightarrow> (case rcmd_environment command of None \<Rightarrow> Inr () | Some env \<Rightarrow> validate_environment U wild name env))))))"

definition validate_raw_config :: "unicode_data \<Rightarrow> glob_builder \<Rightarrow> wild_matcher \<Rightarrow> raw_config \<Rightarrow> (config_error, unit) rust_result" where
  "validate_raw_config U build wild config =
     and_then (case rc_default_profile config of
                 None \<Rightarrow> Inr ()
               | Some name \<Rightarrow>
                   and_then (validate_profile_name name) (\<lambda>_.
                     if map_of (rc_profiles config) name = None then Inl (CfgUnknownProfile name) else Inr ())) (\<lambda>_.
       try_fold (validate_profile U build wild) () (rc_profiles config))"

end
