(* ===== verification/Config_Facts.thy ===== *)
theory Config_Facts
  imports Config_Resolve
begin

text \<open>
  What resolution of a profile guarantees. Resolution of every document returns; what it returns is well formed, and a
  write it permits goes back to a write rule declared in the profile or one of its ancestors. Merging keeps every keyed
  list free of duplicates, and validation accepts exactly the documents without ambiguous entries.
\<close>

section \<open>Rules come from the document\<close>

definition section_rules :: "'p raw_platform_profile_scheme \<Rightarrow> raw_filesystem_rule set" where
  "section_rules p = (case rpp_filesystem p of None \<Rightarrow> {} | Some fs \<Rightarrow> set (rfs_rules fs))"

definition declared_rules :: "platform_id option \<Rightarrow> raw_profile \<Rightarrow> raw_filesystem_rule set" where
  "declared_rules platform p =
     section_rules p \<union>
     (case platform of None \<Rightarrow> {}
      | Some pl \<Rightarrow> (case map_of (rp_platforms p) pl of None \<Rightarrow> {} | Some overlay \<Rightarrow> section_rules overlay))"

definition filesystem_rules :: "raw_filesystem option \<Rightarrow> raw_filesystem_rule set" where
  "filesystem_rules fs = (case fs of None \<Rightarrow> {} | Some fs \<Rightarrow> set (rfs_rules fs))"

abbreviation merged_rules :: "profile_merger \<Rightarrow> raw_filesystem_rule set" where
  "merged_rules m \<equiv> filesystem_rules (mp_filesystem (pm_merged m))"

lemma set_collapse_step_new: "set (fst (collapse_step key (\<lambda>_ new. new) st x)) \<subseteq> insert x (set (fst st))"
  using set_update_subset_insert by (fastforce simp: collapse_step_def split: prod.splits option.splits)

lemma set_upsert: "set (fst (upsert key st xs)) \<subseteq> set (fst st) \<union> set xs"
  unfolding upsert_def
proof (induction xs rule: rev_induct)
  case (snoc x xs)
  then show ?case using set_collapse_step_new [of key "foldl (collapse_step key (\<lambda>_ new. new)) st xs" x] by auto
qed simp

text \<open>Whether a child section replaces what was inherited.\<close>

abbreviation clears_filesystem :: "raw_filesystem \<Rightarrow> bool" where
  "clears_filesystem fs \<equiv> rfs_mode fs \<noteq> None \<and> rfs_mode fs \<noteq> Some FsRestricted"

abbreviation inherited_filesystem :: "profile_merger \<Rightarrow> raw_filesystem" where
  "inherited_filesystem m \<equiv> get_or raw_filesystem_default (mp_filesystem (pm_merged m))"

abbreviation upserted_rules ::
  "unicode_data \<Rightarrow> glob_builder \<Rightarrow> profile_merger \<Rightarrow> raw_filesystem \<Rightarrow> raw_filesystem_rule list \<times> (filesystem_rule_key \<rightharpoonup> nat)" where
  "upserted_rules U build m fs \<equiv>
     upsert (config_rule_key U build (pm_dialect m))
       (if clears_filesystem fs then [] else rfs_rules (inherited_filesystem m),
        if clears_filesystem fs then (\<lambda>_. None) else pm_filesystem_rules m) (rfs_rules fs)"

lemma merge_filesystem_rule_list:
  "map_option rfs_rules (mp_filesystem (pm_merged (merge_filesystem U build m fs))) = Some (fst (upserted_rules U build m fs))"
  by (cases "rfs_mode fs = None"; cases "rfs_mode fs = Some FsRestricted") (simp_all add: merge_filesystem_def Let_def case_prod_beta)

lemma inherited_rules: "set (rfs_rules (inherited_filesystem m)) = merged_rules m"
  by (simp add: get_or_def filesystem_rules_def raw_filesystem_default_def split: option.split)

lemma filesystem_rules_map: "map_option rfs_rules fs = Some rs \<Longrightarrow> filesystem_rules fs = set rs"
  by (auto simp: filesystem_rules_def)

lemma merge_filesystem_rules: "merged_rules (merge_filesystem U build m fs) \<subseteq> merged_rules m \<union> set (rfs_rules fs)"
proof -
  have "merged_rules (merge_filesystem U build m fs) = set (fst (upserted_rules U build m fs))"
    by (rule filesystem_rules_map [OF merge_filesystem_rule_list])
  then show ?thesis
    using set_upsert [of _ "(if clears_filesystem fs then [] else rfs_rules (inherited_filesystem m), _)"] inherited_rules [of m]
    by (fastforce split: if_splits)
qed


text \<open>The other sections leave the filesystem section alone.\<close>

lemma merge_other_filesystem:
  "mp_filesystem (pm_merged (merge_workspace_roots U m roots)) = mp_filesystem (pm_merged m)"
  "mp_filesystem (pm_merged (merge_network U build m net)) = mp_filesystem (pm_merged m)"
  "mp_filesystem (pm_merged (merge_local_ipc U m ipc)) = mp_filesystem (pm_merged m)"
  "mp_filesystem (pm_merged (merge_command U wild m cmd)) = mp_filesystem (pm_merged m)"
  "mp_filesystem (pm_merged (merge_approval m appr)) = mp_filesystem (pm_merged m)"
  "mp_filesystem (pm_merged (merge_runtime U m run)) = mp_filesystem (pm_merged m)"
proof -
  show "mp_filesystem (pm_merged (merge_workspace_roots U m roots)) = mp_filesystem (pm_merged m)"
    unfolding merge_workspace_roots_def
    by (induction roots arbitrary: m) (simp_all add: merge_workspace_root_def Let_def split: prod.split)
qed (simp_all add: merge_network_def clear_network_def merge_local_ipc_def merge_command_def merge_approval_def merge_runtime_def
      Let_def case_prod_beta)

lemma if_present_filesystem:
  "(\<And>m v. mp_filesystem (pm_merged (f m v)) = mp_filesystem (pm_merged m)) \<Longrightarrow>
     mp_filesystem (pm_merged (if_present f x m)) = mp_filesystem (pm_merged m)"
  by (simp add: if_present_def split: option.split)

lemma merge_sections_rules: "merged_rules (merge_sections U build wild p m) \<subseteq> merged_rules m \<union> section_rules p"
proof -
  let ?m = "merge_workspace_roots U m (rpp_workspace_roots p)"
  have "merged_rules (merge_sections U build wild p m) = merged_rules (if_present (merge_filesystem U build) (rpp_filesystem p) ?m)"
    by (simp add: merge_sections_def if_present_filesystem merge_other_filesystem)
  also have "\<dots> \<subseteq> merged_rules ?m \<union> section_rules p"
    using merge_filesystem_rules [of U build ?m] by (simp add: if_present_def section_rules_def split: option.split)
  finally show ?thesis by (simp add: merge_other_filesystem)
qed

lemma merger_apply_rules: "merged_rules (merger_apply U build wild platform m p) \<subseteq> merged_rules m \<union> declared_rules platform p"
proof -
  define m' where "m' = merge_sections U build wild p (m\<lparr>pm_merged := (pm_merged m)\<lparr>mp_description := rpp_description p\<rparr>\<rparr>)"
  have base: "merged_rules m' \<subseteq> merged_rules m \<union> section_rules p"
    using merge_sections_rules [of U build wild p "m\<lparr>pm_merged := (pm_merged m)\<lparr>mp_description := rpp_description p\<rparr>\<rparr>"]
    by (simp add: m'_def)
  have overlay: "merged_rules (apply_platform_overlay U build wild m' overlay) \<subseteq> merged_rules m' \<union> section_rules overlay" for overlay
    using merge_sections_rules [of U build wild overlay "m'\<lparr>pm_merged := (pm_merged m')\<lparr>mp_description :=
        present (rpp_description overlay) (mp_description (pm_merged m'))\<rparr>\<rparr>"]
    by (simp add: apply_platform_overlay_def)
  have "merger_apply U build wild platform m p =
      (case platform of None \<Rightarrow> m' | Some pl \<Rightarrow>
         (case map_of (rp_platforms p) pl of None \<Rightarrow> m' | Some overlay \<Rightarrow> apply_platform_overlay U build wild m' overlay))"
    unfolding merger_apply_def Let_def m'_def ..
  with base overlay show ?thesis unfolding declared_rules_def by (fastforce split: option.splits)
qed

lemma finish_filesystem: "mp_filesystem (merger_finish m) = mp_filesystem (pm_merged m)"
  by (simp add: merger_finish_def)


lemma resolve_order_returns:
  "\<exists>r. resolve_order ps name = Some r \<and>
     (case r of Inl e \<Rightarrow> resolution_failure ps name e | Inr order \<Rightarrow> resolution_order ps name order)"
proof (cases "map_of ps name = None")
  case True
  then show ?thesis by (simp add: resolve_order_def resolution_failure_def ancestors_def)
next
  case False
  then have "resolve_order ps name = resolve_loop ps (resolve_start name)" unfolding resolve_order_def by (rule if_not_P)
  then show ?thesis using resolve_loop_returns [OF resolve_start_inv [OF False]] by simp
qed

lemma resolve_raw_rules:
  assumes "resolve_raw U build wild config name platform = Some (Inr merged)" and "r \<in> filesystem_rules (mp_filesystem merged)"
  shows "\<exists>n p. n \<in> ancestors (rc_profiles config) name \<and> map_of (rc_profiles config) n = Some p \<and> r \<in> declared_rules platform p"
proof -
  let ?ps = "rc_profiles config"
  let ?P = "\<lambda>m. \<forall>r \<in> merged_rules m. \<exists>n p. n \<in> ancestors ?ps name \<and> map_of ?ps n = Some p \<and> r \<in> declared_rules platform p"
  from assms(1) obtain order m where order: "resolve_order ?ps name = Some (Inr order)"
    and m: "try_fold (apply_named U build wild ?ps platform) (merger_new (config_path_dialect platform)) order = Inr m"
    and merged: "merged = merger_finish m"
    unfolding resolve_raw_def by (auto simp: and_then_eq_Inr)
  from order have "set order = ancestors ?ps name"
    using resolve_order_returns [of ?ps name] by (simp add: resolution_order_def)
  moreover have "?P m"
  proof (rule try_fold_invariant [OF m, where P = ?P])
    show "?P (merger_new (config_path_dialect platform))"
      by (simp add: merger_new_def merged_default_def filesystem_rules_def)
  next
    fix m x m'
    assume x: "x \<in> set order" and P: "?P m" and step: "apply_named U build wild ?ps platform m x = Inr m'"
    then obtain p where p: "map_of ?ps x = Some p" "m' = merger_apply U build wild platform m p"
      by (auto simp: apply_named_def split: option.splits)
    have "x \<in> ancestors ?ps name" using x \<open>set order = ancestors ?ps name\<close> by simp
    then show "?P m'" using P p merger_apply_rules [of U build wild platform m p] by blast
  qed
  ultimately show ?thesis using assms(2) by (simp add: merged finish_filesystem)
qed

section \<open>Built policies\<close>

lemma build_target_rule:
  assumes "build_target build raw profile = Inr target" and "rule_from_target target access = Inr rule"
  shows "built_rule build rule"
proof (cases target)
  case (Scope s)
  with assms(2) have "rule = rule_new s access" by (simp add: rule_from_target_def rule_new_def is_glob_def)
  then show ?thesis by (simp add: built_rule.new)
next
  case (Glob g)
  obtain p constructor where p: "constructor p = Inr g" and c: "constructor = pattern_absolute build \<or> constructor = pattern_workspace build"
    using assms(1) Glob
    by (auto simp: build_target_def build_glob_def build_scope_def and_then_eq_Inr map_err_eq_Inr split: raw_filesystem_target.splits if_splits)
  from c show ?thesis
  proof
    assume "constructor = pattern_absolute build"
    with p assms(2) Glob have "rule_absolute_glob build p access = Inr rule" by (simp add: rule_absolute_glob_def)
    then show ?thesis by (rule built_rule.absolute_glob)
  next
    assume "constructor = pattern_workspace build"
    with p assms(2) Glob have "rule_workspace_glob build p access = Inr rule" by (simp add: rule_workspace_glob_def)
    then show ?thesis by (rule built_rule.workspace_glob)
  qed
qed

lemma build_filesystem_rule_Inr:
  assumes "build_filesystem_rule build raw profile = Inr rule"
  shows "built_rule build rule \<and> rule_access rule = rfr_access raw \<and> build_target build raw profile = Inr (rule_target rule)"
proof -
  from assms obtain target r0 where target: "build_target build raw profile = Inr target"
    and r0: "rule_from_target target (rfr_access raw) = Inr r0"
    and rule: "try_fold (\<lambda>rule selector. and_then (build_selector selector profile ''filesystem.rules.read_only_subpaths'')
          (\<lambda>s. map_err (CfgPolicy profile) (with_read_only_subpath rule s)))
        (case rfr_missing_path raw of None \<Rightarrow> r0 | Some b \<Rightarrow> with_missing_path_behavior r0 b) (rfr_read_only_subpaths raw) = Inr rule"
    unfolding build_filesystem_rule_def and_then_eq_Inr map_err_eq_Inr guard_eq_Inr Let_def by blast
  let ?P = "\<lambda>r. built_rule build r \<and> rule_access r = rfr_access raw \<and> rule_target r = target"
  have r0': "rule_access r0 = rfr_access raw" "rule_target r0 = target" using r0 by (auto simp: rule_from_target_def split: if_splits)
  have "?P rule"
  proof (rule try_fold_invariant [OF rule, where P = ?P])
    show "?P (case rfr_missing_path raw of None \<Rightarrow> r0 | Some b \<Rightarrow> with_missing_path_behavior r0 b)"
      using build_target_rule [OF target r0] r0'
      by (auto simp: with_missing_path_behavior_def intro: built_rule.missing [unfolded with_missing_path_behavior_def] split: option.split)
  next
    fix r s r'
    assume P: "?P r" and "and_then (build_selector s profile ''filesystem.rules.read_only_subpaths'')
        (\<lambda>s. map_err (CfgPolicy profile) (with_read_only_subpath r s)) = Inr r'"
    then obtain sel where sel: "with_read_only_subpath r sel = Inr r'" unfolding and_then_eq_Inr map_err_eq_Inr by blast
    have "built_rule build r'" using P built_rule.subpath [OF _ sel] by blast
    moreover have "rule_access r' = rule_access r \<and> rule_target r' = rule_target r"
      using sel by (auto simp: with_read_only_subpath_def and_then_eq_Inr split: if_splits)
    ultimately show "?P r'" using P by simp
  qed
  with target show ?thesis by simp
qed


lemma fs_updates_keep:
  "with_additional_protected_relative_path p path = Inr q \<Longrightarrow> fs_mode q = fs_mode p \<and> fs_entries q = fs_entries p"
  "with_glob_scan_max_depth p d = Inr q \<Longrightarrow> fs_mode q = fs_mode p \<and> fs_entries q = fs_entries p"
  "fs_mode (dangerously_allow_git_write p) = fs_mode p \<and> fs_entries (dangerously_allow_git_write p) = fs_entries p"
  "fs_with_rule p r = Inr q \<Longrightarrow> fs_mode q = fs_mode p \<and> fs_entries q = fs_entries p @ [r]"
  by (auto simp: with_additional_protected_relative_path_def with_glob_scan_max_depth_def dangerously_allow_git_write_def
      fs_with_rule_def and_then_eq_Inr split: if_splits)

lemma filesystem_rules_get: "set (rfs_rules (get_or raw_filesystem_default fs)) = filesystem_rules fs"
  by (simp add: get_or_def filesystem_rules_def raw_filesystem_default_def split: option.split)

definition declared_mode :: "raw_filesystem option \<Rightarrow> filesystem_mode" where
  "declared_mode fs = (case fs of None \<Rightarrow> FsRestricted | Some f \<Rightarrow> get_or FsRestricted (rfs_mode f))"

lemma declared_mode_get: "config_filesystem_mode (rfs_mode (get_or raw_filesystem_default fs)) = declared_mode fs"
  by (simp add: declared_mode_def config_filesystem_mode_def get_or_def raw_filesystem_default_def split: option.split)

lemma build_filesystem_Inr:
  assumes "build_filesystem build fs profile = Inr p"
  shows "built_policy build p \<and> fs_mode p = declared_mode fs \<and> fs_validate p = Inr () \<and>
    (\<forall>r \<in> set (fs_entries p). \<exists>raw \<in> filesystem_rules fs. build_filesystem_rule build raw profile = Inr r)"
proof -
  let ?raw = "get_or raw_filesystem_default fs"
  let ?P = "\<lambda>q. built_policy build q \<and> fs_mode q = declared_mode fs \<and>
    (\<forall>r \<in> set (fs_entries q). \<exists>raw \<in> filesystem_rules fs. build_filesystem_rule build raw profile = Inr r)"
  define base where "base = (case config_filesystem_mode (rfs_mode ?raw) of
    FsRestricted \<Rightarrow> fs_restricted [] | FsUnrestricted \<Rightarrow> fs_unrestricted | FsExternal \<Rightarrow> fs_external)"
  define git where "git q = (if get_or False (get_or None (rfs_security ?raw)) then dangerously_allow_git_write q else q)" for q
  from assms obtain p1 p2 u where p1: "try_fold (\<lambda>policy raw_rule. and_then (build_filesystem_rule build raw_rule profile)
        (\<lambda>rule. map_err (CfgPolicy profile) (fs_with_rule policy rule))) base (rfs_rules ?raw) = Inr p1"
    and p2: "try_fold (\<lambda>policy path. map_err (CfgPolicy profile) (with_additional_protected_relative_path policy path))
        p1 (rfs_additional_protected_paths ?raw) = Inr p2"
    and p3: "(case rfs_glob_scan_max_depth ?raw of None \<Rightarrow> Inr (git p2)
        | Some depth \<Rightarrow> (if depth = 0 then Inl (invalid_value profile ''filesystem.glob_scan_max_depth'' ''must be greater than zero'')
           else map_err (CfgPolicy profile) (with_glob_scan_max_depth (git p2) depth))) = Inr p"
    and ok: "fs_validate p = Inr u"
    unfolding build_filesystem_def Let_def and_then_eq_Inr map_err_eq_Inr sum.inject base_def git_def by blast
  have base: "?P base"
    unfolding base_def declared_mode_get
    using built_policy.restricted [of "[]" build]
    by (cases "declared_mode fs") (simp_all add: built_policy.unrestricted built_policy.external, simp_all add: fs_restricted_def fs_unrestricted_def fs_external_def)
  have "?P p1"
  proof (rule try_fold_invariant [where P = ?P, OF p1 base])
    fix q x q'
    assume x: "x \<in> set (rfs_rules ?raw)" and P: "?P q"
      and "and_then (build_filesystem_rule build x profile) (\<lambda>rule. map_err (CfgPolicy profile) (fs_with_rule q rule)) = Inr q'"
    then obtain rule where rule: "build_filesystem_rule build x profile = Inr rule" "fs_with_rule q rule = Inr q'"
      unfolding and_then_eq_Inr map_err_eq_Inr by blast
    have "built_policy build q'"
      using P build_filesystem_rule_Inr [OF rule(1)] built_policy.rule [OF _ _ rule(2)] by blast
    then show "?P q'"
      using P x rule(1) fs_updates_keep(4) [OF rule(2)] by (auto simp: filesystem_rules_get)
  qed
  have "?P p2"
  proof (rule try_fold_invariant [where P = ?P, OF p2 \<open>?P p1\<close>])
    fix q x q'
    assume P: "?P q" and "map_err (CfgPolicy profile) (with_additional_protected_relative_path q x) = Inr q'"
    then have x: "with_additional_protected_relative_path q x = Inr q'" by (simp add: map_err_eq_Inr)
    show "?P q'" using P built_policy.protect [OF _ x] fs_updates_keep(1) [OF x] by simp
  qed
  then have git: "?P (git p2)" using fs_updates_keep(3) [of p2] by (simp add: git_def built_policy.git)
  then have "?P p"
  proof (cases "rfs_glob_scan_max_depth ?raw")
    case (Some d)
    with p3 have d: "with_glob_scan_max_depth (git p2) d = Inr p" by (simp add: map_err_eq_Inr split: if_splits)
    show ?thesis using git built_policy.depth [OF _ d] fs_updates_keep(2) [OF d] by simp
  qed (use p3 in simp)
  with ok show ?thesis by simp
qed



text \<open>The mode of the network: a Unix endpoint needs the network namespace and enables a disabled network.\<close>

definition configured_network_mode :: "raw_network option \<Rightarrow> raw_local_ipc option \<Rightarrow> network_mode" where
  "configured_network_mode net ipc =
     (let mode = (case net of None \<Rightarrow> NetDisabled | Some n \<Rightarrow> get_or NetDisabled (rnet_mode n))
      in if mode = NetDisabled \<and> has_ipc_sockets ipc then NetEnabled else mode)"

lemma net_updates_keep:
  "with_domain build p pattern a = Inr q \<Longrightarrow> net_mode q = net_mode p"
  "with_unix_socket p path a = Inr q \<Longrightarrow> net_mode q = net_mode p"
  by (auto simp: with_domain_def with_unix_socket_def and_then_eq_Inr split: if_splits)

lemma with_local_ipc_Inr:
  assumes "with_local_ipc p e a = Inr q"
  shows "net_mode q = (if net_mode p = NetDisabled \<and> endpoint_unix_path e \<noteq> None then NetEnabled else net_mode p) \<and>
    net_domain_mode q = net_domain_mode p \<and> net_domains q = net_domains p"
proof (cases "endpoint_unix_path e")
  case None
  with assms show ?thesis by (auto simp: with_local_ipc_def and_then_eq_Inr Let_def split: if_splits)
next
  case (Some path)
  with assms show ?thesis
    by (auto simp: with_local_ipc_def add_unix_endpoint_def and_then_eq_Inr Let_def split: if_splits)
qed

lemma add_endpoints_Inr:
  assumes "add_endpoints constructor profile p xs = Inr q" and "built_network build p"
    and "\<And>name e. constructor name = Inr e \<Longrightarrow> endpoint_unix_path e \<noteq> None \<longleftrightarrow> unix"
  shows "built_network build q \<and> net_domain_mode q = net_domain_mode p \<and> net_domains q = net_domains p \<and>
    net_mode q = (if net_mode p = NetDisabled \<and> unix \<and> xs \<noteq> [] then NetEnabled else net_mode p)"
  using assms(1,2)
proof (induction xs arbitrary: p)
  case Nil
  then show ?case by (simp add: add_endpoints_def)
next
  case (Cons x xs)
  then obtain e p' where e: "constructor x = Inr e" and p': "with_local_ipc p e DomAllow = Inr p'"
    and rest: "add_endpoints constructor profile p' xs = Inr q"
    unfolding add_endpoints_def try_fold.simps and_then_eq_Inr map_err_eq_Inr by blast
  have "built_network build p'" by (rule built_network.local_ipc [OF Cons.prems(2) p'])
  from Cons.IH [OF rest this] with_local_ipc_Inr [OF p'] assms(3) [OF e] show ?case by auto
qed

lemma endpoint_kinds:
  "endpoint_unix_socket name = Inr e \<Longrightarrow> endpoint_unix_path e \<noteq> None \<longleftrightarrow> True"
  "endpoint_windows_named_pipe name = Inr e \<Longrightarrow> endpoint_unix_path e \<noteq> None \<longleftrightarrow> False"
  by (auto simp: endpoint_unix_socket_def endpoint_windows_named_pipe_def and_then_eq_Inr)

abbreviation base_network_mode :: "raw_network \<Rightarrow> raw_local_ipc option \<Rightarrow> network_mode" where
  "base_network_mode raw ipc \<equiv>
     config_network_mode (case rnet_mode raw of Some m \<Rightarrow> Some m | None \<Rightarrow> if has_ipc_sockets ipc then Some NetEnabled else None)"

lemma network_base_built: "built_network build (network_base raw ipc) \<and> net_mode (network_base raw ipc) = base_network_mode raw ipc"
proof -
  define mode where "mode = base_network_mode raw ipc"
  let ?P = "\<lambda>q. built_network build q \<and> net_mode q = mode"
  define p1 where "p1 = (case mode of NetDisabled \<Rightarrow> net_disabled | NetEnabled \<Rightarrow> net_enabled | NetExternal \<Rightarrow> net_external)"
  define p2 where "p2 = (if mode = NetEnabled \<and> has_ipc_sockets ipc then with_unix_socket_mode p1 SocketsRestricted else p1)"
  define p3 where "p3 = (case rnet_domain_mode raw of None \<Rightarrow> p2 | Some m \<Rightarrow> with_domain_mode p2 m)"
  define p4 where "p4 = (case rnet_unix_socket_mode raw of None \<Rightarrow> p3 | Some m \<Rightarrow> with_unix_socket_mode p3 m)"
  define p5 where "p5 = (case rnet_local_network_access raw of None \<Rightarrow> p4 | Some a \<Rightarrow> with_local_network_access p4 a)"
  have "?P p1"
    unfolding p1_def
    by (cases mode) (simp_all add: built_network.disabled built_network.enabled built_network.external,
      simp_all add: net_disabled_def net_enabled_def net_external_def)
  have steps: "?P q \<Longrightarrow> ?P (with_unix_socket_mode q s)" "?P q \<Longrightarrow> ?P (with_domain_mode q d)"
    "?P q \<Longrightarrow> ?P (with_local_network_access q a)" for q s d a
    using built_network.unix_socket_mode [of build q s] built_network.domain_mode [of build q d]
      built_network.local_network_access [of build q a]
    by (simp_all add: with_unix_socket_mode_def with_domain_mode_def with_local_network_access_def)
  from \<open>?P p1\<close> have "?P p2" using steps(1) [of p1 SocketsRestricted] by (simp add: p2_def)
  then have "?P p3" using steps(2) [of p2] by (cases "rnet_domain_mode raw") (simp_all add: p3_def)
  then have "?P p4" using steps(1) [of p3] by (cases "rnet_unix_socket_mode raw") (simp_all add: p4_def)
  then have "?P p5" using steps(3) [of p4] by (cases "rnet_local_network_access raw") (simp_all add: p5_def)
  moreover have "network_base raw ipc = p5"
    unfolding network_base_def Let_def p5_def p4_def p3_def p2_def p1_def mode_def ..
  ultimately show ?thesis by (simp add: mode_def)
qed

lemma build_network_Inr:
  assumes "build_network build net ipc profile = Inr p"
  shows "built_network build p \<and> net_validate p = Inr () \<and> net_mode p = configured_network_mode net ipc"
    and "net = None \<Longrightarrow> net_domains p = [] \<and> net_domain_mode p = (if has_ipc_sockets ipc then DomainEnabled else DomainDisabled)"
proof -
  let ?raw = "get_or raw_network_default net"
  let ?base = "network_base ?raw ipc"
  from assms obtain p1 p2 u where p1: "try_fold (\<lambda>policy r. map_err (CfgPolicy profile) (with_domain build policy (rdr_pattern r) (rdr_access r)))
        ?base (rnet_domains ?raw) = Inr p1"
    and p2: "try_fold (\<lambda>policy r. map_err (CfgPolicy profile) (with_unix_socket policy (rur_path r) (rur_access r)))
        p1 (rnet_unix_sockets ?raw) = Inr p2"
    and p3: "(case ipc of None \<Rightarrow> Inr p2 | Some i \<Rightarrow> and_then (add_endpoints endpoint_unix_socket profile p2 (ripc_unix_sockets i))
        (\<lambda>policy. add_endpoints endpoint_windows_named_pipe profile policy (ripc_named_pipes i))) = Inr p"
    and ok: "net_validate p = Inr u"
    unfolding build_network_def Let_def and_then_eq_Inr map_err_eq_Inr sum.inject by blast
  let ?P = "\<lambda>q. built_network build q \<and> net_mode q = base_network_mode ?raw ipc"
  have "?P p1"
  proof (rule try_fold_invariant [where P = ?P, OF p1])
    show "?P ?base" by (rule network_base_built)
  next
    fix q r q'
    assume P: "?P q" and "map_err (CfgPolicy profile) (with_domain build q (rdr_pattern r) (rdr_access r)) = Inr q'"
    then have q': "with_domain build q (rdr_pattern r) (rdr_access r) = Inr q'" by (simp only: map_err_eq_Inr)
    show "?P q'" using P built_network.domain [OF _ q'] net_updates_keep(1) [OF q'] by simp
  qed
  have "?P p2"
  proof (rule try_fold_invariant [where P = ?P, OF p2 \<open>?P p1\<close>])
    fix q r q'
    assume P: "?P q" and "map_err (CfgPolicy profile) (with_unix_socket q (rur_path r) (rur_access r)) = Inr q'"
    then have q': "with_unix_socket q (rur_path r) (rur_access r) = Inr q'" by (simp only: map_err_eq_Inr)
    show "?P q'" using P built_network.unix_socket [OF _ q'] net_updates_keep(2) [OF q'] by simp
  qed
  have final: "built_network build p \<and> net_domain_mode p = net_domain_mode p2 \<and> net_domains p = net_domains p2 \<and>
    net_mode p = (if net_mode p2 = NetDisabled \<and> has_ipc_sockets ipc then NetEnabled else net_mode p2)"
  proof (cases ipc)
    case None
    with p3 \<open>?P p2\<close> show ?thesis by (simp add: has_ipc_sockets_def)
  next
    case (Some i)
    with p3 obtain q where q: "add_endpoints endpoint_unix_socket profile p2 (ripc_unix_sockets i) = Inr q"
      and q': "add_endpoints endpoint_windows_named_pipe profile q (ripc_named_pipes i) = Inr p"
      by (auto simp: and_then_eq_Inr)
    have p2: "built_network build p2" using \<open>?P p2\<close> by simp
    note a = add_endpoints_Inr [where unix = True, OF q p2 endpoint_kinds(1)]
    then have "built_network build q" by simp
    note b = add_endpoints_Inr [where unix = False, OF q' this endpoint_kinds(2)]
    from a b Some show ?thesis by (simp add: has_ipc_sockets_def)
  qed
  have "net_mode p = configured_network_mode net ipc"
    using final \<open>?P p2\<close>
    by (simp add: configured_network_mode_def config_network_mode_def get_or_def raw_network_default_def Let_def split: option.split)
  with final ok show "built_network build p \<and> net_validate p = Inr () \<and> net_mode p = configured_network_mode net ipc" by simp
  show "net_domains p = [] \<and> net_domain_mode p = (if has_ipc_sockets ipc then DomainEnabled else DomainDisabled)" if "net = None"
    using that p1 p2 final
    by (auto simp: get_or_def raw_network_default_def network_base_def config_network_mode_def Let_def net_enabled_def net_disabled_def
        with_unix_socket_mode_def)
qed


section \<open>Built commands and gateway settings\<close>

lemma build_environment_Inr:
  assumes "build_environment U wild raw profile = Inr e"
  shows "built_environment U wild e"
proof -
  let ?P = "built_environment U wild"
  define base where "base = (case get_or EnvCore (renv_inherit raw) of EnvAll \<Rightarrow> inherit_all | EnvCore \<Rightarrow> inherit_core | EnvNone \<Rightarrow> spec_empty)"
  from assms obtain e1 e2 where e1: "try_fold (\<lambda>e (pattern, action). map_err (CfgCommand profile) (with_filter U wild e pattern action))
        base (renv_filters raw) = Inr e1"
    and e2: "try_fold (\<lambda>e (name, value). map_err (CfgCommand profile) (with_var U e name value)) e1 (renv_set raw) = Inr e2"
    and e3: "try_fold (\<lambda>e name. map_err (CfgCommand profile) (without_var U e name)) e2 (renv_remove raw) = Inr e"
    unfolding build_environment_def Let_def and_then_eq_Inr base_def by blast
  have base: "?P base" unfolding base_def by (cases "get_or EnvCore (renv_inherit raw)") (simp_all add: built_environment.intros)
  have "?P e1"
    by (rule try_fold_invariant [where P = ?P, OF e1 base]) (auto simp: map_err_eq_Inr intro: built_environment.filter)
  then have "?P e2"
    by (rule try_fold_invariant [where P = ?P, OF e2]) (auto simp: map_err_eq_Inr intro: built_environment.var)
  then show ?thesis
    by (rule try_fold_invariant [where P = ?P, OF e3]) (auto simp: map_err_eq_Inr intro: built_environment.removal)
qed

lemma build_command_Inr:
  assumes "build_command U wild raw profile = Inr (Some request)"
  shows "built_request U wild request"
proof -
  let ?P = "built_request U wild"
  obtain r where r: "raw = Some r" using assms by (auto simp: build_command_def split: option.splits)
  obtain program where program: "rcmd_program r = Some program" using assms r by (auto simp: build_command_def split: option.splits)
  from assms obtain c c' q1 q2 q3 where c: "command_new program = Inr c"
    and c': "(case rcmd_args r of None \<Rightarrow> Inr c | Some args \<Rightarrow> map_err (CfgCommand profile) (with_args c args)) = Inr c'"
    and q1: "(case rcmd_working_directory r of None \<Rightarrow> Inr (request_new c')
        | Some d \<Rightarrow> map_err (CfgCommand profile) (with_working_directory (request_new c') d)) = Inr q1"
    and q2: "(case rcmd_environment r of None \<Rightarrow> Inr q1
        | Some e \<Rightarrow> and_then (build_environment U wild e profile) (\<lambda>e. Inr (with_environment q1 e))) = Inr q2"
    and q3: "(case rcmd_timeout r of None \<Rightarrow> Inr (case rcmd_stdio r of None \<Rightarrow> q2 | Some s \<Rightarrow> with_stdio q2 (build_stdio s))
        | Some t \<Rightarrow> and_then (build_timeout t profile)
            (\<lambda>t. Inr (with_timeout_policy (case rcmd_stdio r of None \<Rightarrow> q2 | Some s \<Rightarrow> with_stdio q2 (build_stdio s)) t))) = Inr q3"
    and request: "request = q3"
    unfolding r build_command_def Let_def option.case program and_then_eq_Inr map_err_eq_Inr sum.inject option.inject by blast
  have "built_command c'"
    using c' built_command.new [OF c] by (auto simp: map_err_eq_Inr intro: built_command.args split: option.splits)
  then have "?P q1"
    using q1 by (auto simp: map_err_eq_Inr intro: built_request.new built_request.directory split: option.splits)
  then have "?P q2"
    using q2 by (auto simp: and_then_eq_Inr intro: built_request.environment build_environment_Inr split: option.splits)
  then have "?P (case rcmd_stdio r of None \<Rightarrow> q2 | Some s \<Rightarrow> with_stdio q2 (build_stdio s))"
    by (auto intro: built_request.stdio split: option.split)
  then have "?P q3"
    using q3 by (auto simp: and_then_eq_Inr intro: built_request.timeout split: option.splits)
  then show ?thesis by (simp add: request)
qed

lemma set_timeout_built:
  assumes "set_timeout setter field profile v c = Inr c'" and "built_config c"
    and "\<And>c t c'. built_config c \<Longrightarrow> setter c t = Inr c' \<Longrightarrow> built_config c'"
  shows "built_config c'"
  using assms by (auto simp: set_timeout_def and_then_eq_Inr map_err_eq_Inr split: option.splits)

lemma set_limit_built:
  assumes "set_limit setter field profile v c = Inr c'" and "built_config c"
    and "\<And>c n c'. built_config c \<Longrightarrow> 0 < n \<Longrightarrow> setter c n = Inr c' \<Longrightarrow> built_config c'"
  shows "built_config c'"
  using assms by (auto simp: set_limit_def nonzero_usize_def and_then_eq_Inr map_err_eq_Inr split: option.splits if_splits)

lemma set_byte_limit_built: "set_byte_limit profile v c = Inr c' \<Longrightarrow> built_config c \<Longrightarrow> built_config c'"
  by (auto simp: set_byte_limit_def intro: built_config.limited built_config.unlimited
      split: option.splits raw_relay_byte_limit.splits if_splits)

lemma build_gateway_config_Inr:
  assumes "build_gateway_config raw profile = Inr c"
  shows "built_config c"
  using assms unfolding build_gateway_config_def Let_def and_then_eq_Inr
  apply (elim exE conjE)
  apply (erule set_byte_limit_built)
  apply (erule set_limit_built)
   apply (erule set_limit_built)
    apply (erule set_limit_built)
     apply (erule set_limit_built)
      apply (erule set_timeout_built)
       apply (erule set_timeout_built)
        apply (erule set_timeout_built)
         apply (erule set_timeout_built)
          apply (erule set_timeout_built)
           apply (rule built_config.default)
          apply (blast intro: built_config.intros)+
  done

lemma build_approval_Inr: "build_approval a profile = Inr c \<Longrightarrow> 0 < appr_timeout_ms c"
  by (auto simp: build_approval_def approval_default_def approval_new_def map_err_eq_Inr split: option.splits if_splits)


section \<open>Validation\<close>

lemma checked_fold_Inr:
  "try_fold (checked_step check key err) seen xs = Inr t \<longleftrightarrow>
     (\<forall>x \<in> set xs. check x = Inr ()) \<and> distinct (map key xs) \<and> key ` set xs \<inter> seen = {} \<and> t = seen \<union> key ` set xs"
proof (induction xs arbitrary: seen)
  case (Cons x xs)
  show ?case
    unfolding try_fold.simps checked_step_def [of check key err seen x] and_then_eq_Inr guard_eq_Inr sum.inject
    using Cons by (cases "check x") auto
qed auto

lemma reject_duplicates_Inr: "reject_duplicates key err xs = Inr t \<longleftrightarrow> distinct (map key xs) \<and> t = key ` set xs"
proof -
  have "reject_duplicates key err xs = try_fold (checked_step (\<lambda>_. Inr ()) key err) {} xs"
    unfolding reject_duplicates_def checked_step_def by simp
  then show ?thesis by (simp add: checked_fold_Inr)
qed

definition valid_name :: "string \<Rightarrow> bool" where
  "valid_name name \<longleftrightarrow> name \<noteq> [] \<and> (is_ascii_alphabetic (hd name) \<or> is_ascii_digit (hd name)) \<and>
     (\<forall>c \<in> set name. is_ascii_alphabetic c \<or> is_ascii_digit c \<or> c = CHR ''-'' \<or> c = CHR ''_'')"

definition valid_root :: "path_dialect \<Rightarrow> string \<Rightarrow> bool" where
  "valid_root dialect root \<longleftrightarrow> root \<noteq> [] \<and> CHR 0x00 \<notin> set root \<and> \<not> contains_parent_traversal_text root dialect"

text \<open>The sections of a profile or overlay under a path dialect: no entry twice under its identity, roots that are safe.\<close>

definition valid_sections :: "unicode_data \<Rightarrow> glob_builder \<Rightarrow> path_dialect \<Rightarrow> 'p raw_platform_profile_scheme \<Rightarrow> bool" where
  "valid_sections U build dialect p \<longleftrightarrow>
     (let path_key = (\<lambda>path. platform_path_key_new U path dialect)
      in (\<forall>fs. rpp_filesystem p = Some fs \<longrightarrow>
            distinct (map (config_rule_key U build dialect) (rfs_rules fs)) \<and> distinct (map path_key (rfs_additional_protected_paths fs))) \<and>
         (\<forall>net. rpp_network p = Some net \<longrightarrow>
            distinct (map (\<lambda>r. config_domain_key build (rdr_pattern r)) (rnet_domains net)) \<and>
            distinct (map (\<lambda>r. path_key (rur_path r)) (rnet_unix_sockets net))) \<and>
         (\<forall>a. rpp_approval p = Some a \<longrightarrow> rapp_timeout_ms a \<noteq> Some 0) \<and>
         (\<forall>r. rpp_runtime p = Some r \<longrightarrow>
            distinct (map path_key (rrun_executable_roots r)) \<and>
            (\<forall>root \<in> set (rrun_executable_roots r). valid_root dialect root \<and> is_absolute_text root dialect)) \<and>
         distinct (map (\<lambda>e. path_key (fst e)) (rpp_workspace_roots p)) \<and>
         (\<forall>e \<in> set (rpp_workspace_roots p). valid_root dialect (fst e)))"

definition valid_environment :: "unicode_data \<Rightarrow> wild_matcher \<Rightarrow> raw_environment \<Rightarrow> bool" where
  "valid_environment U wild env \<longleftrightarrow>
     distinct (map (\<lambda>e. config_filter_key U wild (fst e)) (renv_filters env)) \<and>
     distinct (map (environment_name_identity U) (map fst (renv_set env) @ renv_remove env))"

definition valid_profile :: "unicode_data \<Rightarrow> glob_builder \<Rightarrow> wild_matcher \<Rightarrow> string \<times> raw_profile \<Rightarrow> bool" where
  "valid_profile U build wild entry \<longleftrightarrow>
     (let p = snd entry
      in valid_name (fst entry) \<and> valid_sections U build native_dialect p \<and>
         (\<forall>o' \<in> set (rp_platforms p). valid_sections U build (config_path_dialect (Some (fst o'))) (snd o')) \<and>
         distinct (rp_inherits p) \<and> (\<forall>n \<in> set (rp_inherits p). valid_name n) \<and>
         (\<forall>c env. rpp_command p = Some c \<longrightarrow> rcmd_environment c = Some env \<longrightarrow> valid_environment U wild env))"

definition valid_document :: "unicode_data \<Rightarrow> glob_builder \<Rightarrow> wild_matcher \<Rightarrow> raw_config \<Rightarrow> bool" where
  "valid_document U build wild config \<longleftrightarrow>
     (\<forall>n. rc_default_profile config = Some n \<longrightarrow> valid_name n \<and> n \<in> fst ` set (rc_profiles config)) \<and>
     (\<forall>entry \<in> set (rc_profiles config). valid_profile U build wild entry)"

lemma validate_profile_name_Inr: "validate_profile_name name = Inr () \<longleftrightarrow> valid_name name"
  by (simp add: validate_profile_name_def valid_name_def list_all_iff)

lemma validate_environment_Inr: "validate_environment U wild name env = Inr () \<longleftrightarrow> valid_environment U wild env"
proof -
  let ?id = "environment_name_identity U"
  let ?names = "?id ` fst ` set (renv_set env)"
  have remove: "try_fold (\<lambda>seen variable.
        let key = ?id variable
        in if key \<in> seen then Inl (CfgInvalidValue name ''command.environment.remove'' ''duplicate removed variable ignoring case'' (Some variable))
           else if key \<in> set_names then Inl (CfgInvalidValue name ''command.environment'' ''variable appears in both set and remove'' (Some variable))
           else Inr (insert key seen)) seen xs = Inr t \<longleftrightarrow>
      distinct (map ?id xs) \<and> ?id ` set xs \<inter> (seen \<union> set_names) = {} \<and> t = seen \<union> ?id ` set xs" for set_names seen xs t
  proof (induction xs arbitrary: seen)
    case (Cons x xs)
    show ?case unfolding try_fold.simps Let_def and_then_eq_Inr guard_eq_Inr sum.inject using Cons [unfolded Let_def] by auto
  qed auto
  have fst_keys: "map (\<lambda>(v, _). f v) es = map (\<lambda>e. f (fst e)) es" "(\<lambda>(v, _). f v) ` S = f ` fst ` S" for f es S
    by (auto simp: case_prod_beta image_image)
  show ?thesis
    unfolding validate_environment_def and_then_eq_Inr reject_duplicates_Inr remove fst_keys valid_environment_def
    by (auto simp: comp_def image_image)
qed

lemma validate_roots_Inr:
  "validate_workspace_root profile root dialect = Inr () \<longleftrightarrow> valid_root dialect root"
  "validate_executable_root profile dialect root = Inr () \<longleftrightarrow> valid_root dialect root \<and> is_absolute_text root dialect"
  by (auto simp: validate_workspace_root_def validate_executable_root_def valid_root_def)

lemma validate_sections_Inr:
  assumes "dialect = config_path_dialect platform"
  shows "validate_sections U build name dialect platform p = Inr () \<longleftrightarrow> valid_sections U build dialect p"
proof -
  have fs: "(case rpp_filesystem p of None \<Rightarrow> Inr () | Some fs \<Rightarrow> validate_filesystem_duplicates U build name dialect fs) = Inr () \<longleftrightarrow>
      (\<forall>fs. rpp_filesystem p = Some fs \<longrightarrow> distinct (map (config_rule_key U build dialect) (rfs_rules fs)) \<and>
         distinct (map (\<lambda>path. platform_path_key_new U path dialect) (rfs_additional_protected_paths fs)))"
    by (auto simp: validate_filesystem_duplicates_def and_then_eq_Inr reject_duplicates_Inr split: option.splits)
  have net: "(case rpp_network p of None \<Rightarrow> Inr () | Some net \<Rightarrow> validate_network_duplicates U build name dialect net) = Inr () \<longleftrightarrow>
      (\<forall>net. rpp_network p = Some net \<longrightarrow> distinct (map (\<lambda>r. config_domain_key build (rdr_pattern r)) (rnet_domains net)) \<and>
         distinct (map (\<lambda>r. platform_path_key_new U (rur_path r) dialect) (rnet_unix_sockets net)))"
    by (auto simp: validate_network_duplicates_def and_then_eq_Inr reject_duplicates_Inr split: option.splits)
  have approval: "validate_approval name a = Inr () \<longleftrightarrow> (\<forall>v. a = Some v \<longrightarrow> rapp_timeout_ms v \<noteq> Some 0)" for a
    by (auto simp: validate_approval_def)
  have runtime: "validate_runtime U name r platform = Inr () \<longleftrightarrow> (\<forall>v. r = Some v \<longrightarrow>
      distinct (map (\<lambda>path. platform_path_key_new U path dialect) (rrun_executable_roots v)) \<and>
      (\<forall>root \<in> set (rrun_executable_roots v). valid_root dialect root \<and> is_absolute_text root dialect))" for r
    by (auto simp: validate_runtime_def assms [symmetric] and_then_eq_Inr checked_fold_Inr validate_roots_Inr Let_def split: option.splits)
  have roots: "validate_workspace_roots U name ws dialect = Inr () \<longleftrightarrow>
      distinct (map (\<lambda>e. platform_path_key_new U (fst e) dialect) ws) \<and> (\<forall>e \<in> set ws. valid_root dialect (fst e))" for ws
    by (auto simp: validate_workspace_roots_def and_then_eq_Inr checked_fold_Inr validate_roots_Inr comp_def)
  show ?thesis
    unfolding validate_sections_def validate_policy_duplicates_def and_then_eq_Inr valid_sections_def Let_def
      fs [symmetric] net [symmetric] approval [symmetric] runtime [symmetric] roots
    by auto
qed


lemma try_fold_units_Inr:
  "(\<And>x. f () x = Inr () \<longleftrightarrow> P x) \<Longrightarrow> try_fold f () xs = Inr () \<longleftrightarrow> (\<forall>x \<in> set xs. P x)"
  by (induction xs) (auto simp: and_then_eq_Inr)

lemma validate_profile_Inr: "validate_profile U build wild () entry = Inr () \<longleftrightarrow> valid_profile U build wild entry"
proof -
  obtain name p where entry: "entry = (name, p)" by (rule prod.exhaust)
  have overlays: "try_fold (\<lambda>_ (platform, overlay).
        validate_sections U build name (config_path_dialect (Some platform)) (Some platform) overlay) () os = Inr () \<longleftrightarrow>
      (\<forall>o' \<in> set os. valid_sections U build (config_path_dialect (Some (fst o'))) (snd o'))" for os
    by (rule try_fold_units_Inr) (simp add: case_prod_beta validate_sections_Inr)
  have env: "(case rpp_command p of None \<Rightarrow> Inr ()
      | Some c \<Rightarrow> (case rcmd_environment c of None \<Rightarrow> Inr () | Some env \<Rightarrow> validate_environment U wild name env)) = Inr () \<longleftrightarrow>
      (\<forall>c env. rpp_command p = Some c \<longrightarrow> rcmd_environment c = Some env \<longrightarrow> valid_environment U wild env)"
    by (auto simp: validate_environment_Inr split: option.splits)
  have base: "validate_sections U build name native_dialect None p = Inr () \<longleftrightarrow> valid_sections U build native_dialect p"
    by (rule validate_sections_Inr) simp
  show ?thesis
    unfolding entry validate_profile_def prod.case and_then_eq_Inr valid_profile_def fst_conv snd_conv Let_def
      env [symmetric] overlays [symmetric] base [symmetric] checked_fold_Inr validate_profile_name_Inr [symmetric]
    by auto
qed

section \<open>Merging keeps identities unique\<close>

interpretation upserted: keyed_merge key "\<lambda>_ new. new" for key :: "'r \<Rightarrow> 'k"
  by unfold_locales simp

abbreviation positions_ok :: "('r \<Rightarrow> 'k) \<Rightarrow> 'r list \<times> ('k \<rightharpoonup> nat) \<Rightarrow> bool" where
  "positions_ok \<equiv> keyed_merge.collapsed"

lemma upsert_ok: "positions_ok key p \<Longrightarrow> positions_ok key (upsert key p xs)"
  unfolding upsert_def by (induction xs arbitrary: p) (simp_all add: upserted.collapsed_step)

lemma positions_ok_empty: "positions_ok key ([], \<lambda>_. None)"
  by (simp add: upserted.collapsed_def)

lemma positions_ok_distinct: "positions_ok key (xs, p) \<Longrightarrow> distinct (map key xs)"
  by (simp add: upserted.collapsed_def)

text \<open>A map from identities to the spelling under which the entry is stored.\<close>

definition spelling_ok :: "(string \<Rightarrow> 'k) \<Rightarrow> (string \<times> 'v) list \<times> ('k \<rightharpoonup> string) \<Rightarrow> bool" where
  "spelling_ok key st \<longleftrightarrow> bt_sorted id (fst st) \<and> (\<forall>k s. snd st k = Some s \<longleftrightarrow> s \<in> fst ` set (fst st) \<and> key s = k)"

definition respell :: "(string \<Rightarrow> 'k) \<Rightarrow> (string \<times> 'v) list \<times> ('k \<rightharpoonup> string) \<Rightarrow> string \<times> 'v \<Rightarrow> (string \<times> 'v) list \<times> ('k \<rightharpoonup> string)" where
  "respell key st e =
     (bt_insert id (fst e) (snd e) (case snd st (key (fst e)) of None \<Rightarrow> fst st | Some old \<Rightarrow> bt_remove id old (fst st)),
      (snd st)(key (fst e) \<mapsto> fst e))"

lemma respell_ok:
  assumes "spelling_ok key st"
  shows "spelling_ok key (respell key st e)"
proof -
  obtain s v where e: "e = (s, v)" by (rule prod.exhaust)
  let ?rest = "case snd st (key s) of None \<Rightarrow> fst st | Some old \<Rightarrow> bt_remove id old (fst st)"
  have sorted: "bt_sorted id ?rest"
    using assms by (auto simp: spelling_ok_def bt_sorted_remove split: option.split)
  have names: "x \<in> fst ` set ?rest \<longleftrightarrow> x \<in> fst ` set (fst st) \<and> key x \<noteq> key s" for x
  proof (cases "snd st (key s)")
    case None
    with assms show ?thesis unfolding spelling_ok_def by (metis option.distinct(1) option.simps(4))
  next
    case (Some old)
    then have "\<And>y. y \<in> fst ` set (fst st) \<Longrightarrow> key y = key s \<longleftrightarrow> y = old"
      using assms unfolding spelling_ok_def by (metis option.inject)
    with Some show ?thesis by (auto simp: set_bt_remove)
  qed
  have "fst ` set (bt_insert id s v ?rest) = insert s (fst ` set ?rest)"
    using keys_bt_insert [of id s v ?rest] by simp
  then have inserted: "x \<in> fst ` set (bt_insert id s v ?rest) \<longleftrightarrow> x = s \<or> (x \<in> fst ` set (fst st) \<and> key x \<noteq> key s)" for x
    using names by simp
  have "((snd st)(key s \<mapsto> s)) k = Some x \<longleftrightarrow> x \<in> fst ` set (bt_insert id s v ?rest) \<and> key x = k" for k x
    unfolding inserted using assms by (auto simp: spelling_ok_def)
  with bt_sorted_insert [OF sorted, of s v] show ?thesis
    by (simp add: spelling_ok_def respell_def e)
qed

lemma spelling_ok_distinct:
  assumes "spelling_ok key (es, m)"
  shows "distinct (map (\<lambda>e. key (fst e)) es)"
proof -
  have "distinct (map fst es)" using assms bt_sorted_distinct [of id es] by (simp add: spelling_ok_def)
  moreover have "inj_on key (fst ` set es)"
    using assms by (auto simp: spelling_ok_def inj_on_def) (metis fst_conv image_eqI option.inject)
  ultimately have "distinct (map key (map fst es))" by (simp only: distinct_map [of key] list.set_map simp_thms)
  then show ?thesis by (simp add: comp_def)
qed


text \<open>What the merger stores of each keyed list, beside the index it keeps for it.\<close>

definition fs_part :: "profile_merger \<Rightarrow> (raw_filesystem_rule list \<times> (filesystem_rule_key \<rightharpoonup> nat)) \<times> (platform_path_key set \<times> string list)" where
  "fs_part m = (let fs = get_or raw_filesystem_default (mp_filesystem (pm_merged m))
     in ((rfs_rules fs, pm_filesystem_rules m), (pm_protected_paths m, rfs_additional_protected_paths fs)))"

definition net_part ::
  "profile_merger \<Rightarrow> (raw_domain_rule list \<times> (string \<rightharpoonup> nat)) \<times> (raw_unix_socket_rule list \<times> (platform_path_key \<rightharpoonup> nat))" where
  "net_part m = (let net = get_or raw_network_default (mp_network (pm_merged m))
     in ((rnet_domains net, pm_domain_rules m), (rnet_unix_sockets net, pm_unix_sockets m)))"

definition ipc_part :: "profile_merger \<Rightarrow> (string list \<times> (platform_path_key \<rightharpoonup> nat)) \<times> (string list \<times> (string \<rightharpoonup> nat))" where
  "ipc_part m = (let ipc = get_or raw_local_ipc_default (mp_local_ipc (pm_merged m))
     in ((ripc_unix_sockets ipc, pm_local_ipc_unix_sockets m), (ripc_named_pipes ipc, pm_local_ipc_named_pipes m)))"

definition run_part :: "profile_merger \<Rightarrow> string list \<times> (platform_path_key \<rightharpoonup> nat)" where
  "run_part m = (rrun_executable_roots (get_or \<lparr>rrun_executable_roots = []\<rparr> (mp_runtime (pm_merged m))), pm_executable_roots m)"

definition roots_part :: "profile_merger \<Rightarrow> (string \<times> bool) list \<times> (platform_path_key \<rightharpoonup> string)" where
  "roots_part m = (mp_workspace_roots (pm_merged m), pm_workspace_roots m)"

definition merged_environment :: "profile_merger \<Rightarrow> raw_environment" where
  "merged_environment m =
     get_or raw_environment_default (rcmd_environment (get_or raw_command_default (mp_command (pm_merged m))))"

definition env_part ::
  "profile_merger \<Rightarrow> ((string \<times> environment_filter_action) list \<times> (environment_filter_key \<rightharpoonup> string)) \<times>
     (environment_name_key \<times> string \<times> string option) list" where
  "env_part m = ((renv_filters (merged_environment m), pm_environment_filters m), pm_environment_overrides m)"

definition overrides_ok :: "unicode_data \<Rightarrow> (environment_name_key \<times> string \<times> string option) list \<Rightarrow> bool" where
  "overrides_ok U os \<longleftrightarrow> bt_sorted name_key_rank os \<and> (\<forall>e \<in> set os. environment_name_identity U (fst (snd e)) = fst e)"

definition merger_ok :: "unicode_data \<Rightarrow> glob_builder \<Rightarrow> wild_matcher \<Rightarrow> profile_merger \<Rightarrow> bool" where
  "merger_ok U build wild m \<longleftrightarrow>
     (let path_key = (\<lambda>path. platform_path_key_new U path (pm_dialect m))
      in positions_ok (config_rule_key U build (pm_dialect m)) (fst (fs_part m)) \<and> keyed_list path_key (snd (fs_part m)) \<and>
         positions_ok (\<lambda>r. config_domain_key build (rdr_pattern r)) (fst (net_part m)) \<and>
         positions_ok (\<lambda>r. path_key (rur_path r)) (snd (net_part m)) \<and>
         positions_ok path_key (fst (ipc_part m)) \<and> positions_ok ascii_lower (snd (ipc_part m)) \<and>
         positions_ok path_key (run_part m) \<and> spelling_ok path_key (roots_part m) \<and>
         spelling_ok (config_filter_key U wild) (fst (env_part m)) \<and> overrides_ok U (snd (env_part m)))"

lemmas part_defs = fs_part_def net_part_def ipc_part_def run_part_def roots_part_def env_part_def merged_environment_def

definition same_parts :: "profile_merger \<Rightarrow> profile_merger \<Rightarrow> bool" where
  "same_parts m m' \<longleftrightarrow>
     pm_dialect m' = pm_dialect m \<and> fs_part m' = fs_part m \<and> net_part m' = net_part m \<and> ipc_part m' = ipc_part m \<and>
     run_part m' = run_part m \<and> roots_part m' = roots_part m \<and> env_part m' = env_part m"

lemma same_parts_ok: "same_parts m m' \<Longrightarrow> merger_ok U build wild m' = merger_ok U build wild m"
  by (simp add: same_parts_def merger_ok_def)

lemma merger_new_ok: "merger_ok U build wild (merger_new d)"
  by (simp add: merger_ok_def part_defs merger_new_def merged_default_def get_or_def positions_ok_empty spelling_ok_def overrides_ok_def
      raw_filesystem_default_def raw_network_default_def raw_local_ipc_default_def raw_environment_default_def raw_command_default_def Let_def)

lemma merge_runtime_ok: "merger_ok U build wild m \<Longrightarrow> merger_ok U build wild (merge_runtime U m run)"
proof -
  let ?m = "merge_runtime U m run"
  have parts: "pm_dialect ?m = pm_dialect m" "fs_part ?m = fs_part m" "net_part ?m = net_part m" "ipc_part ?m = ipc_part m"
    "run_part ?m = upsert (\<lambda>path. platform_path_key_new U path (pm_dialect m)) (run_part m) (rrun_executable_roots run)"
    "roots_part ?m = roots_part m" "env_part ?m = env_part m"
    by (simp_all add: merge_runtime_def part_defs Let_def case_prod_beta get_or_def [of _ "Some _"])
  assume "merger_ok U build wild m"
  then show ?thesis unfolding merger_ok_def Let_def parts by (simp add: upsert_ok)
qed

lemma merge_approval_ok: "merger_ok U build wild m \<Longrightarrow> merger_ok U build wild (merge_approval m a)"
proof -
  have "same_parts m (merge_approval m a)" by (simp add: same_parts_def merge_approval_def part_defs Let_def)
  then show "merger_ok U build wild m \<Longrightarrow> ?thesis" by (simp add: same_parts_ok)
qed

lemma merge_local_ipc_ok: "merger_ok U build wild m \<Longrightarrow> merger_ok U build wild (merge_local_ipc U m ipc)"
proof -
  let ?m = "merge_local_ipc U m ipc"
  have parts: "pm_dialect ?m = pm_dialect m" "fs_part ?m = fs_part m" "net_part ?m = net_part m"
    "fst (ipc_part ?m) = upsert (\<lambda>path. platform_path_key_new U path (pm_dialect m)) (fst (ipc_part m)) (ripc_unix_sockets ipc)"
    "snd (ipc_part ?m) = upsert ascii_lower (snd (ipc_part m)) (ripc_named_pipes ipc)"
    "run_part ?m = run_part m" "roots_part ?m = roots_part m" "env_part ?m = env_part m"
    by (simp_all add: merge_local_ipc_def part_defs Let_def case_prod_beta get_or_def [of _ "Some _"])
  assume "merger_ok U build wild m"
  then show ?thesis unfolding merger_ok_def Let_def parts by (simp add: upsert_ok)
qed


lemma merge_workspace_root_ok: "merger_ok U build wild m \<Longrightarrow> merger_ok U build wild (merge_workspace_root U m e)"
proof -
  let ?m = "merge_workspace_root U m e"
  have parts: "pm_dialect ?m = pm_dialect m" "fs_part ?m = fs_part m" "net_part ?m = net_part m" "ipc_part ?m = ipc_part m"
    "run_part ?m = run_part m" "roots_part ?m = respell (\<lambda>path. platform_path_key_new U path (pm_dialect m)) (roots_part m) e"
    "env_part ?m = env_part m"
    by (simp_all add: merge_workspace_root_def part_defs respell_def Let_def case_prod_beta split: option.split)
  assume "merger_ok U build wild m"
  then show ?thesis unfolding merger_ok_def Let_def parts by (simp add: respell_ok)
qed

lemma merge_workspace_roots_ok: "merger_ok U build wild m \<Longrightarrow> merger_ok U build wild (merge_workspace_roots U m es)"
  unfolding merge_workspace_roots_def by (induction es arbitrary: m) (simp_all add: merge_workspace_root_ok)

lemma push_unique_list_ok: "keyed_list key p \<Longrightarrow> keyed_list key (foldl (push_unique key) p xs)"
  by (induction xs arbitrary: p) (simp_all add: keyed_list_push_unique)

lemma merge_filesystem_ok: "merger_ok U build wild m \<Longrightarrow> merger_ok U build wild (merge_filesystem U build m fs)"
proof -
  let ?m = "merge_filesystem U build m fs"
  let ?rules = "if clears_filesystem fs then ([], \<lambda>_. None) else fst (fs_part m)"
  let ?protected = "if clears_filesystem fs then ({}, []) else snd (fs_part m)"
  have parts: "pm_dialect ?m = pm_dialect m"
    "fst (fs_part ?m) = upsert (config_rule_key U build (pm_dialect m)) ?rules (rfs_rules fs)"
    "snd (fs_part ?m) = foldl (push_unique (\<lambda>path. platform_path_key_new U path (pm_dialect m))) ?protected (rfs_additional_protected_paths fs)"
    "net_part ?m = net_part m" "ipc_part ?m = ipc_part m" "run_part ?m = run_part m" "roots_part ?m = roots_part m" "env_part ?m = env_part m"
    by (cases "rfs_mode fs = None"; cases "rfs_mode fs = Some FsRestricted";
        simp add: merge_filesystem_def part_defs Let_def case_prod_beta get_or_def [of _ "Some _"])+
  assume "merger_ok U build wild m"
  then have "positions_ok (config_rule_key U build (pm_dialect m)) ?rules"
    and "keyed_list (\<lambda>path. platform_path_key_new U path (pm_dialect m)) ?protected"
    by (simp_all add: merger_ok_def positions_ok_empty Let_def)
  note upsert_ok [OF this(1), of "rfs_rules fs"] push_unique_list_ok [OF this(2), of "rfs_additional_protected_paths fs"]
  with \<open>merger_ok U build wild m\<close> show ?thesis unfolding merger_ok_def Let_def parts by (simp only: simp_thms)
qed

lemma merge_network_ok: "merger_ok U build wild m \<Longrightarrow> merger_ok U build wild (merge_network U build m net)"
proof -
  let ?m = "merge_network U build m net"
  let ?external = "rnet_mode net = Some NetExternal"
  let ?domains = "if ?external then ([], \<lambda>_. None) else fst (net_part m)"
  let ?sockets = "if ?external then ([], \<lambda>_. None) else snd (net_part m)"
  let ?ipc = "if ?external then (([], \<lambda>_. None), ([], \<lambda>_. None)) else ipc_part m"
  have parts: "pm_dialect ?m = pm_dialect m" "fs_part ?m = fs_part m"
    "fst (net_part ?m) = upsert (\<lambda>r. config_domain_key build (rdr_pattern r)) ?domains (rnet_domains net)"
    "snd (net_part ?m) = upsert (\<lambda>r. platform_path_key_new U (rur_path r) (pm_dialect m)) ?sockets (rnet_unix_sockets net)"
    "ipc_part ?m = ?ipc" "run_part ?m = run_part m" "roots_part ?m = roots_part m" "env_part ?m = env_part m"
    by (cases ?external; simp add: merge_network_def clear_network_def part_defs Let_def case_prod_beta get_or_def [of _ "Some _"]
        get_or_def [of _ None] raw_local_ipc_default_def)+
  assume "merger_ok U build wild m"
  then have "positions_ok (\<lambda>r. config_domain_key build (rdr_pattern r)) ?domains"
    and "positions_ok (\<lambda>r. platform_path_key_new U (rur_path r) (pm_dialect m)) ?sockets"
    and "positions_ok (\<lambda>path. platform_path_key_new U path (pm_dialect m)) (fst ?ipc)" and "positions_ok ascii_lower (snd ?ipc)"
    by (simp_all add: merger_ok_def positions_ok_empty Let_def)
  note this(3,4) upsert_ok [OF this(1), of "rnet_domains net"] upsert_ok [OF this(2), of "rnet_unix_sockets net"]
  with \<open>merger_ok U build wild m\<close> show ?thesis unfolding merger_ok_def Let_def parts by (simp only: simp_thms)
qed


lemma set_bt_insert: "e \<in> set (bt_insert key k v m) \<Longrightarrow> e \<in> set m \<or> (key (fst e) = key k \<and> snd e = v)"
  by (induction key k v m rule: bt_insert.induct) (auto split: if_splits)

lemma name_key_rank_inject: "name_key_rank a = name_key_rank b \<longleftrightarrow> a = b"
  by (cases a; cases b) simp_all

lemma override_insert_ok:
  assumes "overrides_ok U os"
  shows "overrides_ok U (bt_insert name_key_rank (environment_name_identity U name) (name, v) os)"
proof -
  have "environment_name_identity U (fst (snd e)) = fst e"
    if "e \<in> set (bt_insert name_key_rank (environment_name_identity U name) (name, v) os)" for e
    using set_bt_insert [OF that] assms unfolding overrides_ok_def name_key_rank_inject by auto
  then show ?thesis using assms unfolding overrides_ok_def by (simp add: bt_sorted_insert)
qed

lemma merge_filter_respell: "merge_filter_step U wild st e = respell (config_filter_key U wild) st e"
  by (simp add: merge_filter_step_def respell_def Let_def case_prod_beta)

lemma merge_environment_ok:
  assumes "spelling_ok (config_filter_key U wild) (renv_filters merged, keys)" and "overrides_ok U os"
    and "merge_environment U wild (merged, keys, os) child = (merged', keys', os')"
  shows "spelling_ok (config_filter_key U wild) (renv_filters merged', keys') \<and> overrides_ok U os'"
proof -
  let ?filters = "foldl (merge_filter_step U wild) (renv_filters merged, keys) (renv_filters child)"
  have "spelling_ok (config_filter_key U wild) (foldl (merge_filter_step U wild) st es)"
    if "spelling_ok (config_filter_key U wild) st" for st es
    using that by (induction es arbitrary: st) (simp_all add: merge_filter_respell respell_ok)
  then have "spelling_ok (config_filter_key U wild) ?filters" using assms(1) by blast
  moreover have "overrides_ok U (foldl (\<lambda>o' (name, v). bt_insert name_key_rank (environment_name_identity U name) (name, Some v) o') o' es)"
    if "overrides_ok U o'" for o' es
    using that by (induction es arbitrary: o') (auto simp: override_insert_ok)
  moreover have "overrides_ok U (foldl (\<lambda>o' name. bt_insert name_key_rank (environment_name_identity U name) (name, None) o') o' ns)"
    if "overrides_ok U o'" for o' ns
    using that by (induction ns arbitrary: o') (auto simp: override_insert_ok)
  ultimately show ?thesis
    using assms(2,3) by (auto simp: merge_environment_def Let_def case_prod_beta)
qed

lemma merge_command_ok: "merger_ok U build wild m \<Longrightarrow> merger_ok U build wild (merge_command U wild m cmd)"
proof -
  let ?m = "merge_command U wild m cmd"
  let ?merge = "merge_environment U wild (merged_environment m, pm_environment_filters m, pm_environment_overrides m)"
  have parts: "pm_dialect ?m = pm_dialect m" "fs_part ?m = fs_part m" "net_part ?m = net_part m" "ipc_part ?m = ipc_part m"
    "run_part ?m = run_part m" "roots_part ?m = roots_part m"
    by (simp_all add: merge_command_def part_defs Let_def case_prod_beta)
  assume ok: "merger_ok U build wild m"
  have "spelling_ok (config_filter_key U wild) (fst (env_part ?m)) \<and> overrides_ok U (snd (env_part ?m))"
  proof (cases "rcmd_environment cmd")
    case None
    then have "env_part ?m = env_part m"
      by (simp add: merge_command_def env_part_def merged_environment_def Let_def case_prod_beta get_or_def [of _ "Some _"])
    with ok show ?thesis by (simp add: merger_ok_def Let_def)
  next
    case (Some env)
    obtain merged keys os where result: "?merge env = (merged, keys, os)" by (rule prod_cases3)
    with Some have "env_part ?m = ((renv_filters merged, keys), os)"
      by (simp add: merge_command_def env_part_def merged_environment_def Let_def get_or_def [of _ "Some _"])
    moreover have "spelling_ok (config_filter_key U wild) (renv_filters (merged_environment m), pm_environment_filters m)"
      and "overrides_ok U (pm_environment_overrides m)"
      using ok by (simp_all add: merger_ok_def env_part_def Let_def)
    note merge_environment_ok [OF this result]
    ultimately show ?thesis by simp
  qed
  with ok show ?thesis unfolding merger_ok_def Let_def parts by (simp only: simp_thms)
qed

lemma if_present_ok:
  "(\<And>m v. merger_ok U build wild m \<Longrightarrow> merger_ok U build wild (f m v)) \<Longrightarrow> merger_ok U build wild m \<Longrightarrow>
     merger_ok U build wild (if_present f x m)"
  by (cases x) (simp_all add: if_present_def)

lemma merge_sections_ok: "merger_ok U build wild m \<Longrightarrow> merger_ok U build wild (merge_sections U build wild p m)"
  unfolding merge_sections_def
  by (intro if_present_ok merge_runtime_ok merge_approval_ok merge_command_ok merge_local_ipc_ok merge_network_ok
      merge_filesystem_ok merge_workspace_roots_ok)

lemma describe_ok: "merger_ok U build wild (m\<lparr>pm_merged := (pm_merged m)\<lparr>mp_description := d\<rparr>\<rparr>) = merger_ok U build wild m"
  by (rule same_parts_ok) (simp add: same_parts_def part_defs)

lemma merger_apply_ok: "merger_ok U build wild m \<Longrightarrow> merger_ok U build wild (merger_apply U build wild platform m p)"
  unfolding merger_apply_def apply_platform_overlay_def Let_def
  by (auto simp: describe_ok merge_sections_ok split: option.split)

lemma merge_sections_dialect: "pm_dialect (merge_sections U build wild p m) = pm_dialect m"
proof -
  have "pm_dialect (merge_workspace_roots U m es) = pm_dialect m" for m es
    unfolding merge_workspace_roots_def by (induction es arbitrary: m) (simp_all add: merge_workspace_root_def Let_def split: prod.split)
  then show ?thesis
    by (simp add: merge_sections_def if_present_def merge_filesystem_def merge_network_def clear_network_def merge_local_ipc_def
        merge_command_def merge_approval_def merge_runtime_def Let_def case_prod_beta split: option.split)
qed

lemma merger_apply_dialect: "pm_dialect (merger_apply U build wild platform m p) = pm_dialect m"
  by (simp add: merger_apply_def apply_platform_overlay_def Let_def merge_sections_dialect split: option.split)

text \<open>The overrides split into assignments and removals.\<close>

lemma finish_environment_names:
  fixes env :: raw_environment
  shows "bt_sorted id (renv_set (finish_environment os env)) \<and>
    fst ` set (renv_set (finish_environment os env)) = (\<lambda>e. fst (snd e)) ` {e \<in> set os. snd (snd e) \<noteq> None} \<and>
    renv_remove (finish_environment os env) = map (\<lambda>e. fst (snd e)) (filter (\<lambda>e. snd (snd e) = None) os) \<and>
    renv_filters (finish_environment os env) = renv_filters env"
proof (induction os rule: rev_induct)
  case Nil
  then show ?case by (simp add: finish_environment_def)
next
  case (snoc e os)
  obtain k n v where e: "e = (k, n, v)" by (rule prod_cases3)
  let ?env = "finish_environment os env"
  have step: "finish_environment (os @ [e]) env =
      (case v of Some value \<Rightarrow> ?env\<lparr>renv_set := bt_insert id n value (renv_set ?env)\<rparr>
       | None \<Rightarrow> ?env\<lparr>renv_remove := renv_remove ?env @ [n]\<rparr>)"
    by (simp add: finish_environment_def e split: option.split)
  have keys: "fst ` set (bt_insert id n w (renv_set ?env)) = insert n (fst ` set (renv_set ?env))" for w
    using keys_bt_insert [of id n w "renv_set ?env"] by simp
  show ?case
  proof (cases v)
    case None
    with snoc show ?thesis unfolding step by (auto simp: e)
  next
    case (Some w)
    have "bt_sorted id (bt_insert id n w (renv_set ?env))" using snoc.IH by (intro bt_sorted_insert) blast
    moreover have "{x \<in> set (os @ [e]). snd (snd x) \<noteq> None} = insert e {x \<in> set os. snd (snd x) \<noteq> None}"
      using Some by (auto simp: e)
    ultimately show ?thesis using snoc keys Some unfolding step by (simp add: e id_def)
  qed
qed

lemma finish_environment_distinct:
  assumes "overrides_ok U os"
  shows "distinct (map (environment_name_identity U)
    (map fst (renv_set (finish_environment os env)) @ renv_remove (finish_environment os env)))"
proof -
  let ?id = "environment_name_identity U"
  let ?name = "\<lambda>e :: environment_name_key \<times> string \<times> string option. fst (snd e)"
  let ?set = "map fst (renv_set (finish_environment os env))"
  note names = finish_environment_names [of os env]
  have "distinct (map (\<lambda>e. name_key_rank (fst e)) os)" using assms bt_sorted_distinct by (auto simp: overrides_ok_def)
  then have "distinct (map name_key_rank (map fst os))" by (simp add: comp_def)
  then have "distinct (map fst os)" by (simp only: distinct_map [of name_key_rank])
  moreover have same: "map (\<lambda>e. ?id (?name e)) os = map fst os" using assms by (simp add: overrides_ok_def)
  ultimately have ids: "distinct (map (\<lambda>e. ?id (?name e)) os)" by (simp only:)
  then have inj: "inj_on (\<lambda>e. ?id (?name e)) (set os)" by (simp add: distinct_map)
  have "distinct ?set" using names bt_sorted_distinct [of id "renv_set (finish_environment os env)"] by simp
  moreover have "inj_on ?id (set ?set)"
  proof (rule inj_onI)
    fix a b
    assume "a \<in> set ?set" "b \<in> set ?set" and eq: "?id a = ?id b"
    then obtain x y where "x \<in> set os" "a = ?name x" "y \<in> set os" "b = ?name y" using names by auto
    with inj eq show "a = b" by (auto dest: inj_onD)
  qed
  ultimately have "distinct (map ?id ?set)" by (simp only: distinct_map [of ?id] simp_thms)
  moreover have "distinct (map ?id (renv_remove (finish_environment os env)))"
    using names distinct_map_filter [OF ids, of "\<lambda>e. snd (snd e) = None"] by (simp add: comp_def)
  moreover have "?id ` set ?set \<inter> ?id ` set (renv_remove (finish_environment os env)) = {}"
    using names inj by (auto dest: inj_onD)
  ultimately show ?thesis by (simp add: image_image)
qed


lemma resolve_raw_merger:
  assumes "resolve_raw U build wild config name platform = Some (Inr merged)"
  obtains m where "merger_ok U build wild m" and "pm_dialect m = config_path_dialect platform" and "merged = merger_finish m"
proof -
  let ?P = "\<lambda>m. merger_ok U build wild m \<and> pm_dialect m = config_path_dialect platform"
  from assms obtain order m where
    m: "try_fold (apply_named U build wild (rc_profiles config) platform) (merger_new (config_path_dialect platform)) order = Inr m"
    and merged: "merged = merger_finish m"
    unfolding resolve_raw_def by (auto simp: and_then_eq_Inr)
  have "?P m"
  proof (rule try_fold_invariant [where P = ?P, OF m])
    show "?P (merger_new (config_path_dialect platform))" by (simp add: merger_new_ok) (simp add: merger_new_def)
  next
    fix m x m'
    assume "?P m" and "apply_named U build wild (rc_profiles config) platform m x = Inr m'"
    then show "?P m'" by (auto simp: apply_named_def merger_apply_ok merger_apply_dialect split: option.splits)
  qed
  then show ?thesis using that merged by blast
qed

section \<open>An example document\<close>

text \<open>A diamond of inheritance whose child makes one inherited directory writable.\<close>

definition example_sections :: raw_platform_profile where
  "example_sections = \<lparr>rpp_description = None, rpp_workspace_roots = [], rpp_filesystem = None, rpp_network = None, rpp_local_ipc = None,
     rpp_command = None, rpp_approval = None, rpp_runtime = None\<rparr>"

definition example_profile :: "string list \<Rightarrow> raw_filesystem_rule list \<Rightarrow> raw_profile" where
  "example_profile names rules = raw_platform_profile.extend
     (example_sections\<lparr>rpp_filesystem := Some (raw_filesystem_default\<lparr>rfs_rules := rules\<rparr>)\<rparr>)
     (raw_profile.fields names [])"

definition example_rule :: "string \<Rightarrow> access_mode \<Rightarrow> raw_filesystem_rule" where
  "example_rule path access = \<lparr>rfr_target = TargetAbsolute, rfr_path = Some path, rfr_pattern = None, rfr_access = access,
     rfr_missing_path = None, rfr_read_only_subpaths = []\<rparr>"

definition example_config :: raw_config where
  "example_config = \<lparr>rc_default_profile = Some ''app'', rc_profiles =
     [(''app'', example_profile [''left'', ''right''] [example_rule ''/srv/data'' Write]),
      (''base'', example_profile [] [example_rule ''/'' Read, example_rule ''/srv/data'' Read]),
      (''left'', example_profile [''base''] []),
      (''right'', example_profile [''base''] [])]\<rparr>"

abbreviation example_resolution :: "(config_error, resolved_profile) rust_result option" where
  "example_resolution \<equiv> resolve_with_platform ascii_tables example_build example_wild example_config ''app'' (Some Linux)"

lemma example_resolves:
  "case example_resolution of
     Some (Inr profile) \<Rightarrow> fs_mode (sb_filesystem (res_policy profile)) = FsRestricted \<and>
       fs_access_for_path (sb_filesystem (res_policy profile)) ''/srv/data/log'' context_new = Inr FsWrite
   | _ \<Rightarrow> False"
  by code_simp

text \<open>Roots that differ in case pass validation on a POSIX host and are one root when resolved for Windows.\<close>

definition case_config :: raw_config where
  "case_config = \<lparr>rc_default_profile = None, rc_profiles = [(''app'', raw_platform_profile.extend
     (example_sections\<lparr>rpp_workspace_roots := [(''Src'', True), (''src'', False)]\<rparr>) (raw_profile.fields [] []))]\<rparr>"

lemma case_variants_pass_validation:
  "validate_raw_config ascii_tables example_build example_wild case_config = Inr () \<and>
     platform_path_key_new ascii_tables ''Src'' (config_path_dialect (Some platform_id.Windows)) =
     platform_path_key_new ascii_tables ''src'' (config_path_dialect (Some platform_id.Windows))"
  by code_simp

definition example_ipc :: raw_local_ipc where
  "example_ipc = \<lparr>ripc_unix_sockets = [''/run/tool.sock''], ripc_named_pipes = []\<rparr>"

section \<open>Properties\<close>

text \<open>C6: Resolution of the inheritance graph of any document, cyclic or not, returns. On success every ancestor of the
  profile is listed once, after all the profiles it inherits from, with the profile itself last. It fails only on an
  ancestor that is not declared, which it names, or on a cycle of inheritance reachable from the profile, which it lists.\<close>

theorem profile_resolution_terminates:
  "\<exists>r. resolve_order profiles name = Some r \<and>
     (case r of Inl e \<Rightarrow> resolution_failure profiles name e | Inr order \<Rightarrow> resolution_order profiles name order)"
  by (rule resolve_order_returns)


text \<open>C3: A write that the policy of a resolved profile permits under a restricted filesystem goes back to the document:
  the profile or one of its ancestors declares, itself or in the overlay of the platform, a rule with write access whose
  target matches the path, and the path is not protected.\<close>

theorem resolved_writes_are_declared:
  assumes "resolve_with_platform U build wild config name platform = Some (Inr profile)"
    and "fs_mode (sb_filesystem (res_policy profile)) = FsRestricted"
    and "fs_access_for_path (sb_filesystem (res_policy profile)) path c = Inr FsWrite"
  shows "\<exists>n p raw target. n \<in> ancestors (rc_profiles config) name \<and> map_of (rc_profiles config) n = Some p \<and>
    raw \<in> declared_rules platform p \<and> rfr_access raw = Write \<and> build_target build raw name = Inr target \<and>
    target_match path c target \<noteq> None \<and> \<not> is_protected_path (sb_filesystem (res_policy profile)) path"
proof -
  from assms(1) obtain merged where merged: "resolve_raw U build wild config name platform = Some (Inr merged)"
    and built: "build_profile U build wild name merged = Inr profile"
    unfolding resolve_with_platform_def by (auto simp: and_then_eq_Inr)
  from built have fs: "build_filesystem build (mp_filesystem merged) name = Inr (sb_filesystem (res_policy profile))"
    unfolding build_profile_def build_policy_def Let_def and_then_eq_Inr by (auto simp: sandbox_new_def)
  obtain r where r: "r \<in> set (fs_entries (sb_filesystem (res_policy profile)))" "rule_access r = Write"
    "target_match path c (rule_target r) \<noteq> None" and safe: "\<not> is_protected_path (sb_filesystem (res_policy profile)) path"
    using write_needs_rule [OF assms(2,3)] by blast
  from build_filesystem_Inr [OF fs] r(1) obtain raw where raw: "raw \<in> filesystem_rules (mp_filesystem merged)"
    and rule: "build_filesystem_rule build raw name = Inr r"
    by blast
  from build_filesystem_rule_Inr [OF rule] r(2) have "rfr_access raw = Write" and "build_target build raw name = Inr (rule_target r)" by auto
  with resolve_raw_rules [OF merged raw] r(3) safe show ?thesis by blast
qed

theorem resolved_writes_are_declared_witness:
  "\<exists>n p raw target. n \<in> ancestors (rc_profiles example_config) ''app'' \<and> map_of (rc_profiles example_config) n = Some p \<and>
     raw \<in> declared_rules (Some Linux) p \<and> rfr_access raw = Write \<and> build_target example_build raw ''app'' = Inr target \<and>
     target_match ''/srv/data/log'' context_new target \<noteq> None"
proof -
  from example_resolves obtain profile where "example_resolution = Some (Inr profile)"
    and "fs_mode (sb_filesystem (res_policy profile)) = FsRestricted"
    and "fs_access_for_path (sb_filesystem (res_policy profile)) ''/srv/data/log'' context_new = Inr FsWrite"
    by (auto split: option.splits sum.splits)
  from resolved_writes_are_declared [OF this] show ?thesis by blast
qed

text \<open>C18: Every resolution returns, and a resolved profile is well formed: its policies are built through the checked
  constructors and validate, the filesystem mode is the merged one with restricted as default, the network is enabled only
  by its mode or by a declared Unix endpoint, the gateway settings respect their bounds, the approval timeout is positive
  and the command is a checked request.\<close>

theorem resolved_profile_is_well_formed:
  "\<exists>r. resolve_with_platform U build wild config name platform = Some r \<and>
     (\<forall>profile. r = Inr profile \<longrightarrow>
        built_policy build (sb_filesystem (res_policy profile)) \<and> built_network build (sb_network (res_policy profile)) \<and>
        sandbox_validate (res_policy profile) = Inr () \<and> valid_config (res_network_gateway profile) \<and>
        0 < appr_timeout_ms (res_approval profile) \<and>
        (\<forall>request. res_command profile = Some request \<longrightarrow> built_request U wild request) \<and>
        (\<exists>merged. resolve_raw U build wild config name platform = Some (Inr merged) \<and>
           fs_mode (sb_filesystem (res_policy profile)) = declared_mode (mp_filesystem merged) \<and>
           net_mode (sb_network (res_policy profile)) = configured_network_mode (mp_network merged) (mp_local_ipc merged)))"
proof -
  obtain o' where "resolve_order (rc_profiles config) name = Some o'" using resolve_order_returns by blast
  then obtain r where r: "resolve_raw U build wild config name platform = Some r" by (simp add: resolve_raw_def)
  have "built_policy build (sb_filesystem (res_policy profile)) \<and> built_network build (sb_network (res_policy profile)) \<and>
      sandbox_validate (res_policy profile) = Inr () \<and> valid_config (res_network_gateway profile) \<and>
      0 < appr_timeout_ms (res_approval profile) \<and>
      (\<forall>request. res_command profile = Some request \<longrightarrow> built_request U wild request) \<and>
      fs_mode (sb_filesystem (res_policy profile)) = declared_mode (mp_filesystem merged) \<and>
      net_mode (sb_network (res_policy profile)) = configured_network_mode (mp_network merged) (mp_local_ipc merged)"
    if "build_profile U build wild name merged = Inr profile" for merged profile
  proof -
    from that obtain policy command gateway approval where
      policy: "build_policy build (mp_filesystem merged) (mp_network merged) (mp_local_ipc merged) name = Inr policy"
      and command: "build_command U wild (mp_command merged) name = Inr command"
      and gateway: "build_gateway_config (case mp_network merged of None \<Rightarrow> None | Some n \<Rightarrow> rnet_gateway n) name = Inr gateway"
      and approval: "build_approval (mp_approval merged) name = Inr approval"
      and profile: "res_policy profile = policy" "res_command profile = command" "res_network_gateway profile = gateway"
        "res_approval profile = approval"
      unfolding build_profile_def and_then_eq_Inr by auto
    from policy obtain fs net where fs: "build_filesystem build (mp_filesystem merged) name = Inr fs"
      and net: "build_network build (mp_network merged) (mp_local_ipc merged) name = Inr net"
      and sandbox: "policy = sandbox_new fs net"
      unfolding build_policy_def Let_def and_then_eq_Inr by auto
    show ?thesis
      using build_filesystem_Inr [OF fs] build_network_Inr(1) [OF net] built_config_valid [OF build_gateway_config_Inr [OF gateway]]
        build_approval_Inr [OF approval] command build_command_Inr [of U wild "mp_command merged" name]
      by (auto simp: profile sandbox sandbox_new_def sandbox_validate_def)
  qed
  then show ?thesis unfolding resolve_with_platform_def r by (auto simp: and_then_eq_Inr)
qed

theorem resolved_profile_is_well_formed_witness:
  "\<exists>profile. example_resolution = Some (Inr profile) \<and> built_policy example_build (sb_filesystem (res_policy profile)) \<and>
     sandbox_validate (res_policy profile) = Inr () \<and> valid_config (res_network_gateway profile)"
proof -
  from example_resolves obtain profile where profile: "example_resolution = Some (Inr profile)"
    by (auto split: option.splits sum.splits)
  with resolved_profile_is_well_formed [of ascii_tables example_build example_wild example_config "''app''" "Some Linux"]
  show ?thesis by auto
qed



text \<open>C19: In a merged profile no two entries have the same identity: filesystem rules, protected paths, domains, Unix
  sockets, local endpoints, executable and workspace roots, environment filters, and the variables set or removed.\<close>

theorem merged_identities_are_unique:
  assumes "resolve_raw U build wild config name platform = Some (Inr merged)" and "d = config_path_dialect platform"
  shows "(\<forall>fs. mp_filesystem merged = Some fs \<longrightarrow> distinct (map (config_rule_key U build d) (rfs_rules fs)) \<and>
      distinct (map (\<lambda>p. platform_path_key_new U p d) (rfs_additional_protected_paths fs))) \<and>
    (\<forall>net. mp_network merged = Some net \<longrightarrow> distinct (map (\<lambda>r. config_domain_key build (rdr_pattern r)) (rnet_domains net)) \<and>
      distinct (map (\<lambda>r. platform_path_key_new U (rur_path r) d) (rnet_unix_sockets net))) \<and>
    (\<forall>ipc. mp_local_ipc merged = Some ipc \<longrightarrow> distinct (map (\<lambda>p. platform_path_key_new U p d) (ripc_unix_sockets ipc)) \<and>
      distinct (map ascii_lower (ripc_named_pipes ipc))) \<and>
    (\<forall>run. mp_runtime merged = Some run \<longrightarrow> distinct (map (\<lambda>p. platform_path_key_new U p d) (rrun_executable_roots run))) \<and>
    distinct (map (\<lambda>e. platform_path_key_new U (fst e) d) (mp_workspace_roots merged)) \<and>
    (\<forall>cmd env. mp_command merged = Some cmd \<longrightarrow> rcmd_environment cmd = Some env \<longrightarrow> valid_environment U wild env)"
proof -
  obtain m where ok: "merger_ok U build wild m" and d: "pm_dialect m = d" and merged: "merged = merger_finish m"
    using resolve_raw_merger [OF assms(1)] assms(2) by blast
  have "valid_environment U wild env" if "mp_command merged = Some cmd" and "rcmd_environment cmd = Some env" for cmd env
  proof -
    from that merged obtain c e where c: "mp_command (pm_merged m) = Some c" "rcmd_environment c = Some e"
      and env: "env = finish_environment (pm_environment_overrides m) e"
      by (auto simp: merger_finish_def)
    then have "spelling_ok (config_filter_key U wild) (renv_filters e, pm_environment_filters m)"
      and "overrides_ok U (pm_environment_overrides m)"
      using ok by (simp_all add: merger_ok_def env_part_def merged_environment_def get_or_def Let_def)
    with spelling_ok_distinct finish_environment_distinct show ?thesis
      unfolding valid_environment_def env using finish_environment_names by metis
  qed
  moreover have "mp_filesystem merged = mp_filesystem (pm_merged m)" "mp_network merged = mp_network (pm_merged m)"
    "mp_local_ipc merged = mp_local_ipc (pm_merged m)" "mp_runtime merged = mp_runtime (pm_merged m)"
    "mp_workspace_roots merged = mp_workspace_roots (pm_merged m)"
    by (simp_all add: merged merger_finish_def)
  moreover have "distinct (map (\<lambda>e. platform_path_key_new U (fst e) d) (mp_workspace_roots (pm_merged m)))"
    by (rule spelling_ok_distinct [of _ _ "pm_workspace_roots m"]) (use ok in \<open>simp add: merger_ok_def roots_part_def d Let_def\<close>)
  ultimately show ?thesis
    using ok unfolding merger_ok_def Let_def d
    by (auto simp: fs_part_def net_part_def ipc_part_def run_part_def get_or_def keyed_list_def dest: positions_ok_distinct)
qed

theorem merged_identities_are_unique_witness:
  "\<exists>merged fs. resolve_raw ascii_tables example_build example_wild example_config ''app'' (Some Linux) = Some (Inr merged) \<and>
     mp_filesystem merged = Some fs \<and> length (rfs_rules fs) = 2 \<and>
     distinct (map (config_rule_key ascii_tables example_build Posix) (rfs_rules fs))"
proof -
  have "case resolve_raw ascii_tables example_build example_wild example_config ''app'' (Some Linux) of
      Some (Inr merged) \<Rightarrow> (case mp_filesystem merged of None \<Rightarrow> False | Some fs \<Rightarrow> length (rfs_rules fs) = 2) | _ \<Rightarrow> False"
    by code_simp
  then obtain merged fs where merged: "resolve_raw ascii_tables example_build example_wild example_config ''app'' (Some Linux) = Some (Inr merged)"
    and fs: "mp_filesystem merged = Some fs" "length (rfs_rules fs) = 2"
    by (auto split: option.splits sum.splits)
  with merged_identities_are_unique [OF merged refl] show ?thesis by simp
qed

end
