(* ===== verification/Spec2Isabelle.thy ===== *)
theory Spec2Isabelle
  imports Backend_Api Gateway_Http Permission_Store Config_Facts
begin

text \<open>
  Verification library for the portable core of cageforge, a sandbox launcher written in Rust.

  \<^bold>\<open>The program.\<close> A configuration document (\<open>cageforge-config\<close>) declares profiles that inherit from one another. A
  resolved profile consists of a sandbox policy (\<open>cageforge-policy\<close>), a command request (\<open>cageforge-command\<close>), gateway
  settings and approval settings. The policy is composed with the ceiling of the host (\<open>cageforge-policy-compose\<close>); both
  rest on lexical path identity (\<open>cageforge-path\<close>). A backend receives the composition only after its advertised
  capabilities were compared with the required ones (\<open>cageforge-backend-api\<close>). Outbound traffic of an enabled network passes a
  gateway that asks the composed policy about every address (\<open>cageforge-network-proxy\<close>). Permission requests,
  grants and the file that stores them are in \<open>cageforge-permissions\<close>.

  \<^bold>\<open>Conventions.\<close> The target is POSIX with 64-bit \<open>usize\<close>. \<open>String\<close>, \<open>OsString\<close>, \<open>PathBuf\<close> and byte slices are
  byte lists; \<open>Result\<close> is a sum with the error on the left and \<open>?\<close> is \<open>and_then\<close>; loops with an early return are
  \<open>try_fold\<close> and \<open>try_map\<close>. A \<open>HashMap\<close> is a map, a \<open>HashSet\<close> a set, a \<open>BTreeMap\<close> its sorted entries. Structures are
  records, enumerations datatypes, addresses words. Builders return the updated record. The predicates named \<open>built_\<close> are
  inductive: they hold of exactly the values the public constructors and builders give, and lemmas about them are by rule induction.

  \<^bold>\<open>Parameters.\<close> Third-party code is an argument. \<open>build\<close> compiles one glob component (\<open>globset\<close>), \<open>wild\<close> matches a
  wildcard, \<open>U\<close> holds Unicode tables, \<open>A\<close> parses an authority and \<open>http_lib\<close> holds header maps (\<open>http\<close>), \<open>codec\<close>
  and the digest functions are \<open>serde_json\<close> and \<open>sha2\<close>; \<open>network_world\<close> answers for the resolver, the clock and
  outbound attempts, and \<open>store_faults\<close> for the failures of the file system. What a property relies on is a named hypothesis
  (\<open>literal_globs_exact\<close>, \<open>plain_globs_match\<close>, \<open>sane_tables\<close>, \<open>http_lib_ok\<close>, \<open>sha256_width\<close>, \<open>serde_round_trips\<close>),
  and the witness of the property gives a concrete function that satisfies it.

  \<^bold>\<open>Theories.\<close>
  \<^item> \<open>Prelude\<close>, \<open>Utf8\<close>, \<open>Std_Path\<close>, \<open>Std_Net\<close>, \<open>Net_Display\<close>: results, strings, UTF-8 decoding, \<open>std::path\<close>, \<open>std::net\<close>
    with its parser and its display, which the parser inverts.
  \<^item> \<open>Collections\<close>: the keyed loops of the crates and their contracts as locales. \<open>keyed_identity\<close> is a test that agrees with a
    key, \<open>keyed_merge\<close> a loop that merges entries of one key, \<open>keyed_measure\<close> a quantity such a loop keeps, \<open>finite_map\<close> the
    laws of a map. They are interpreted on paths, selectors, endpoints, filesystem rules, domain and socket rules, the
    entries of a configuration, and both map types.
  \<^item> \<open>Lexical_Path\<close> (\<open>cageforge-path\<close>): keys, equality, containment, normalization and resolution reduce to one list
    of components; a resolved relative path stays below its base.
  \<^item> \<open>Access\<close>, \<open>Selector\<close>, \<open>Glob_Pattern\<close>, \<open>Filesystem_Policy\<close>, \<open>Local_Ipc\<close>, \<open>Network_Policy\<close>, \<open>Sandbox_Policy\<close>
    (\<open>cageforge-policy\<close>). Verdicts of rules form a commutative monoid, so a decision does not depend on the order of rules;
    the two-row glob table computes the recursive meaning of \<open>**\<close>; connections are authorized only to resolved
    addresses, and only to public ones unless the policy says otherwise; normalization keeps network decisions, and keeps
    filesystem decisions when no target has both a read and a write rule, but not otherwise.
  \<^item> \<open>Environment\<close>, \<open>Command\<close> (\<open>cageforge-command\<close>): application of an environment specification refines a view of
    variables by case-folded name; a request that was built is safe to pass to the operating system.
  \<^item> \<open>Composition\<close> (\<open>cageforge-policy-compose\<close>): what is composed is at most what request and ceiling allow
    separately after normalization; requirements report exactly the features a decision depends on. The locale
    \<open>narrowing\<close> states the contract of a combination and is interpreted on accesses and on both effective decisions.
  \<^item> \<open>Backend_Api\<close> (\<open>cageforge-backend-api\<close>): required capabilities, preflight and the prepared request, which is bound
    to one backend.
  \<^item> \<open>Permissions\<close>, \<open>Permission_Store\<close> (\<open>cageforge-permissions\<close>): a grant covers its request and nothing else; the
    store refines a map from requests to grants, a failed write leaves the file as it was, and listing is complete.
  \<^item> \<open>Gateway\<close>, \<open>Gateway_Relay\<close>, \<open>Gateway_Http\<close> (\<open>cageforge-network-proxy\<close>): settings, authorities, ingress
    authentication, connection, SOCKS5 and HTTP forwarding as functions on streams; the two directions of a relay as a step
    relation over their shared counter, whose invariant holds under every interleaving.
  \<^item> \<open>Config_Model\<close>, \<open>Config_Build\<close>, \<open>Config_Resolve\<close>, \<open>Config_Facts\<close> (\<open>cageforge-config\<close>): the document, the merge of
    profiles and overlays, the builders, validation and the traversal of the inheritance graph. The traversal returns
    for every document; what a profile permits goes back to rules it declares or inherits; validation is characterised
    by a predicate on documents.

  This theory has the property that spans composition and backends: a capability a backend lacks is one a prepared request
  does not need.

  \<^bold>\<open>Bounds and fuel.\<close> The traversal of profiles is a partial function into \<open>option\<close>; \<open>profile_resolution_terminates\<close> shows it
  returns, with a lexicographic measure: profiles not completed, profiles not on the stack, parents left of the frame on top.
  \<open>list_pages\<close>, the client loop over pages, has fuel; one more than the number of grants is enough, by \<open>listing_is_complete\<close>.
  The other recursions are structural or have a measure. Byte counters and totals keep their 64-bit bound.

  \<^bold>\<open>Not modelled.\<close> The native backends (\<open>cageforge-linux\<close>, \<open>cageforge-macos\<close>, \<open>cageforge-windows\<close>, \<open>cageforge-bwrap\<close>)
  consist of system calls whose effect is that of the kernel; their interface is the prepared request of \<open>Backend_Api\<close>.
  The facade \<open>cageforge\<close>, whose preflight plans are portable, is not covered; neither are the command line, the
  language bindings and the repository tools, which convert and present values. Of \<open>cageforge-config\<close>, TOML parsing, source
  locations, diagnostics and the schema are left out: a document is the value the parser returns and an error
  has no location. Of \<open>http.rs\<close>, the hyper connection drivers and polling adapters are left out. Windows branches of
  functions with a POSIX branch are not compiled on the target and not modelled; the path dialects that are text only are.
\<close>



end
